(* ===== verification/Prelude.thy ===== *)
theory Prelude
  imports "HOL-Library.Word" "HOL-Library.Monad_Syntax"
begin

text \<open>
  Shared vocabulary of the WirelessHub development.

  \<^item> machine words of the C code and the little- and big-endian views of them;
  \<^item> bounded buffers: \<open>memcpy_at\<close> and \<open>mem_read\<close> yield \<open>None\<close> where the C code would touch
    memory outside its array, so that "never \<open>None\<close>" is memory safety;
  \<^item> the locale \<open>codec\<close>: the contract of a packed wire structure (\<open>memcpy\<close> of a struct into a
    packet and back), proved once and interpreted for every structure of \<open>Protocol.h\<close> and
    \<open>usbip_proto.h\<close>;
  \<^item> event groups: an argument \<open>eg_ops\<close> stands for the FreeRTOS functions, \<open>event_group_spec\<close>
    is what their documentation promises;
  \<^item> the locale \<open>inductive_invariant\<close> and the predicate \<open>reach\<close> used by every state machine.
\<close>

unbundle bit_operations_syntax

section \<open>Collections of facts\<close>

named_theorems wire_defs \<open>encoders and decoders of the wire structures\<close>
named_theorems wire_size \<open>sizes of the wire structures\<close>
named_theorems const_defs \<open>the numeric constants of the headers\<close>
named_theorems eg_simps \<open>reading the bits of an event group after an update\<close>

section \<open>Machine words\<close>

type_synonym byte = "8 word"
type_synonym u8 = "8 word"
type_synonym u16 = "16 word"
type_synonym u32 = "32 word"

text \<open>Little-endian bytes of a word, as both the ESP32 and the Linux host store it.\<close>

definition le16_bytes :: "u16 \<Rightarrow> byte list" where
  "le16_bytes w = [ucast w, ucast (drop_bit 8 w)]"

definition le16_of :: "byte \<Rightarrow> byte \<Rightarrow> u16" where
  "le16_of a b = word_cat b a"

definition le32_bytes :: "u32 \<Rightarrow> byte list" where
  "le32_bytes w =
     [ucast w, ucast (drop_bit 8 w), ucast (drop_bit 16 w), ucast (drop_bit 24 w)]"

definition le32_of :: "byte \<Rightarrow> byte \<Rightarrow> byte \<Rightarrow> byte \<Rightarrow> u32" where
  "le32_of a b c d = word_cat (word_cat d c :: u16) (word_cat b a :: u16)"

lemma length_le_bytes [simp]:
  "length (le16_bytes w) = 2" "length (le32_bytes v) = 4"
  by (simp_all add: le16_bytes_def le32_bytes_def)

lemma le16_of_parts [simp]: "le16_of (ucast w) (ucast (drop_bit 8 w)) = w"
  unfolding le16_of_def by (rule bit_word_eqI) (auto simp: bit_simps not_less)

lemma ucast_le16_of [simp]:
  "ucast (le16_of a b) = a" "ucast (drop_bit 8 (le16_of a b)) = b"
  unfolding le16_of_def by (rule bit_word_eqI, simp add: bit_simps)+

lemma le32_of_parts [simp]:
  "le32_of (ucast w) (ucast (drop_bit 8 w)) (ucast (drop_bit 16 w)) (ucast (drop_bit 24 w)) = w"
  unfolding le32_of_def by (rule bit_word_eqI) (auto simp: bit_simps not_less)

lemma ucast_le32_of [simp]:
  "ucast (le32_of a b c d) = a"
  "ucast (drop_bit 8 (le32_of a b c d)) = b"
  "ucast (drop_bit 16 (le32_of a b c d)) = c"
  "ucast (drop_bit 24 (le32_of a b c d)) = d"
  unfolding le32_of_def by (rule bit_word_eqI, simp add: bit_simps)+

lemma le16_bytes_of [simp]: "le16_bytes (le16_of a b) = [a, b]"
  by (simp add: le16_bytes_def)

lemma le32_bytes_of [simp]: "le32_bytes (le32_of a b c d) = [a, b, c, d]"
  by (simp add: le32_bytes_def)

text \<open>The unsigned reading of a \<open>nat\<close> cast to a narrower integer type.\<close>

lemma unat_of_nat_16: "n < 65536 \<Longrightarrow> unat (of_nat n :: u16) = n"
  by (simp add: unat_of_nat take_bit_nat_eq_self)

lemma unat_of_nat_8: "n < 256 \<Longrightarrow> unat (of_nat n :: u8) = n"
  by (simp add: unat_of_nat take_bit_nat_eq_self)

lemma unat_of_nat_32: "n < 4294967296 \<Longrightarrow> unat (of_nat n :: u32) = n"
  by (simp add: unat_of_nat take_bit_nat_eq_self)

section \<open>Characters and C strings\<close>

text \<open>A C \<open>char\<close> is one byte; texts are lists of \<open>char\<close>, packets lists of bytes.\<close>

definition byte_of_char :: "char \<Rightarrow> byte" where
  "byte_of_char c = of_nat (of_char c)"

definition char_of_byte :: "byte \<Rightarrow> char" where
  "char_of_byte b = char_of (unat b)"

lemma char_of_byte_of_char [simp]: "char_of_byte (byte_of_char c) = c"
proof -
  have "(of_char c :: nat) < 256" by (rule nat_of_char_less_256)
  then show ?thesis by (simp add: char_of_byte_def byte_of_char_def unat_of_nat_8)
qed

text \<open>The C string that starts at a buffer: everything before the first NUL.\<close>

abbreviation NUL :: char where
  "NUL \<equiv> CHR 0x00"

definition cstr :: "string \<Rightarrow> string" where
  "cstr s = takeWhile (\<lambda>c. c \<noteq> NUL) s"

definition nul_free :: "string \<Rightarrow> bool" where
  "nul_free s = list_all (\<lambda>c. c \<noteq> NUL) s"

lemma nul_free_simps [simp]:
  "nul_free []" "nul_free (c # s) \<longleftrightarrow> c \<noteq> NUL \<and> nul_free s"
  "nul_free (s @ t) \<longleftrightarrow> nul_free s \<and> nul_free t"
  by (simp_all add: nul_free_def)

lemma cstr_simps [simp]:
  "cstr [] = []" "cstr (c # s) = (if c = NUL then [] else c # cstr s)"
  by (simp_all add: cstr_def)

lemma cstr_nul_free [simp]: "nul_free s \<Longrightarrow> cstr s = s"
  by (induction s) simp_all

lemma cstr_cut [simp]: "cstr (s @ NUL # r) = cstr s"
  by (induction s) simp_all

lemma nul_free_cstr [simp]: "nul_free (cstr s)"
  by (induction s) simp_all

lemma nul_free_take: "nul_free s \<Longrightarrow> nul_free (take n s)"
  by (simp add: nul_free_def list_all_iff) (meson in_set_takeD)

lemma nul_free_rev [simp]: "nul_free (rev s) = nul_free s"
  by (simp add: nul_free_def)

lemma nul_free_dropWhile: "nul_free s \<Longrightarrow> nul_free (dropWhile P s)"
  by (induction s) simp_all

lemma nul_free_drop: "nul_free s \<Longrightarrow> nul_free (drop n s)"
  using nul_free_simps(3) [of "take n s" "drop n s"] by simp

section \<open>Decimal numbers\<close>

definition digit_char :: "nat \<Rightarrow> char" where
  "digit_char d = ''0123456789'' ! d"

definition digit_val :: "char \<Rightarrow> nat" where
  "digit_val c = of_char c - 48"

fun dec_of_nat :: "nat \<Rightarrow> string" where
  "dec_of_nat n = (if n < 10 then [digit_char n] else dec_of_nat (n div 10) @ [digit_char (n mod 10)])"

declare dec_of_nat.simps [simp del]

definition dec_of_int :: "int \<Rightarrow> string" where
  "dec_of_int i = (if i < 0 then CHR ''-'' # dec_of_nat (nat (- i)) else dec_of_nat (nat i))"

definition nat_of_dec :: "string \<Rightarrow> nat" where
  "nat_of_dec s = foldl (\<lambda>a c. 10 * a + digit_val c) 0 s"

lemma digit_cases: "d < 10 \<Longrightarrow> d \<in> {0, 1, 2, 3, 4, 5, 6, 7, 8, 9 :: nat}"
  by auto

lemma digit_val_char [simp]: "d < 10 \<Longrightarrow> digit_val (digit_char d) = d"
  using digit_cases [of d] by (auto simp: digit_val_def digit_char_def)

lemma digit_not_space [simp]: "d < 10 \<Longrightarrow> digit_char d \<noteq> CHR '' ''"
  using digit_cases [of d] by (auto simp: digit_char_def)

lemma dec_of_nat_small: "n < 10 \<Longrightarrow> dec_of_nat n = [digit_char n]"
  by (simp add: dec_of_nat.simps)

lemma dec_of_nat_big: "10 \<le> n \<Longrightarrow> dec_of_nat n = dec_of_nat (n div 10) @ [digit_char (n mod 10)]"
  by (subst dec_of_nat.simps) simp

lemma nat_of_dec_of_nat [simp]: "nat_of_dec (dec_of_nat n) = n"
proof (induction n rule: dec_of_nat.induct)
  case (1 n)
  then show ?case
    by (cases "n < 10") (simp_all add: dec_of_nat_small dec_of_nat_big nat_of_dec_def)
qed

lemma dec_of_nat_no_space: "c \<in> set (dec_of_nat n) \<Longrightarrow> c \<noteq> CHR '' ''"
proof (induction n rule: dec_of_nat.induct)
  case (1 n)
  then show ?case
    using digit_not_space [of "n mod 10"] digit_not_space [of n]
    by (cases "n < 10") (auto simp: dec_of_nat_small dec_of_nat_big simp del: digit_not_space)
qed

lemma length_dec_of_nat: "n < 10 ^ k \<Longrightarrow> 0 < k \<Longrightarrow> length (dec_of_nat n) \<le> k"
proof (induction k arbitrary: n)
  case 0
  then show ?case by simp
next
  case (Suc k)
  show ?case
  proof (cases "n < 10")
    case True
    then show ?thesis by (simp add: dec_of_nat_small)
  next
    case False
    then have "0 < k" using Suc.prems by (cases k) simp_all
    moreover have "n div 10 < 10 ^ k" using Suc.prems by (simp add: less_mult_imp_div_less mult.commute)
    ultimately show ?thesis using False Suc.IH by (simp add: dec_of_nat_big)
  qed
qed

section \<open>Bounded buffers\<close>

text \<open>
  \<open>memcpy_at buf off src\<close> is \<open>memcpy(buf + off, src, n)\<close>: the updated array, or \<open>None\<close> when the
  copy would run past the end of \<open>buf\<close>. \<open>mem_read buf off n\<close> reads \<open>n\<close> elements at \<open>off\<close>.
\<close>

definition memcpy_at :: "'a list \<Rightarrow> nat \<Rightarrow> 'a list \<Rightarrow> 'a list option" where
  "memcpy_at buf off src =
     (if off + length src \<le> length buf
      then Some (take off buf @ src @ drop (off + length src) buf) else None)"

definition mem_read :: "'a list \<Rightarrow> nat \<Rightarrow> nat \<Rightarrow> 'a list option" where
  "mem_read buf off n = (if off + n \<le> length buf then Some (take n (drop off buf)) else None)"

lemma memcpy_at_None: "memcpy_at buf off src = None \<longleftrightarrow> length buf < off + length src"
  by (auto simp: memcpy_at_def)

lemma length_memcpy_at: "memcpy_at buf off src = Some buf' \<Longrightarrow> length buf' = length buf"
  by (auto simp: memcpy_at_def split: if_splits)

lemma memcpy_at_ok:
  "off + length src \<le> length buf \<Longrightarrow> \<exists>b. memcpy_at buf off src = Some b \<and> length b = length buf"
  by (simp add: memcpy_at_def)

lemma mem_read_memcpy_at:
  "memcpy_at buf off src = Some buf' \<Longrightarrow> mem_read buf' off (length src) = Some src"
  by (auto simp: memcpy_at_def mem_read_def split: if_splits)

text \<open>Writing at the end of what is written already.\<close>

lemma memcpy_at_end:
  "length ys \<le> length rest \<Longrightarrow>
     memcpy_at (xs @ rest) (length xs) ys = Some (xs @ ys @ drop (length ys) rest)"
  by (simp add: memcpy_at_def)

lemma memcpy_at_one:
  "rest \<noteq> [] \<Longrightarrow> memcpy_at (xs @ rest) (length xs) [c] = Some ((xs @ [c]) @ tl rest)"
  using memcpy_at_end [of "[c]" rest xs] by (cases rest) simp_all

text \<open>The C idiom for the smaller of two numbers.\<close>

lemma if_less_min: "(if a < b then a else b) = min a (b :: 'a :: linorder)"
  by (auto simp: min_def)

lemma option_map_bind: "map_option f m = m \<bind> (\<lambda>x. Some (f x))"
  by (cases m) simp_all

text \<open>An operation that may fail, done for every element in turn.\<close>

fun fold_opt :: "('a \<Rightarrow> 's \<Rightarrow> 's option) \<Rightarrow> 'a list \<Rightarrow> 's \<Rightarrow> 's option" where
  "fold_opt f [] s = Some s"
| "fold_opt f (x # xs) s = do { s' \<leftarrow> f x s; fold_opt f xs s' }"

lemma fold_opt_append: "fold_opt f (xs @ ys) s = do { s' \<leftarrow> fold_opt f xs s; fold_opt f ys s' }"
  by (induction xs arbitrary: s) (auto split: bind_splits)

section \<open>Lists\<close>

lemma take_min_length [simp]: "take (min (length xs) n) xs = take n xs"
  by (simp add: min_def)

text \<open>The last \<open>n\<close> elements of a list: what a ring buffer of size \<open>n\<close> remembers.\<close>

definition last_n :: "nat \<Rightarrow> 'a list \<Rightarrow> 'a list" where
  "last_n n xs = drop (length xs - n) xs"

lemma last_n_short [simp]: "length xs \<le> n \<Longrightarrow> last_n n xs = xs"
  by (simp add: last_n_def)

lemma length_last_n [simp]: "length (last_n n xs) = min n (length xs)"
  by (simp add: last_n_def)

lemma last_n_snoc: "0 < n \<Longrightarrow> n \<le> length xs \<Longrightarrow> last_n n (xs @ [x]) = tl (last_n n xs) @ [x]"
  by (simp add: last_n_def Suc_diff_le drop_Suc tl_drop)

lemma last_n_absorb: "last_n n (last_n n xs @ ys) = last_n n (xs @ ys)"
  by (cases "length xs \<le> n") (auto simp: last_n_def add.commute)

text \<open>Cutting a list into pieces of \<open>n\<close> elements, the last one possibly shorter.\<close>

fun chunks_of :: "nat \<Rightarrow> 'a list \<Rightarrow> 'a list list" where
  "chunks_of n xs = (if n = 0 \<or> xs = [] then [] else take n xs # chunks_of n (drop n xs))"

declare chunks_of.simps [simp del]

lemma chunks_of_Nil [simp]: "chunks_of n [] = []"
  by (simp add: chunks_of.simps)

lemma chunks_of_step: "0 < n \<Longrightarrow> xs \<noteq> [] \<Longrightarrow> chunks_of n xs = take n xs # chunks_of n (drop n xs)"
  by (subst chunks_of.simps) simp

lemma concat_chunks_of: "0 < n \<Longrightarrow> concat (chunks_of n xs) = xs"
proof (induction n xs rule: chunks_of.induct)
  case (1 n xs)
  then show ?case by (cases "xs = []") (simp_all add: chunks_of_step)
qed

lemma chunks_of_bound: "c \<in> set (chunks_of n xs) \<Longrightarrow> c \<noteq> [] \<and> length c \<le> n"
proof (induction n xs rule: chunks_of.induct)
  case (1 n xs)
  show ?case
  proof (cases "n = 0 \<or> xs = []")
    case True
    with "1.prems" show ?thesis by (simp add: chunks_of.simps [of n xs])
  next
    case False
    with 1 show ?thesis by (auto simp: chunks_of_step)
  qed
qed

lemma ceil_div_step:
  fixes k n :: nat
  assumes "0 < n" and "0 < k"
  shows "(k + n - 1) div n = Suc ((k - n + n - 1) div n)"
proof (cases "k \<le> n")
  case True
  have "(k + n - 1) div n = ((k - 1) + n) div n" using assms by simp
  also have "\<dots> = Suc ((k - 1) div n)" using assms(1) by (simp only: div_add_self2)
  also have "(k - 1) div n = 0" using True assms by (intro div_less) linarith
  also have "0 = (k - n + n - 1) div n" using True assms by simp
  finally show ?thesis .
next
  case False
  have "(k + n - 1) div n = ((k - n + n - 1) + n) div n"
    using False assms by simp
  also have "\<dots> = Suc ((k - n + n - 1) div n)"
    using assms(1) by (simp only: div_add_self2)
  finally show ?thesis .
qed

lemma length_chunks_of: "0 < n \<Longrightarrow> length (chunks_of n xs) = (length xs + n - 1) div n"
proof (induction n xs rule: chunks_of.induct)
  case (1 n xs)
  show ?case
  proof (cases "xs = []")
    case True
    with 1 show ?thesis by simp
  next
    case False
    then have "length (chunks_of n (drop n xs)) = (length (drop n xs) + n - 1) div n"
      using "1.prems" by (intro "1.IH") simp_all
    then have "length (chunks_of n (drop n xs)) = (length xs - n + n - 1) div n"
      by (simp only: length_drop)
    moreover have "(length xs + n - 1) div n = Suc ((length xs - n + n - 1) div n)"
      using False "1.prems" by (intro ceil_div_step) auto
    ultimately show ?thesis using False "1.prems" by (simp add: chunks_of_step)
  qed
qed

lemma nth_chunks_of:
  "0 < n \<Longrightarrow> i < length (chunks_of n xs) \<Longrightarrow> chunks_of n xs ! i = take n (drop (i * n) xs)"
proof (induction i arbitrary: xs)
  case 0
  then show ?case by (cases "xs = []") (simp_all add: chunks_of_step)
next
  case (Suc i)
  then have "xs \<noteq> []" by auto
  with Suc show ?case by (simp add: chunks_of_step add.commute)
qed

section \<open>Packed wire structures\<close>

text \<open>
  A packed struct is copied into and out of packets with \<open>memcpy\<close>. \<open>enc\<close> gives its bytes,
  \<open>dec\<close> reads it at the head of a buffer (\<open>None\<close> when the buffer is shorter than the struct,
  which would be a read out of bounds).
\<close>

locale codec =
  fixes enc :: "'a \<Rightarrow> byte list"
    and dec :: "byte list \<Rightarrow> 'a option"
    and sz :: nat
  assumes enc_length: "length (enc a) = sz"
    and dec_enc: "dec (enc a @ rest) = Some a"
    and dec_Some_take: "dec bs = Some a \<Longrightarrow> enc a = take sz bs"
    and dec_None_iff: "dec bs = None \<longleftrightarrow> length bs < sz"
begin

lemma enc_inject: "enc a = enc b \<longleftrightarrow> a = b"
  by (metis append_Nil2 dec_enc option.inject)

lemma dec_exact: "dec (enc a) = Some a"
  using dec_enc [of a "[]"] by simp

lemma dec_Some_length: "dec bs = Some a \<Longrightarrow> sz \<le> length bs"
  using dec_None_iff [of bs] by fastforce

lemma dec_prefix: "sz \<le> length bs \<Longrightarrow> dec (bs @ rest) = dec bs"
proof -
  assume "sz \<le> length bs"
  then obtain a where a: "dec bs = Some a"
    using dec_None_iff [of bs] by fastforce
  then have "bs = enc a @ drop sz bs"
    using dec_Some_take by (metis append_take_drop_id)
  then show ?thesis
    using a dec_enc by (metis append.assoc)
qed

lemma dec_split: "dec bs = Some a \<Longrightarrow> bs = enc a @ drop sz bs"
  using dec_Some_take by (metis append_take_drop_id)

end

text \<open>A structure that follows another one in the same packet: header and payload.\<close>

locale codec_pair = hdr: codec enc1 dec1 sz1 + pay: codec enc2 dec2 sz2
  for enc1 :: "'a \<Rightarrow> byte list" and dec1 sz1
  and enc2 :: "'b \<Rightarrow> byte list" and dec2 sz2
begin

lemma pair_length: "length (enc1 a @ enc2 b) = sz1 + sz2"
  by (simp add: hdr.enc_length pay.enc_length)

lemma pair_dec:
  "dec1 (enc1 a @ enc2 b @ rest) = Some a \<and> dec2 (drop sz1 (enc1 a @ enc2 b @ rest)) = Some b"
  by (simp add: hdr.dec_enc pay.dec_enc hdr.enc_length)

lemma pair_inject: "enc1 a @ enc2 b = enc1 a' @ enc2 b' \<longleftrightarrow> a = a' \<and> b = b'"
  by (auto simp: hdr.enc_inject pay.enc_inject hdr.enc_length append_eq_append_conv)

end

section \<open>Event groups\<close>

text \<open>
  The firmware's tasks signal each other through FreeRTOS event groups. The functions are an
  argument of the model; \<open>event_group_spec\<close> is their documented behaviour: setting and clearing
  act on the bits of the mask, and a fresh group has no bit set.
\<close>

record 'g eg_ops =
  eg_new :: 'g
  eg_set :: "'g \<Rightarrow> u32 \<Rightarrow> 'g"
  eg_clear :: "'g \<Rightarrow> u32 \<Rightarrow> 'g"
  eg_get :: "'g \<Rightarrow> u32"

definition event_group_spec :: "'g eg_ops \<Rightarrow> bool" where
  "event_group_spec E \<longleftrightarrow>
     eg_get E (eg_new E) = 0 \<and>
     (\<forall>g m. eg_get E (eg_set E g m) = eg_get E g OR m) \<and>
     (\<forall>g m. eg_get E (eg_clear E g m) = eg_get E g AND NOT m)"

text \<open>\<open>BIT n\<close> is the mask of bit \<open>n\<close>; \<open>eg_has\<close> is the test \<open>xEventGroupGetBits(g) & m\<close>.\<close>

definition BITn :: "nat \<Rightarrow> u32" where
  "BITn n = 2 ^ n"

definition eg_has :: "'g eg_ops \<Rightarrow> 'g \<Rightarrow> u32 \<Rightarrow> bool" where
  "eg_has E g m \<longleftrightarrow> eg_get E g AND m \<noteq> 0"

lemma eg_has_BITn [eg_simps]: "n < 32 \<Longrightarrow> eg_has E g (BITn n) \<longleftrightarrow> bit (eg_get E g) n"
  by (simp add: eg_has_def BITn_def and_exp_eq_0_iff_not_bit)

lemma bit_BITn [eg_simps]: "bit (BITn m) n \<longleftrightarrow> n < 32 \<and> n = m"
  by (auto simp: BITn_def bit_simps)

lemma eg_new_bits [eg_simps]: "event_group_spec E \<Longrightarrow> \<not> bit (eg_get E (eg_new E)) n"
  by (simp add: event_group_spec_def)

lemma eg_set_bits [eg_simps]:
  "event_group_spec E \<Longrightarrow> bit (eg_get E (eg_set E g m)) n \<longleftrightarrow> bit (eg_get E g) n \<or> bit m n"
  by (simp add: event_group_spec_def bit_simps)

lemma eg_clear_bits [eg_simps]:
  "event_group_spec E \<Longrightarrow> n < 32 \<Longrightarrow>
     bit (eg_get E (eg_clear E g m)) n \<longleftrightarrow> bit (eg_get E g) n \<and> \<not> bit m n"
  by (simp add: event_group_spec_def bit_simps)

text \<open>A concrete event group, a bit mask, for the witnesses.\<close>

definition mask_eg :: "u32 eg_ops" where
  "mask_eg = \<lparr>eg_new = 0, eg_set = (\<lambda>g m. g OR m), eg_clear = (\<lambda>g m. g AND NOT m), eg_get = (\<lambda>g. g)\<rparr>"

lemma mask_eg_spec: "event_group_spec mask_eg"
  by (simp add: event_group_spec_def mask_eg_def)

section \<open>Reachable states and invariants\<close>

inductive reach :: "('s \<Rightarrow> bool) \<Rightarrow> ('s \<Rightarrow> 's \<Rightarrow> bool) \<Rightarrow> 's \<Rightarrow> bool"
  for start :: "'s \<Rightarrow> bool" and step :: "'s \<Rightarrow> 's \<Rightarrow> bool" where
  reach_start: "start s \<Longrightarrow> reach start step s"
| reach_step: "reach start step s \<Longrightarrow> step s t \<Longrightarrow> reach start step t"

locale inductive_invariant =
  fixes start :: "'s \<Rightarrow> bool" and step :: "'s \<Rightarrow> 's \<Rightarrow> bool" and inv :: "'s \<Rightarrow> bool"
  assumes start_inv: "start s \<Longrightarrow> inv s"
    and step_inv: "inv s \<Longrightarrow> step s t \<Longrightarrow> inv t"
begin

lemma reach_inv: "reach start step s \<Longrightarrow> inv s"
  by (induction rule: reach.induct) (auto intro: start_inv step_inv)

end

end
