(* ===== verification/Protocol.thy ===== *)
theory Protocol
  imports Prelude
begin

text \<open>
  The wire protocol shared by the daemon and the firmware (\<open>daemon/src/protocol/Protocol.h\<close>):
  its constants, its packed structures with their bytes, and the framing of a payload behind
  the six-byte header. Every structure interprets the locale \<open>codec\<close>.
\<close>

section \<open>Constants\<close>

definition DAEMON_PORT :: u16 where [const_defs]: "DAEMON_PORT = 7788"
definition DEVICE_BASE_PORT :: u16 where [const_defs]: "DEVICE_BASE_PORT = 7789"
definition MAX_PACKET :: nat where [const_defs]: "MAX_PACKET = 65542"
definition MTU_PAYLOAD :: nat where [const_defs]: "MTU_PAYLOAD = 1400"

definition CMD_DISCOVER :: u8 where [const_defs]: "CMD_DISCOVER = 0x01"
definition CMD_DISCOVER_REPLY :: u8 where [const_defs]: "CMD_DISCOVER_REPLY = 0x02"
definition CMD_DEVICE_EVENT :: u8 where [const_defs]: "CMD_DEVICE_EVENT = 0x10"
definition CMD_RAW_DATA :: u8 where [const_defs]: "CMD_RAW_DATA = 0x30"
definition CMD_RAW_FRAG :: u8 where [const_defs]: "CMD_RAW_FRAG = 0x31"
definition CMD_LOG :: u8 where [const_defs]: "CMD_LOG = 0x50"
definition CMD_ERROR :: u8 where [const_defs]: "CMD_ERROR = 0xFF"

definition LOG_LEVEL_ERROR :: u8 where [const_defs]: "LOG_LEVEL_ERROR = 0x01"
definition LOG_LEVEL_WARN :: u8 where [const_defs]: "LOG_LEVEL_WARN = 0x02"
definition LOG_LEVEL_INFO :: u8 where [const_defs]: "LOG_LEVEL_INFO = 0x03"
definition LOG_LEVEL_DEBUG :: u8 where [const_defs]: "LOG_LEVEL_DEBUG = 0x04"
definition LOG_LEVEL_VERBOSE :: u8 where [const_defs]: "LOG_LEVEL_VERBOSE = 0x05"

definition DEVICE_ID_USB0 :: u8 where [const_defs]: "DEVICE_ID_USB0 = 0x00"

definition DEVICE_EVENT_CONNECT :: u8 where [const_defs]: "DEVICE_EVENT_CONNECT = 0x01"
definition DEVICE_EVENT_DISCONNECT :: u8 where [const_defs]: "DEVICE_EVENT_DISCONNECT = 0x02"

definition USB_SPEED_LOW :: u8 where [const_defs]: "USB_SPEED_LOW = 0x01"
definition USB_SPEED_FULL :: u8 where [const_defs]: "USB_SPEED_FULL = 0x02"
definition USB_SPEED_HIGH :: u8 where [const_defs]: "USB_SPEED_HIGH = 0x03"

section \<open>Packed structures\<close>

record Header =
  cmd_type :: u8
  device_id :: u8
  endpoint :: u8
  seq :: u8
  payload_len :: u16

record DiscoverReplyPayload =
  daemon_port :: u16

record DeviceEventPayload =
  dep_device_id :: u8
  event :: u8
  speed :: u8
  usb_class :: u8
  sub_class :: u8
  protocol :: u8
  reply_port :: u16

record FragHeader =
  transfer_seq :: u16
  frag_idx :: u8
  frag_total :: u8

record LogPayload =
  log_level :: u8

definition enc_Header :: "Header \<Rightarrow> byte list" where
  [wire_defs]: "enc_Header h =
     [cmd_type h, device_id h, endpoint h, seq h] @ le16_bytes (payload_len h)"

fun dec_Header :: "byte list \<Rightarrow> Header option" where
  "dec_Header (a # b # c # d # e # f # _) =
     Some \<lparr>cmd_type = a, device_id = b, endpoint = c, seq = d, payload_len = le16_of e f\<rparr>"
| "dec_Header _ = None"

definition enc_DiscoverReply :: "DiscoverReplyPayload \<Rightarrow> byte list" where
  [wire_defs]: "enc_DiscoverReply p = le16_bytes (daemon_port p)"

fun dec_DiscoverReply :: "byte list \<Rightarrow> DiscoverReplyPayload option" where
  "dec_DiscoverReply (a # b # _) = Some \<lparr>daemon_port = le16_of a b\<rparr>"
| "dec_DiscoverReply _ = None"

definition enc_DeviceEvent :: "DeviceEventPayload \<Rightarrow> byte list" where
  [wire_defs]: "enc_DeviceEvent p =
     [dep_device_id p, event p, speed p, usb_class p, sub_class p, protocol p]
       @ le16_bytes (reply_port p)"

fun dec_DeviceEvent :: "byte list \<Rightarrow> DeviceEventPayload option" where
  "dec_DeviceEvent (a # b # c # d # e # f # g # h # _) =
     Some \<lparr>dep_device_id = a, event = b, speed = c, usb_class = d, sub_class = e, protocol = f,
           reply_port = le16_of g h\<rparr>"
| "dec_DeviceEvent _ = None"

definition enc_FragHeader :: "FragHeader \<Rightarrow> byte list" where
  [wire_defs]: "enc_FragHeader p = le16_bytes (transfer_seq p) @ [frag_idx p, frag_total p]"

fun dec_FragHeader :: "byte list \<Rightarrow> FragHeader option" where
  "dec_FragHeader (a # b # c # d # _) =
     Some \<lparr>transfer_seq = le16_of a b, frag_idx = c, frag_total = d\<rparr>"
| "dec_FragHeader _ = None"

definition enc_LogPayload :: "LogPayload \<Rightarrow> byte list" where
  [wire_defs]: "enc_LogPayload p = [log_level p]"

fun dec_LogPayload :: "byte list \<Rightarrow> LogPayload option" where
  "dec_LogPayload (a # _) = Some \<lparr>log_level = a\<rparr>"
| "dec_LogPayload _ = None"

text \<open>The sizes asserted by the \<open>static_assert\<close>s.\<close>

definition sizeof_Header :: nat where [wire_size]: "sizeof_Header = 6"
definition sizeof_DiscoverReply :: nat where [wire_size]: "sizeof_DiscoverReply = 2"
definition sizeof_DeviceEvent :: nat where [wire_size]: "sizeof_DeviceEvent = 8"
definition sizeof_FragHeader :: nat where [wire_size]: "sizeof_FragHeader = 4"
definition sizeof_LogPayload :: nat where [wire_size]: "sizeof_LogPayload = 1"

section \<open>Every structure is a codec\<close>


lemma dec_Header_Some:
  "dec_Header bs = Some h \<Longrightarrow>
     \<exists>r. bs = [cmd_type h, device_id h, endpoint h, seq h] @ le16_bytes (payload_len h) @ r"
  by (induction bs rule: dec_Header.induct) auto

lemma dec_DeviceEvent_Some:
  "dec_DeviceEvent bs = Some p \<Longrightarrow> \<exists>r. bs = enc_DeviceEvent p @ r"
  by (induction bs rule: dec_DeviceEvent.induct) (auto simp: enc_DeviceEvent_def)

lemma dec_FragHeader_Some:
  "dec_FragHeader bs = Some p \<Longrightarrow> \<exists>r. bs = enc_FragHeader p @ r"
  by (induction bs rule: dec_FragHeader.induct) (auto simp: enc_FragHeader_def)

interpretation header: codec enc_Header dec_Header sizeof_Header
proof
  show "length (enc_Header a) = sizeof_Header" for a
    by (simp add: enc_Header_def sizeof_Header_def)
  show "dec_Header (enc_Header a @ r) = Some a" for a r
    by (simp add: enc_Header_def le16_bytes_def)
  show "enc_Header a = take sizeof_Header bs" if "dec_Header bs = Some a" for a bs
    using dec_Header_Some [OF that] by (auto simp: enc_Header_def sizeof_Header_def)
  show "dec_Header bs = None \<longleftrightarrow> length bs < sizeof_Header" for bs
    by (induction bs rule: dec_Header.induct) (auto simp: sizeof_Header_def)
qed

interpretation discover_reply: codec enc_DiscoverReply dec_DiscoverReply sizeof_DiscoverReply
proof
  show "length (enc_DiscoverReply a) = sizeof_DiscoverReply" for a
    by (simp add: enc_DiscoverReply_def sizeof_DiscoverReply_def)
  show "dec_DiscoverReply (enc_DiscoverReply a @ r) = Some a" for a r
    by (simp add: enc_DiscoverReply_def le16_bytes_def)
  show "enc_DiscoverReply a = take sizeof_DiscoverReply bs" if "dec_DiscoverReply bs = Some a" for a bs
    using that by (induction bs rule: dec_DiscoverReply.induct)
      (auto simp: enc_DiscoverReply_def sizeof_DiscoverReply_def)
  show "dec_DiscoverReply bs = None \<longleftrightarrow> length bs < sizeof_DiscoverReply" for bs
    by (induction bs rule: dec_DiscoverReply.induct) (auto simp: sizeof_DiscoverReply_def)
qed

interpretation device_event: codec enc_DeviceEvent dec_DeviceEvent sizeof_DeviceEvent
proof
  show "length (enc_DeviceEvent a) = sizeof_DeviceEvent" for a
    by (simp add: enc_DeviceEvent_def sizeof_DeviceEvent_def)
  show "dec_DeviceEvent (enc_DeviceEvent a @ r) = Some a" for a r
    by (simp add: enc_DeviceEvent_def le16_bytes_def)
  show "enc_DeviceEvent a = take sizeof_DeviceEvent bs" if "dec_DeviceEvent bs = Some a" for a bs
    using dec_DeviceEvent_Some [OF that] by (auto simp: enc_DeviceEvent_def sizeof_DeviceEvent_def)
  show "dec_DeviceEvent bs = None \<longleftrightarrow> length bs < sizeof_DeviceEvent" for bs
    by (induction bs rule: dec_DeviceEvent.induct) (auto simp: sizeof_DeviceEvent_def)
qed

interpretation frag_header: codec enc_FragHeader dec_FragHeader sizeof_FragHeader
proof
  show "length (enc_FragHeader a) = sizeof_FragHeader" for a
    by (simp add: enc_FragHeader_def sizeof_FragHeader_def)
  show "dec_FragHeader (enc_FragHeader a @ r) = Some a" for a r
    by (simp add: enc_FragHeader_def le16_bytes_def)
  show "enc_FragHeader a = take sizeof_FragHeader bs" if "dec_FragHeader bs = Some a" for a bs
    using dec_FragHeader_Some [OF that] by (auto simp: enc_FragHeader_def sizeof_FragHeader_def)
  show "dec_FragHeader bs = None \<longleftrightarrow> length bs < sizeof_FragHeader" for bs
    by (induction bs rule: dec_FragHeader.induct) (auto simp: sizeof_FragHeader_def)
qed

interpretation log_payload: codec enc_LogPayload dec_LogPayload sizeof_LogPayload
proof
  show "length (enc_LogPayload a) = sizeof_LogPayload" for a
    by (simp add: enc_LogPayload_def sizeof_LogPayload_def)
  show "dec_LogPayload (enc_LogPayload a @ r) = Some a" for a r
    by (simp add: enc_LogPayload_def)
  show "enc_LogPayload a = take sizeof_LogPayload bs" if "dec_LogPayload bs = Some a" for a bs
    using that by (cases bs) (auto simp: enc_LogPayload_def sizeof_LogPayload_def)
  show "dec_LogPayload bs = None \<longleftrightarrow> length bs < sizeof_LogPayload" for bs
    by (cases bs) (auto simp: sizeof_LogPayload_def)
qed

text \<open>The packets with a fixed payload: header and payload structure in one buffer.\<close>

interpretation reply_pkt: codec_pair enc_Header dec_Header sizeof_Header
  enc_DiscoverReply dec_DiscoverReply sizeof_DiscoverReply ..

interpretation event_pkt: codec_pair enc_Header dec_Header sizeof_Header
  enc_DeviceEvent dec_DeviceEvent sizeof_DeviceEvent ..

interpretation frag_pkt: codec_pair enc_Header dec_Header sizeof_Header
  enc_FragHeader dec_FragHeader sizeof_FragHeader ..

interpretation log_pkt: codec_pair enc_Header dec_Header sizeof_Header
  enc_LogPayload dec_LogPayload sizeof_LogPayload ..

lemmas enc_lengths [simp] =
  header.enc_length [unfolded sizeof_Header_def]
  discover_reply.enc_length [unfolded sizeof_DiscoverReply_def]
  device_event.enc_length [unfolded sizeof_DeviceEvent_def]
  frag_header.enc_length [unfolded sizeof_FragHeader_def]
  log_payload.enc_length [unfolded sizeof_LogPayload_def]

lemmas dec_encs [simp] =
  header.dec_enc discover_reply.dec_enc device_event.dec_enc frag_header.dec_enc log_payload.dec_enc
  header.dec_exact discover_reply.dec_exact device_event.dec_exact frag_header.dec_exact
  log_payload.dec_exact

end
