(* ===== verification/Tcp_Socket.thy ===== *)
theory Tcp_Socket
  imports Protocol
begin

text \<open>
  The daemon's exact-length reads and writes on a TCP socket (\<open>daemon/src/network/TcpSocket.cpp\<close>).
  What the system calls answer is a list, consumed from the front; \<open>None\<close> is a call that has not
  returned when the answers are used up. The contract that \<open>send\<close> and \<open>recv\<close> transfer between one
  byte and the length asked for is a predicate on the answers.
\<close>

datatype send_ans = SSent nat | SEintr | SEagain | SError
datatype recv_ans = RData "byte list" | REintr | REagain | RError

text \<open>
  The writing loop: the returned flag, how many bytes of \<open>data\<close> were written, and the answers left.
  \<open>RData []\<close> and \<open>SSent 0\<close> are the return value 0.
\<close>

fun sendExactly_from :: "byte list \<Rightarrow> nat \<Rightarrow> send_ans list \<Rightarrow> (bool \<times> nat \<times> send_ans list) option" where
  "sendExactly_from data written answers =
     (if written < length data then
        (case answers of
           [] \<Rightarrow> None
         | SEintr # rest \<Rightarrow> sendExactly_from data written rest
         | SEagain # rest \<Rightarrow> sendExactly_from data written rest
         | SError # rest \<Rightarrow> Some (False, written, rest)
         | SSent n # rest \<Rightarrow>
             if n = 0 then Some (False, written, rest) else sendExactly_from data (written + n) rest)
      else Some (True, written, answers))"

declare sendExactly_from.simps [simp del]

definition sendExactly :: "byte list \<Rightarrow> send_ans list \<Rightarrow> (bool \<times> nat \<times> send_ans list) option" where
  "sendExactly data answers = sendExactly_from data 0 answers"

text \<open>The reading loop: the returned \<open>ssize_t\<close>, the bytes stored so far, and the answers left.\<close>

fun recvExactly_from :: "nat \<Rightarrow> byte list \<Rightarrow> recv_ans list \<Rightarrow> (int \<times> byte list \<times> recv_ans list) option" where
  "recvExactly_from len got answers =
     (if length got < len then
        (case answers of
           [] \<Rightarrow> None
         | REintr # rest \<Rightarrow> recvExactly_from len got rest
         | REagain # rest \<Rightarrow> if got = [] then Some (-1, got, rest) else recvExactly_from len got rest
         | RError # rest \<Rightarrow> Some (-1, got, rest)
         | RData bs # rest \<Rightarrow> if bs = [] then Some (0, got, rest) else recvExactly_from len (got @ bs) rest)
      else Some (int (length got), got, answers))"

declare recvExactly_from.simps [simp del]

definition recvExactly :: "nat \<Rightarrow> recv_ans list \<Rightarrow> (int \<times> byte list \<times> recv_ans list) option" where
  "recvExactly len answers = recvExactly_from len [] answers"

section \<open>Writing\<close>

text \<open>Every answer transfers at most what is left.\<close>

fun sends_within :: "nat \<Rightarrow> send_ans list \<Rightarrow> bool" where
  "sends_within need [] = True"
| "sends_within need (SSent n # rest) = (n \<le> need \<and> sends_within (need - n) rest)"
| "sends_within need (_ # rest) = sends_within need rest"

fun sent_total :: "send_ans list \<Rightarrow> nat" where
  "sent_total [] = 0"
| "sent_total (SSent n # rest) = n + sent_total rest"
| "sent_total (_ # rest) = sent_total rest"

text \<open>An answer that lets the loop go on.\<close>

definition send_goes_on :: "send_ans \<Rightarrow> bool" where
  "send_goes_on a \<longleftrightarrow> a \<noteq> SError \<and> a \<noteq> SSent 0"

lemma send_steps:
  "length data \<le> written \<Longrightarrow> sendExactly_from data written as = Some (True, written, as)"
  "written < length data \<Longrightarrow> sendExactly_from data written [] = None"
  "written < length data \<Longrightarrow> sendExactly_from data written (SEintr # as) = sendExactly_from data written as"
  "written < length data \<Longrightarrow> sendExactly_from data written (SEagain # as) = sendExactly_from data written as"
  "written < length data \<Longrightarrow> sendExactly_from data written (SError # as) = Some (False, written, as)"
  "written < length data \<Longrightarrow> sendExactly_from data written (SSent n # as) =
     (if n = 0 then Some (False, written, as) else sendExactly_from data (written + n) as)"
  by (simp_all add: sendExactly_from.simps [of data written])

lemma sendExactly_from_complete:
  assumes "list_all send_goes_on answers" and "sends_within (length data - written) answers"
    and "written \<le> length data" and "length data \<le> written + sent_total answers"
  shows "\<exists>rest. sendExactly_from data written answers = Some (True, length data, rest)"
  using assms
proof (induction answers arbitrary: written)
  case Nil
  then show ?case by (simp add: send_steps)
next
  case (Cons a answers)
  show ?case
  proof (cases "written < length data")
    case False
    with Cons.prems(3) show ?thesis by (simp add: send_steps)
  next
    case True
    with Cons show ?thesis
      by (cases a) (auto simp: send_goes_on_def send_steps)
  qed
qed

lemma sendExactly_from_written:
  assumes "sendExactly_from data written answers = Some (ok, w, rest)"
    and "sends_within (length data - written) answers" and "written \<le> length data"
  shows "written \<le> w \<and> w \<le> length data \<and> (ok \<longleftrightarrow> w = length data)"
  using assms
proof (induction answers arbitrary: written)
  case Nil
  then show ?case by (cases "written < length data") (auto simp: send_steps)
next
  case (Cons a answers)
  show ?case
  proof (cases "written < length data")
    case False
    with Cons.prems show ?thesis by (auto simp: send_steps)
  next
    case True
    show ?thesis
    proof (cases a)
      case (SSent n)
      then have "written + n \<le> length data" using True Cons.prems(2) by auto
      with SSent True Cons.prems Cons.IH [of "written + n"] show ?thesis
        by (auto simp: send_steps split: if_splits)
    qed (use True Cons.prems Cons.IH [of written] in \<open>auto simp: send_steps\<close>)
  qed
qed

text \<open>
  A write of exactly \<open>len\<close> bytes: it returns true exactly when all of them were written, and it
  does return true once the system has accepted \<open>len\<close> bytes, in any pieces and with any number of
  interrupted or would-block answers in between.
\<close>

lemma sendExactly_correct:
  assumes "sends_within (length data) answers"
  shows "(\<forall>ok w rest. sendExactly data answers = Some (ok, w, rest) \<longrightarrow> w \<le> length data \<and> (ok \<longleftrightarrow> w = length data)) \<and>
     (list_all send_goes_on answers \<and> length data \<le> sent_total answers \<longrightarrow>
        (\<exists>rest. sendExactly data answers = Some (True, length data, rest)))"
  using assms sendExactly_from_complete [of answers data 0] sendExactly_from_written [of data 0 answers]
  by (fastforce simp: sendExactly_def)

section \<open>Reading\<close>

fun data_of :: "recv_ans list \<Rightarrow> byte list" where
  "data_of [] = []"
| "data_of (RData bs # rest) = bs @ data_of rest"
| "data_of (_ # rest) = data_of rest"

text \<open>The answers of a stream that delivers data, possibly interrupted.\<close>

definition recv_flows :: "recv_ans \<Rightarrow> bool" where
  "recv_flows a \<longleftrightarrow> a = REintr \<or> (\<exists>bs. a = RData bs \<and> bs \<noteq> [])"

lemma data_of_append [simp]: "data_of (xs @ ys) = data_of xs @ data_of ys"
  by (induction xs rule: data_of.induct) simp_all

lemma recv_steps:
  "len \<le> length got \<Longrightarrow> recvExactly_from len got as = Some (int (length got), got, as)"
  "length got < len \<Longrightarrow> recvExactly_from len got [] = None"
  "length got < len \<Longrightarrow> recvExactly_from len got (REintr # as) = recvExactly_from len got as"
  "length got < len \<Longrightarrow> recvExactly_from len got (REagain # as) =
     (if got = [] then Some (-1, got, as) else recvExactly_from len got as)"
  "length got < len \<Longrightarrow> recvExactly_from len got (RError # as) = Some (-1, got, as)"
  "length got < len \<Longrightarrow> recvExactly_from len got (RData bs # as) =
     (if bs = [] then Some (0, got, as) else recvExactly_from len (got @ bs) as)"
  by (simp_all add: recvExactly_from.simps [of len got])

lemma flows_no_data: "list_all recv_flows xs \<Longrightarrow> data_of xs = [] \<Longrightarrow> list_all (\<lambda>a. a = REintr) xs"
  by (induction xs rule: data_of.induct) (auto simp: recv_flows_def)

text \<open>Reading over answers that hold exactly the bytes asked for; what follows them is left.\<close>

lemma recvExactly_from_flows:
  assumes "list_all recv_flows answers" and "length got + length (data_of answers) = len"
  shows "\<exists>skip. list_all (\<lambda>a. a = REintr) skip \<and>
     recvExactly_from len got (answers @ rest) = Some (int len, got @ data_of answers, skip @ rest)"
  using assms
proof (induction answers arbitrary: got)
  case Nil
  then show ?case by (simp add: recv_steps)
next
  case (Cons a answers)
  show ?case
  proof (cases "length got < len")
    case False
    with Cons.prems have none: "data_of (a # answers) = []" "length got = len" by auto
    with flows_no_data [OF Cons.prems(1)] show ?thesis
      by (intro exI [of _ "a # answers"]) (simp add: recv_steps del: data_of.simps)
  next
    case True
    with Cons.prems Cons.IH [of got] Cons.IH [of "got @ data_of [a]"] show ?thesis
      by (cases a) (auto simp: recv_steps recv_flows_def)
  qed
qed

text \<open>Every answer fits what is left of the buffer.\<close>

fun recvs_within :: "nat \<Rightarrow> recv_ans list \<Rightarrow> bool" where
  "recvs_within need [] = True"
| "recvs_within need (RData bs # rest) =
     (length bs \<le> need \<and> (length bs < need \<longrightarrow> recvs_within (need - length bs) rest))"
| "recvs_within need (_ # rest) = recvs_within need rest"

text \<open>An answer ends the loop without data, or the loop goes on with the data it brought.\<close>

lemma recvExactly_from_step:
  assumes "length got < len" and "recvExactly_from len got (a # answers) = Some (r, bs, rest)"
  shows "r \<le> 0 \<and> bs = got \<and> rest = answers \<and> data_of [a] = [] \<or>
     recvExactly_from len (got @ data_of [a]) answers = Some (r, bs, rest)"
  using assms by (cases a) (auto simp: recv_steps split: if_splits)

lemma recvs_within_step:
  "recvs_within need (a # answers) \<Longrightarrow> 0 < need \<Longrightarrow> length (data_of [a]) \<le> need \<and>
     (length (data_of [a]) < need \<longrightarrow> recvs_within (need - length (data_of [a])) answers)"
  by (cases a) simp_all

lemma recvExactly_from_result:
  assumes "recvExactly_from len got answers = Some (r, bs, rest)"
    and "length got < len \<Longrightarrow> recvs_within (len - length got) answers" and "length got \<le> len"
  shows "length bs \<le> len \<and> (r = int len \<and> length bs = len \<or> r \<le> 0 \<and> length bs < len) \<and>
     (\<exists>used. answers = used @ rest \<and> bs = got @ data_of used)"
  using assms
proof (induction answers arbitrary: got)
  case Nil
  then show ?case by (cases "length got < len") (auto simp: recv_steps)
next
  case (Cons a answers)
  show ?case
  proof (cases "length got < len")
    case False
    with Cons.prems show ?thesis by (auto simp: recv_steps intro!: exI [of _ "[]"])
  next
    case True
    from recvExactly_from_step [OF True Cons.prems(1)] show ?thesis
    proof
      assume "r \<le> 0 \<and> bs = got \<and> rest = answers \<and> data_of [a] = []"
      with True show ?thesis by (auto intro!: exI [of _ "[a]"])
    next
      assume run: "recvExactly_from len (got @ data_of [a]) answers = Some (r, bs, rest)"
      have "length (got @ data_of [a]) \<le> len"
        "length (got @ data_of [a]) < len \<Longrightarrow> recvs_within (len - length (got @ data_of [a])) answers"
        using recvs_within_step [OF Cons.prems(2) [OF True]] True by auto
      from Cons.IH [OF run this(2,1)] show ?thesis
        using data_of_append [of "[a]"] by (metis append_Cons append_Nil append_assoc)
    qed
  qed
qed

text \<open>
  C27. A read of exactly \<open>len\<close> bytes never stores more than \<open>len\<close>, stores the stream's bytes in order,
  and returns \<open>len\<close> exactly when all of them were stored; otherwise the result is zero or negative.
  It does return \<open>len\<close> once the stream has delivered that many bytes, in any pieces and however often
  the call is interrupted.
\<close>

theorem recvExactly_correct:
  assumes "0 < len" and "recvs_within len answers"
  shows "(\<forall>r bs rest. recvExactly len answers = Some (r, bs, rest) \<longrightarrow>
        length bs \<le> len \<and> (r = int len \<longleftrightarrow> length bs = len) \<and> (r \<noteq> int len \<longrightarrow> r \<le> 0) \<and>
        (\<exists>used. answers = used @ rest \<and> bs = data_of used)) \<and>
     (list_all recv_flows answers \<and> length (data_of answers) = len \<longrightarrow>
        (\<exists>rest. recvExactly len answers = Some (int len, data_of answers, rest)))"
proof -
  have "length bs \<le> len \<and> (r = int len \<and> length bs = len \<or> r \<le> 0 \<and> length bs < len) \<and>
     (\<exists>used. answers = used @ rest \<and> bs = data_of used)"
    if "recvExactly len answers = Some (r, bs, rest)" for r bs rest
    using recvExactly_from_result [of len "[]" answers r bs rest] assms(2) that by (simp add: recvExactly_def)
  moreover have "\<exists>rest. recvExactly len answers = Some (int len, data_of answers, rest)"
    if "list_all recv_flows answers" "length (data_of answers) = len"
    using recvExactly_from_flows [of answers "[]" len "[]"] that by (auto simp: recvExactly_def)
  ultimately show ?thesis using assms(1) by force
qed

theorem recvExactly_correct_witness:
  "\<exists>rest. recvExactly 3 [REintr, RData [1], RData [2, 3]] = Some (3, [1, 2, 3], rest)"
  using recvExactly_correct [of 3 "[REintr, RData [1], RData [2, 3]]"]
  by (simp add: recv_flows_def eval_nat_numeral)

end
