(* ===== verification/Passthrough_Handler.thy ===== *)
theory Passthrough_Handler
  imports Tcp_Socket
begin

text \<open>
  The daemon's data path between the kernel and a device
  (\<open>daemon/src/handlers/PassthroughHandler.cpp\<close>). The answers of \<open>read\<close>, \<open>write\<close> and \<open>send\<close> are
  arguments, as in \<open>Tcp_Socket\<close>; the bytes put on the TCP connection are a result.
\<close>

definition READ_BUF :: nat where [const_defs]: "READ_BUF = 65536"

record handler =
  ph_vhci_fd :: int
  ph_sock :: int
  ph_device_id :: u8
  ph_seq :: u8

definition raw_data_header :: "handler \<Rightarrow> nat \<Rightarrow> Header" where
  "raw_data_header h n = \<lparr>cmd_type = CMD_RAW_DATA, device_id = ph_device_id h, endpoint = 0, seq = ph_seq h,
     payload_len = of_nat n\<rparr>"

definition sendRawDataPacket ::
  "handler \<Rightarrow> byte list \<Rightarrow> send_ans list \<Rightarrow> (handler \<times> byte list \<times> send_ans list) option" where
  "sendRawDataPacket h data sends =
     (let actual_len = (if length data > 65535 then 65535 else length data);
          hdr = enc_Header (raw_data_header h actual_len);
          h' = h\<lparr>ph_seq := ph_seq h + 1\<rparr>
      in do {
        (ok, w, sends1) \<leftarrow> sendExactly hdr sends;
        if \<not> ok then Some (h', take w hdr, sends1)
        else do {
          (_, w2, sends2) \<leftarrow> sendExactly (take actual_len data) sends1;
          Some (h', hdr @ take w2 (take actual_len data), sends2) } })"

text \<open>\<open>write\<close> answers as \<open>send\<close> does; only \<open>EINTR\<close> is retried, and 0 is not an error.\<close>

fun writeToKernel_from :: "byte list \<Rightarrow> nat \<Rightarrow> send_ans list \<Rightarrow> (bool \<times> nat) option" where
  "writeToKernel_from data written answers =
     (if written < length data then
        (case answers of
           [] \<Rightarrow> None
         | SEintr # rest \<Rightarrow> writeToKernel_from data written rest
         | SSent n # rest \<Rightarrow> writeToKernel_from data (written + n) rest
         | _ # rest \<Rightarrow> Some (False, written))
      else Some (True, written))"

declare writeToKernel_from.simps [simp del]

definition writeToKernel :: "byte list \<Rightarrow> send_ans list \<Rightarrow> (bool \<times> nat) option" where
  "writeToKernel data answers = writeToKernel_from data 0 answers"

text \<open>The draining loop over the answers of \<open>read(vhci_fd, buf, READ_BUF)\<close>; \<open>None\<close> is a blocked call.\<close>

fun onVhciReadable :: "handler \<Rightarrow> recv_ans list \<Rightarrow> send_ans list \<Rightarrow> (bool \<times> handler \<times> byte list) option" where
  "onVhciReadable h [] sends = None"
| "onVhciReadable h (REagain # reads) sends = Some (True, h, [])"
| "onVhciReadable h (REintr # reads) sends = Some (False, h, [])"
| "onVhciReadable h (RError # reads) sends = Some (False, h, [])"
| "onVhciReadable h (RData bs # reads) sends =
     (if bs = [] then Some (False, h, [])
      else do {
        (h1, wire, sends1) \<leftarrow> sendRawDataPacket h bs sends;
        (ok, h2, wires) \<leftarrow> onVhciReadable h1 reads sends1;
        Some (ok, h2, wire @ wires) })"

definition onDeviceData :: "byte list \<Rightarrow> send_ans list \<Rightarrow> (bool \<times> nat) option" where
  "onDeviceData payload answers = writeToKernel payload answers"

section \<open>Kernel to device\<close>

text \<open>The frames for a sequence of reads, numbered consecutively from the handler's number.\<close>

fun raw_frames :: "handler \<Rightarrow> byte list list \<Rightarrow> byte list" where
  "raw_frames h [] = []"
| "raw_frames h (bs # bss) =
     enc_Header (raw_data_header h (length bs)) @ bs @ raw_frames (h\<lparr>ph_seq := ph_seq h + 1\<rparr>) bss"

text \<open>The connection takes every write whole.\<close>

definition whole_sends :: "byte list list \<Rightarrow> send_ans list" where
  "whole_sends bss = concat (map (\<lambda>bs. [SSent 6, SSent (length bs)]) bss)"

lemma sendExactly_whole: "data \<noteq> [] \<Longrightarrow> sendExactly data (SSent (length data) # rest) = Some (True, length data, rest)"
  by (simp add: sendExactly_def send_steps)

lemma sendExactly_header: "sendExactly (enc_Header x) (SSent 6 # as) = Some (True, 6, as)"
  by (simp add: sendExactly_def send_steps wire_size)

lemma sendRawDataPacket_whole:
  assumes "bs \<noteq> []" and "length bs \<le> 65535"
  shows "sendRawDataPacket h bs (SSent 6 # SSent (length bs) # rest) =
     Some (h\<lparr>ph_seq := ph_seq h + 1\<rparr>, enc_Header (raw_data_header h (length bs)) @ bs, rest)"
  using assms sendExactly_whole [of bs rest] by (simp add: sendRawDataPacket_def sendExactly_header)

lemma onVhciReadable_whole:
  assumes "\<And>bs. bs \<in> set bss \<Longrightarrow> bs \<noteq> [] \<and> length bs \<le> 65535"
  shows "onVhciReadable h (map RData bss @ REagain # reads) (whole_sends bss @ rest) =
     Some (True, h\<lparr>ph_seq := ph_seq h + of_nat (length bss)\<rparr>, raw_frames h bss)"
  using assms
proof (induction bss arbitrary: h)
  case Nil
  then show ?case by simp
next
  case (Cons bs bss)
  then show ?case
    by (simp add: whole_sends_def sendRawDataPacket_whole add_ac)
qed



text \<open>
  A full read of 65536 bytes loses its last byte: the frame announces and carries 65535 bytes.
\<close>

lemma full_read_loses_a_byte:
  assumes "length bs = READ_BUF"
  shows "sendRawDataPacket h bs (SSent 6 # SSent 65535 # rest) =
     Some (h\<lparr>ph_seq := ph_seq h + 1\<rparr>, enc_Header (raw_data_header h 65535) @ butlast bs, rest)"
proof -
  have b: "butlast bs = take 65535 bs" "length (take 65535 bs) = 65535" "take 65535 bs \<noteq> []"
    using assms by (auto simp: butlast_conv_take READ_BUF_def)
  then show ?thesis
    using assms b sendExactly_whole [OF b(3), of rest] by (simp add: sendRawDataPacket_def sendExactly_header READ_BUF_def)
qed

text \<open>
  C39. On a connection to the kernel that blocks, as the daemon's socket pair does, the draining loop
  never finishes normally: if no read answers \<open>EAGAIN\<close>, it returns false or does not return.
\<close>

theorem drain_needs_nonblocking:
  assumes "REagain \<notin> set reads"
  shows "onVhciReadable h reads sends \<noteq> Some (True, h', wire)"
  using assms
proof (induction h reads sends arbitrary: h' wire rule: onVhciReadable.induct)
  case (5 h bs reads sends)
  then show ?case by (cases "bs = []") (force simp: bind_eq_Some_conv)+
qed simp_all

theorem drain_needs_nonblocking_witness:
  "onVhciReadable \<lparr>ph_vhci_fd = 4, ph_sock = 5, ph_device_id = 2, ph_seq = 9\<rparr> [RData [7, 8], RData []] [SSent 6, SSent 2]
     \<noteq> Some (True, \<lparr>ph_vhci_fd = 4, ph_sock = 5, ph_device_id = 2, ph_seq = 10\<rparr>, [])"
  using drain_needs_nonblocking [of "[RData [7, 8], RData []]"] by simp

text \<open>Only the sequence number of a handler ever changes.\<close>

lemma sendRawDataPacket_frame:
  "sendRawDataPacket h bs sends = Some (h', wire, rest) \<Longrightarrow> h' = h\<lparr>ph_seq := ph_seq h + 1\<rparr>"
  by (auto simp: sendRawDataPacket_def Let_def bind_eq_Some_conv split: if_splits)

lemma handler_seq_same: "\<exists>n. h = h\<lparr>ph_seq := n\<rparr>"
  by (rule exI [of _ "ph_seq h"]) simp

lemma onVhciReadable_frame:
  "onVhciReadable h reads sends = Some (ok, h', wire) \<Longrightarrow> \<exists>n. h' = h\<lparr>ph_seq := n\<rparr>"
proof (induction h reads sends arbitrary: ok h' wire rule: onVhciReadable.induct)
  case (5 h bs reads sends)
  show ?case
  proof (cases "bs = []")
    case True
    with 5 show ?thesis by (auto intro: handler_seq_same)
  next
    case False
    with "5.prems" obtain h1 w1 s1 ok2 h2 w2 where a: "sendRawDataPacket h bs sends = Some (h1, w1, s1)"
      and b: "onVhciReadable h1 reads s1 = Some (ok2, h2, w2)" and "h' = h2"
      by (auto simp: bind_eq_Some_conv)
    with "5.IH" [OF False a refl refl b] sendRawDataPacket_frame [OF a] show ?thesis by auto
  qed
qed (auto intro: handler_seq_same)

section \<open>Device to kernel\<close>

lemma write_steps:
  "length data \<le> written \<Longrightarrow> writeToKernel_from data written as = Some (True, written)"
  "written < length data \<Longrightarrow> writeToKernel_from data written [] = None"
  "written < length data \<Longrightarrow> writeToKernel_from data written (SEintr # as) = writeToKernel_from data written as"
  "written < length data \<Longrightarrow> writeToKernel_from data written (SEagain # as) = Some (False, written)"
  "written < length data \<Longrightarrow> writeToKernel_from data written (SError # as) = Some (False, written)"
  "written < length data \<Longrightarrow> writeToKernel_from data written (SSent n # as) = writeToKernel_from data (written + n) as"
  by (simp_all add: writeToKernel_from.simps [of data written])

lemma writeToKernel_from_complete:
  assumes "SEagain \<notin> set answers" and "SError \<notin> set answers" and "sends_within (length data - written) answers"
    and "written \<le> length data" and "length data \<le> written + sent_total answers"
  shows "writeToKernel_from data written answers = Some (True, length data)"
  using assms
proof (induction answers arbitrary: written)
  case Nil
  then show ?case by (simp add: write_steps)
next
  case (Cons a answers)
  show ?case
  proof (cases "written < length data")
    case False
    with Cons.prems(4) show ?thesis by (simp add: write_steps)
  next
    case True
    with Cons show ?thesis by (cases a) (auto simp: write_steps)
  qed
qed

text \<open>
  A device's payload is written to the kernel completely, once the kernel has accepted that many
  bytes in any pieces and with any number of interruptions; a would-block answer or an error makes
  the handler give up instead.
\<close>

lemma device_data_written:
  assumes "sends_within (length payload) answers" and "length payload \<le> sent_total answers"
  shows "(SEagain \<notin> set answers \<and> SError \<notin> set answers \<longrightarrow> onDeviceData payload answers = Some (True, length payload)) \<and>
     (payload \<noteq> [] \<longrightarrow> onDeviceData payload (SEagain # answers) = Some (False, 0) \<and>
        onDeviceData payload (SError # answers) = Some (False, 0))"
  using assms writeToKernel_from_complete [of answers payload 0]
  by (simp add: onDeviceData_def writeToKernel_def write_steps)

end
