(* ===== verification/Hub_Server.thy ===== *)
theory Hub_Server
  imports Passthrough_Handler
begin

text \<open>
  The daemon's session server (\<open>daemon/src/network/HubServer.cpp\<close>): discovery replies, accepted
  connections, reading packets from a connection, dispatching them, and the session maps. Sessions
  live in an explicit store of addresses, because the two descriptor maps hold plain pointers to
  sessions that the session map owns; following a pointer to a freed session is \<open>None\<close>.
\<close>

section \<open>State\<close>

text \<open>A \<open>TcpSocket\<close> is its descriptor; of \<open>dev_addr\<close> only the port field is ever used.\<close>

record DeviceSession =
  dv_device_id :: u8
  dv_vhci_port :: int
  dv_vhci_fd :: int
  dv_kernel_fd :: int
  dv_dev_addr :: u16
  dv_tcp_sock :: "int option"
  dv_handler :: "handler option"

record hub =
  sessions :: "u8 \<Rightarrow> nat option"
  vhci_fd_map :: "int \<Rightarrow> nat option"
  tcp_fd_map :: "int \<Rightarrow> nat option"
  pending :: "int set"
  heap :: "nat \<Rightarrow> DeviceSession option"
  next_addr :: nat
  open_fds :: "int set"

definition hub_initial :: hub where
  "hub_initial = \<lparr>sessions = Map.empty, vhci_fd_map = Map.empty, tcp_fd_map = Map.empty, pending = {},
     heap = Map.empty, next_addr = 0, open_fds = {}\<rparr>"

section \<open>Discovery\<close>

text \<open>\<open>dgram\<close> is what \<open>recvFrom\<close> delivered; the result is the reply sent to the sender, if any.\<close>

definition discover_reply_packet :: "byte list" where
  "discover_reply_packet =
     enc_Header \<lparr>cmd_type = CMD_DISCOVER_REPLY, device_id = 0, endpoint = 0, seq = 0,
                 payload_len = of_nat sizeof_DiscoverReply\<rparr>
     @ enc_DiscoverReply \<lparr>daemon_port = DAEMON_PORT\<rparr>"

definition onUdpReadable :: "byte list option \<Rightarrow> byte list option" where
  "onUdpReadable dgram =
     (case dgram of
        None \<Rightarrow> None
      | Some bs \<Rightarrow>
          (case dec_Header (take MAX_PACKET bs) of
             None \<Rightarrow> None
           | Some hdr \<Rightarrow> if cmd_type hdr = CMD_DISCOVER then Some discover_reply_packet else None))"

section \<open>Sessions\<close>

definition onTcpAccept :: "int \<Rightarrow> 'a hub_scheme \<Rightarrow> 'a hub_scheme" where
  "onTcpAccept client_fd h =
     (if client_fd < 0 then h
      else h\<lparr>pending := insert client_fd (pending h), open_fds := insert client_fd (open_fds h)\<rparr>)"

definition extractPendingSocket :: "int \<Rightarrow> 'a hub_scheme \<Rightarrow> 'a hub_scheme \<times> int option" where
  "extractPendingSocket fd h =
     (if fd \<in> pending h then (h\<lparr>pending := pending h - {fd}\<rparr>, Some fd) else (h, None))"

definition findByDeviceId :: "u8 \<Rightarrow> 'a hub_scheme \<Rightarrow> nat option" where
  "findByDeviceId dev h = sessions h dev"

definition findByVhciFd :: "int \<Rightarrow> 'a hub_scheme \<Rightarrow> nat option" where
  "findByVhciFd fd h = vhci_fd_map h fd"

definition findByTcpFd :: "int \<Rightarrow> 'a hub_scheme \<Rightarrow> nat option" where
  "findByTcpFd fd h = tcp_fd_map h fd"

text \<open>
  The destructor of a session: its two kernel-side descriptors and the socket it still owns are
  closed.
\<close>

definition session_fds :: "DeviceSession \<Rightarrow> int set" where
  "session_fds s = {fd \<in> {dv_vhci_fd s, dv_kernel_fd s}. 0 \<le> fd} \<union> set_option (dv_tcp_sock s)"

definition destroy :: "nat \<Rightarrow> 'a hub_scheme \<Rightarrow> 'a hub_scheme" where
  "destroy a h =
     (case heap h a of
        None \<Rightarrow> h
      | Some s \<Rightarrow> h\<lparr>heap := (heap h)(a := None), open_fds := open_fds h - session_fds s\<rparr>)"

definition addSession ::
  "u8 \<Rightarrow> int \<Rightarrow> int \<Rightarrow> int \<Rightarrow> u16 \<Rightarrow> int option \<Rightarrow> 'a hub_scheme \<Rightarrow> 'a hub_scheme" where
  "addSession dev port vfd kfd addr sock h =
     (let a = next_addr h;
          s = \<lparr>dv_device_id = dev, dv_vhci_port = port, dv_vhci_fd = vfd, dv_kernel_fd = kfd, dv_dev_addr = addr,
               dv_tcp_sock = sock,
               dv_handler = map_option (\<lambda>fd. \<lparr>ph_vhci_fd = vfd, ph_sock = fd, ph_device_id = dev, ph_seq = 0\<rparr>) sock\<rparr>;
          h1 = h\<lparr>heap := (heap h)(a \<mapsto> s), next_addr := Suc a,
                 tcp_fd_map := (case sock of None \<Rightarrow> tcp_fd_map h | Some fd \<Rightarrow> (tcp_fd_map h)(fd \<mapsto> a)),
                 vhci_fd_map := (vhci_fd_map h)(vfd \<mapsto> a)\<rparr>;
          h2 = (case sessions h1 dev of None \<Rightarrow> h1 | Some old \<Rightarrow> destroy old h1)
      in h2\<lparr>sessions := (sessions h2)(dev \<mapsto> a)\<rparr>)"

definition removeSession :: "u8 \<Rightarrow> 'a hub_scheme \<Rightarrow> 'a hub_scheme option" where
  "removeSession dev h =
     (case sessions h dev of
        None \<Rightarrow> Some h
      | Some a \<Rightarrow> do {
          s \<leftarrow> heap h a;
          let h1 = h\<lparr>vhci_fd_map := (vhci_fd_map h)(dv_vhci_fd s := None),
                     tcp_fd_map := (case dv_tcp_sock s of None \<Rightarrow> tcp_fd_map h | Some fd \<Rightarrow> (tcp_fd_map h)(fd := None))\<rparr>;
          let h2 = destroy a h1;
          Some (h2\<lparr>sessions := (sessions h2)(dev := None)\<rparr>) })"

section \<open>Packets on a connection\<close>

datatype tcp_read = TR_Blocked | TR_Fail | TR_Packet Header "byte list"

definition read_packet :: "recv_ans list \<Rightarrow> tcp_read" where
  "read_packet answers =
     (case recvExactly sizeof_Header answers of
        None \<Rightarrow> TR_Blocked
      | Some (res, bs, rest) \<Rightarrow>
          if res \<le> 0 then TR_Fail
          else (case dec_Header bs of
                  None \<Rightarrow> TR_Fail
                | Some hdr \<Rightarrow>
                    let plen = unat (payload_len hdr)
                    in if plen > 0 then
                         (case recvExactly plen rest of
                            None \<Rightarrow> TR_Blocked
                          | Some (res2, payload, _) \<Rightarrow> if res2 \<le> 0 then TR_Fail else TR_Packet hdr payload)
                       else TR_Packet hdr []))"

text \<open>A descriptor that is neither pending nor a session's has no socket to read from.\<close>

definition readTcpPacket :: "int \<Rightarrow> recv_ans list \<Rightarrow> 'a hub_scheme \<Rightarrow> tcp_read option" where
  "readTcpPacket fd answers h =
     (if fd \<in> pending h then Some (read_packet answers)
      else case tcp_fd_map h fd of
        None \<Rightarrow> Some TR_Fail
      | Some a \<Rightarrow> do {
          s \<leftarrow> heap h a;
          Some (case dv_tcp_sock s of None \<Rightarrow> TR_Fail | Some _ \<Rightarrow> read_packet answers) })"

text \<open>What a packet makes the server do besides changing the maps.\<close>

datatype log_fn = LogErr | LogWarn | LogInfo | LogDbg

datatype hub_out = Out_Nothing | Out_Blocked | Out_Kernel int "byte list" bool | Out_Log log_fn string

definition esp_log_fn :: "u8 \<Rightarrow> log_fn" where
  "esp_log_fn l =
     (if l = LOG_LEVEL_ERROR then LogErr
      else if l = LOG_LEVEL_WARN then LogWarn
      else if l = LOG_LEVEL_DEBUG \<or> l = LOG_LEVEL_VERBOSE then LogDbg else LogInfo)"

text \<open>The loop that drops the trailing line breaks.\<close>

fun trimmed_len :: "byte list \<Rightarrow> nat \<Rightarrow> nat" where
  "trimmed_len msg 0 = 0"
| "trimmed_len msg (Suc n) = (if msg ! n = 10 \<or> msg ! n = 13 then trimmed_len msg n else Suc n)"

text \<open>\<open>%.*s\<close> prints at most \<open>msg_len\<close> characters and stops at a NUL.\<close>

definition log_output :: "byte list \<Rightarrow> hub_out" where
  "log_output payload =
     (case dec_LogPayload payload of
        None \<Rightarrow> Out_Nothing
      | Some lp \<Rightarrow>
          let msg = drop sizeof_LogPayload payload;
              msg_len = trimmed_len msg (length msg)
          in Out_Log (esp_log_fn (log_level lp)) (''[ESP TCP] '' @ cstr (map char_of_byte (take msg_len msg))))"

text \<open>
  The callbacks act on the whole daemon; \<open>writes\<close> are the kernel's answers to a write. The result is
  \<open>None\<close> when a freed session is used.
\<close>

definition on_device_event ::
  "(u8 \<Rightarrow> 'a hub_scheme \<Rightarrow> 'a hub_scheme option) \<Rightarrow> (u8 \<Rightarrow> u8 \<Rightarrow> u16 \<Rightarrow> 'a hub_scheme \<Rightarrow> 'a hub_scheme option)
     \<Rightarrow> int \<Rightarrow> DeviceEventPayload \<Rightarrow> 'a hub_scheme \<Rightarrow> 'a hub_scheme option" where
  "on_device_event on_disconnect on_connect client_fd dep h =
     (if event dep = DEVICE_EVENT_CONNECT then do {
        h1 \<leftarrow> (if findByDeviceId (dep_device_id dep) h \<noteq> None then on_disconnect (dep_device_id dep) h else Some h);
        if client_fd \<in> pending h1 then on_connect (dep_device_id dep) (speed dep) (of_int client_fd) h1
        else Some h1 }
      else if event dep = DEVICE_EVENT_DISCONNECT then on_disconnect (dep_device_id dep) h
      else Some h)"

definition onTcpPacket ::
  "(u8 \<Rightarrow> 'a hub_scheme \<Rightarrow> 'a hub_scheme option) \<Rightarrow> (u8 \<Rightarrow> u8 \<Rightarrow> u16 \<Rightarrow> 'a hub_scheme \<Rightarrow> 'a hub_scheme option)
     \<Rightarrow> int \<Rightarrow> send_ans list \<Rightarrow> Header \<Rightarrow> byte list \<Rightarrow> 'a hub_scheme \<Rightarrow> ('a hub_scheme \<times> hub_out) option" where
  "onTcpPacket on_disconnect on_connect client_fd writes hdr payload h =
     (if cmd_type hdr = CMD_DEVICE_EVENT then
        (case dec_DeviceEvent payload of
           None \<Rightarrow> Some (h, Out_Nothing)
         | Some dep \<Rightarrow> map_option (\<lambda>h'. (h', Out_Nothing)) (on_device_event on_disconnect on_connect client_fd dep h))
      else if cmd_type hdr = CMD_RAW_DATA then
        (case sessions h (device_id hdr) of
           None \<Rightarrow> Some (h, Out_Nothing)
         | Some a \<Rightarrow> do {
             s \<leftarrow> heap h a;
             ph \<leftarrow> dv_handler s;
             Some (h, case onDeviceData payload writes of
                        None \<Rightarrow> Out_Blocked
                      | Some (ok, n) \<Rightarrow> Out_Kernel (ph_vhci_fd ph) (take n payload) ok) })
      else if cmd_type hdr = CMD_LOG then Some (h, log_output payload)
      else Some (h, Out_Nothing))"

definition onTcpReadable ::
  "(u8 \<Rightarrow> 'a hub_scheme \<Rightarrow> 'a hub_scheme option) \<Rightarrow> (u8 \<Rightarrow> u8 \<Rightarrow> u16 \<Rightarrow> 'a hub_scheme \<Rightarrow> 'a hub_scheme option)
     \<Rightarrow> int \<Rightarrow> recv_ans list \<Rightarrow> send_ans list \<Rightarrow> 'a hub_scheme \<Rightarrow> ('a hub_scheme \<times> hub_out) option" where
  "onTcpReadable on_disconnect on_connect client_fd answers writes h = do {
     r \<leftarrow> readTcpPacket client_fd answers h;
     case r of
       TR_Blocked \<Rightarrow> Some (h, Out_Blocked)
     | TR_Fail \<Rightarrow>
         if client_fd \<in> pending h
         then Some (h\<lparr>pending := pending h - {client_fd}, open_fds := open_fds h - {client_fd}\<rparr>, Out_Nothing)
         else (case tcp_fd_map h client_fd of
                 None \<Rightarrow> Some (h, Out_Nothing)
               | Some a \<Rightarrow> do {
                   s \<leftarrow> heap h a;
                   map_option (\<lambda>h'. (h', Out_Nothing)) (on_disconnect (dv_device_id s) h) })
     | TR_Packet hdr payload \<Rightarrow> onTcpPacket on_disconnect on_connect client_fd writes hdr payload h }"

section \<open>Discovery: correctness\<close>

text \<open>
  The UDP port answers discovery and nothing else: a datagram is answered exactly when it has a
  whole header whose command is \<open>DISCOVER\<close>, and the answer is an eight-byte \<open>DISCOVER_REPLY\<close> that
  carries the daemon's port.
\<close>

lemma udp_answers_only_discover:
  "(onUdpReadable dgram \<noteq> None \<longleftrightarrow>
      (\<exists>bs hdr. dgram = Some bs \<and> dec_Header bs = Some hdr \<and> cmd_type hdr = CMD_DISCOVER)) \<and>
   (\<forall>reply. onUdpReadable dgram = Some reply \<longrightarrow>
      length reply = 8 \<and>
      dec_Header reply = Some \<lparr>cmd_type = CMD_DISCOVER_REPLY, device_id = 0, endpoint = 0, seq = 0, payload_len = 2\<rparr> \<and>
      dec_DiscoverReply (drop 6 reply) = Some \<lparr>daemon_port = DAEMON_PORT\<rparr>)"
proof -
  have cut: "dec_Header (take MAX_PACKET bs) = dec_Header bs" for bs
  proof (cases "length bs \<le> MAX_PACKET")
    case False
    then have "sizeof_Header \<le> length (take MAX_PACKET bs)" by (simp add: wire_size MAX_PACKET_def)
    then show ?thesis using header.dec_prefix [of "take MAX_PACKET bs" "drop MAX_PACKET bs"] by simp
  qed simp
  have "dec_Header discover_reply_packet = Some \<lparr>cmd_type = CMD_DISCOVER_REPLY, device_id = 0, endpoint = 0, seq = 0, payload_len = 2\<rparr>"
    "length discover_reply_packet = 8" "dec_DiscoverReply (drop 6 discover_reply_packet) = Some \<lparr>daemon_port = DAEMON_PORT\<rparr>"
    by (simp_all add: discover_reply_packet_def wire_size)
  then show ?thesis
    by (auto simp: onUdpReadable_def cut split: option.splits if_splits)
qed

section \<open>Packets: correctness\<close>

lemma recvExactly_flows:
  assumes "list_all recv_flows answers"
  shows "\<exists>skip. list_all (\<lambda>a. a = REintr) skip \<and>
     recvExactly (length (data_of answers)) (answers @ rest) = Some (int (length (data_of answers)), data_of answers, skip @ rest)"
  using recvExactly_from_flows [OF assms, of "[]"] by (simp add: recvExactly_def)

text \<open>
  A packet is read back from the connection whole, however TCP cuts it up and however often the
  reads are interrupted: the header sent, and as many payload bytes as it announces.
\<close>

lemma packet_read_back:
  assumes "list_all recv_flows as1" and "list_all recv_flows as2"
    and "data_of as1 = enc_Header hdr" and "data_of as2 = payload" and "payload_len hdr = of_nat (length payload)"
    and "length payload < 65536"
  shows "read_packet (as1 @ as2 @ rest) = TR_Packet hdr payload"
proof -
  have len: "unat (payload_len hdr) = length payload" using assms(5,6) by (simp add: unat_of_nat_16)
  obtain skip where skip: "list_all (\<lambda>a. a = REintr) skip"
    and r1: "recvExactly sizeof_Header (as1 @ as2 @ rest) = Some (6, enc_Header hdr, skip @ as2 @ rest)"
    using recvExactly_flows [OF assms(1), of "as2 @ rest"] assms(3) by (auto simp: wire_size)
  have "data_of skip = []" using skip by (induction skip) auto
  moreover have "list_all recv_flows (skip @ as2)"
    using skip assms(2) by (induction skip) (auto simp: recv_flows_def)
  ultimately obtain skip2 where "recvExactly (length payload) ((skip @ as2) @ rest) = Some (int (length payload), payload, skip2)"
    using recvExactly_flows [of "skip @ as2" rest] assms(4) by auto
  then show ?thesis
    using r1 header.dec_exact [of hdr] len by (cases "payload = []") (simp_all add: read_packet_def)
qed

text \<open>The trimming loop is the removal of all trailing line breaks.\<close>

definition is_nl :: "byte \<Rightarrow> bool" where
  "is_nl b \<longleftrightarrow> b = 10 \<or> b = 13"

lemma take_trimmed_len:
  "n \<le> length msg \<Longrightarrow> take (trimmed_len msg n) msg = rev (dropWhile is_nl (rev (take n msg)))"
proof (induction n)
  case (Suc n)
  then have "rev (take (Suc n) msg) = msg ! n # rev (take n msg)"
    by (simp add: take_Suc_conv_app_nth)
  with Suc show ?case by (auto simp: is_nl_def take_Suc_conv_app_nth)
qed simp

text \<open>
  A log packet is printed with the level it carries and its message without the trailing line
  breaks, up to the first NUL.
\<close>

lemma log_packet_printed:
  "log_output (enc_LogPayload lp @ msg) =
     Out_Log (esp_log_fn (log_level lp))
       (''[ESP TCP] '' @ cstr (map char_of_byte (rev (dropWhile is_nl (rev msg)))))"
  by (simp add: log_output_def wire_size take_trimmed_len)

section \<open>The session maps\<close>

text \<open>
  Every session is reachable by its device number and by its two descriptors, every pointer in the
  maps leads to a live session of that number or descriptor, and no session's socket is pending.
\<close>

definition session_linked :: "'a hub_scheme \<Rightarrow> nat \<Rightarrow> DeviceSession \<Rightarrow> bool" where
  "session_linked h a s \<longleftrightarrow>
     sessions h (dv_device_id s) = Some a \<and> vhci_fd_map h (dv_vhci_fd s) = Some a \<and>
     (\<exists>fd ph. dv_tcp_sock s = Some fd \<and> tcp_fd_map h fd = Some a \<and> fd \<notin> pending h \<and>
        dv_handler s = Some ph \<and> ph_vhci_fd ph = dv_vhci_fd s)"

definition hub_inv :: "'a hub_scheme \<Rightarrow> bool" where
  "hub_inv h \<longleftrightarrow>
     (\<forall>a s. heap h a = Some s \<longrightarrow> a < next_addr h \<and> session_linked h a s) \<and>
     (\<forall>dev a. sessions h dev = Some a \<longrightarrow> (\<exists>s. heap h a = Some s \<and> dv_device_id s = dev)) \<and>
     (\<forall>fd a. vhci_fd_map h fd = Some a \<longrightarrow> (\<exists>s. heap h a = Some s \<and> dv_vhci_fd s = fd)) \<and>
     (\<forall>fd a. tcp_fd_map h fd = Some a \<longrightarrow> (\<exists>s. heap h a = Some s \<and> dv_tcp_sock s = Some fd))"

lemma hub_inv_initial: "hub_inv hub_initial"
  by (simp add: hub_inv_def hub_initial_def)

lemma hub_invI:
  assumes "\<And>a s. heap h a = Some s \<Longrightarrow> a < next_addr h \<and> session_linked h a s"
    and "\<And>dev a. sessions h dev = Some a \<Longrightarrow> \<exists>s. heap h a = Some s \<and> dv_device_id s = dev"
    and "\<And>fd a. vhci_fd_map h fd = Some a \<Longrightarrow> \<exists>s. heap h a = Some s \<and> dv_vhci_fd s = fd"
    and "\<And>fd a. tcp_fd_map h fd = Some a \<Longrightarrow> \<exists>s. heap h a = Some s \<and> dv_tcp_sock s = Some fd"
  shows "hub_inv h"
  using assms unfolding hub_inv_def by blast

lemma hub_invD:
  assumes "hub_inv h"
  shows "heap h a = Some s \<Longrightarrow> a < next_addr h"
    and "sessions h dev = Some a \<Longrightarrow> \<exists>s. heap h a = Some s \<and> dv_device_id s = dev"
    and "vhci_fd_map h fd = Some a \<Longrightarrow> \<exists>s. heap h a = Some s \<and> dv_vhci_fd s = fd"
    and "tcp_fd_map h fd = Some a \<Longrightarrow> \<exists>s. heap h a = Some s \<and> dv_tcp_sock s = Some fd"
  using assms unfolding hub_inv_def by blast+

lemma hub_inv_linked: "hub_inv h \<Longrightarrow> heap h a = Some s \<Longrightarrow> session_linked h a s"
  by (simp add: hub_inv_def)

lemma hub_inv_open [simp]: "hub_inv (h\<lparr>open_fds := F\<rparr>) = hub_inv h"
  by (simp add: hub_inv_def session_linked_def)

lemma pending_not_session:
  assumes "hub_inv h" and "fd \<in> pending h"
  shows "tcp_fd_map h fd = None"
proof (rule ccontr)
  assume "tcp_fd_map h fd \<noteq> None"
  then obtain a s where "heap h a = Some s" "dv_tcp_sock s = Some fd" using hub_invD(4) [OF assms(1)] by blast
  with hub_inv_linked [OF assms(1)] assms(2) show False by (fastforce simp: session_linked_def)
qed

lemma hub_inv_pending:
  assumes inv: "hub_inv h" and P: "\<And>fd. fd \<in> P \<Longrightarrow> tcp_fd_map h fd = None"
  shows "hub_inv (h\<lparr>pending := P\<rparr>)"
proof (rule hub_invI)
  show "a < next_addr (h\<lparr>pending := P\<rparr>) \<and> session_linked (h\<lparr>pending := P\<rparr>) a s"
    if "heap (h\<lparr>pending := P\<rparr>) a = Some s" for a s
  proof -
    have a: "heap h a = Some s" using that by simp
    obtain fd ph where t: "dv_tcp_sock s = Some fd" "tcp_fd_map h fd = Some a"
      "sessions h (dv_device_id s) = Some a" "vhci_fd_map h (dv_vhci_fd s) = Some a" "dv_handler s = Some ph"
      "ph_vhci_fd ph = dv_vhci_fd s"
      using hub_inv_linked [OF inv a] by (auto simp: session_linked_def)
    moreover have "fd \<notin> P" using P [of fd] t(2) by auto
    ultimately show ?thesis using hub_invD(1) [OF inv a] by (simp add: session_linked_def)
  qed
qed (use hub_invD [OF inv] in simp_all)

lemma hub_inv_accept: "hub_inv h \<Longrightarrow> tcp_fd_map h fd = None \<Longrightarrow> hub_inv (onTcpAccept fd h)"
  using hub_inv_pending [of h "insert fd (pending h)"] pending_not_session [of h]
  by (auto simp: onTcpAccept_def)

lemma addSession_fresh:
  assumes "sessions h dev = None"
  shows "addSession dev port vfd kfd addr (Some fd) h =
     h\<lparr>heap := (heap h)(next_addr h \<mapsto> \<lparr>dv_device_id = dev, dv_vhci_port = port, dv_vhci_fd = vfd, dv_kernel_fd = kfd,
          dv_dev_addr = addr, dv_tcp_sock = Some fd,
          dv_handler = Some \<lparr>ph_vhci_fd = vfd, ph_sock = fd, ph_device_id = dev, ph_seq = 0\<rparr>\<rparr>),
        next_addr := Suc (next_addr h), tcp_fd_map := (tcp_fd_map h)(fd \<mapsto> next_addr h),
        vhci_fd_map := (vhci_fd_map h)(vfd \<mapsto> next_addr h), sessions := (sessions h)(dev \<mapsto> next_addr h)\<rparr>"
  using assms by (simp add: addSession_def Let_def)

lemma hub_inv_add:
  assumes "hub_inv h" and "sessions h dev = None" and "vhci_fd_map h vfd = None" and "tcp_fd_map h fd = None"
    and "fd \<notin> pending h"
  shows "hub_inv (addSession dev port vfd kfd addr (Some fd) h)"
proof -
  let ?n = "next_addr h"
  let ?h = "addSession dev port vfd kfd addr (Some fd) h"
  have new: "heap h ?n = None"
    using hub_invD(1) [OF assms(1), of ?n] by (cases "heap h ?n") auto
  have old: "dv_device_id s \<noteq> dev" "dv_vhci_fd s \<noteq> vfd" "dv_tcp_sock s \<noteq> Some fd" "a < ?n"
    if "heap h a = Some s" for a s
    using hub_inv_linked [OF assms(1) that] assms(2-4) hub_invD(1) [OF assms(1) that] by (auto simp: session_linked_def)
  note add = addSession_fresh [OF assms(2)]
  show ?thesis
  proof (rule hub_invI)
    show "a < next_addr ?h \<and> session_linked ?h a s" if "heap ?h a = Some s" for a s
    proof (cases "a = ?n")
      case True
      with that assms(5) show ?thesis by (auto simp: add session_linked_def)
    next
      case False
      then have "heap h a = Some s" using that by (simp add: add)
      from old [OF this] hub_inv_linked [OF assms(1) this] show ?thesis
        by (auto simp: add session_linked_def)
    qed
    show "\<exists>s. heap ?h a = Some s \<and> dv_device_id s = d" if "sessions ?h d = Some a" for d a
      using that new hub_invD(2) [OF assms(1), of d a] by (auto simp: add split: if_splits)
    show "\<exists>s. heap ?h a = Some s \<and> dv_vhci_fd s = f" if "vhci_fd_map ?h f = Some a" for f a
      using that new hub_invD(3) [OF assms(1), of f a] by (auto simp: add split: if_splits)
    show "\<exists>s. heap ?h a = Some s \<and> dv_tcp_sock s = Some f" if "tcp_fd_map ?h f = Some a" for f a
      using that new hub_invD(4) [OF assms(1), of f a] by (auto simp: add split: if_splits)
  qed
qed

text \<open>Removing a session: what remains is what belongs to the others.\<close>

lemma removeSession_live:
  assumes "hub_inv h" and "sessions h dev = Some a" and "heap h a = Some s" and "dv_tcp_sock s = Some fd"
  shows "removeSession dev h =
     Some (h\<lparr>sessions := (sessions h)(dev := None), vhci_fd_map := (vhci_fd_map h)(dv_vhci_fd s := None),
             tcp_fd_map := (tcp_fd_map h)(fd := None), heap := (heap h)(a := None),
             open_fds := open_fds h - session_fds s\<rparr>)"
  using assms by (simp add: removeSession_def destroy_def)

lemma hub_inv_remove:
  assumes "hub_inv h"
  shows "\<exists>h'. removeSession dev h = Some h' \<and> hub_inv h' \<and> sessions h' dev = None"
proof (cases "sessions h dev")
  case None
  with assms show ?thesis by (simp add: removeSession_def)
next
  case (Some a)
  obtain s where s: "heap h a = Some s" "dv_device_id s = dev" using hub_invD(2) [OF assms Some] by blast
  obtain fd where fd: "dv_tcp_sock s = Some fd" "tcp_fd_map h fd = Some a" "vhci_fd_map h (dv_vhci_fd s) = Some a"
    using hub_inv_linked [OF assms s(1)] by (auto simp: session_linked_def)
  let ?h = "h\<lparr>sessions := (sessions h)(dev := None), vhci_fd_map := (vhci_fd_map h)(dv_vhci_fd s := None),
     tcp_fd_map := (tcp_fd_map h)(fd := None), heap := (heap h)(a := None), open_fds := open_fds h - session_fds s\<rparr>"
  have "hub_inv ?h"
  proof (rule hub_invI)
    show "b < next_addr ?h \<and> session_linked ?h b t" if "heap ?h b = Some t" for b t
    proof -
      have b: "heap h b = Some t" "b \<noteq> a" using that by (auto split: if_splits)
      obtain f ph where t: "sessions h (dv_device_id t) = Some b" "vhci_fd_map h (dv_vhci_fd t) = Some b"
          "dv_tcp_sock t = Some f" "tcp_fd_map h f = Some b" "f \<notin> pending h" "dv_handler t = Some ph"
          "ph_vhci_fd ph = dv_vhci_fd t"
        using hub_inv_linked [OF assms b(1)] by (auto simp: session_linked_def)
      then have "f \<noteq> fd" "dv_vhci_fd t \<noteq> dv_vhci_fd s" "dv_device_id t \<noteq> dev"
        using b(2) fd(2,3) Some by auto
      with t hub_invD(1) [OF assms b(1)] show ?thesis by (simp add: session_linked_def)
    qed
    show "\<exists>t. heap ?h b = Some t \<and> dv_device_id t = d" if "sessions ?h d = Some b" for d b
      using that hub_invD(2) [OF assms, of d b] s by (auto split: if_splits)
    show "\<exists>t. heap ?h b = Some t \<and> dv_vhci_fd t = f" if "vhci_fd_map ?h f = Some b" for f b
      using that hub_invD(3) [OF assms, of f b] s by (auto split: if_splits)
    show "\<exists>t. heap ?h b = Some t \<and> dv_tcp_sock t = Some f" if "tcp_fd_map ?h f = Some b" for f b
      using that hub_invD(4) [OF assms, of f b] s fd by (auto split: if_splits)
  qed
  with removeSession_live [OF assms Some s(1) fd(1)] show ?thesis by simp
qed

text \<open>
  What the event loop relies on: a pointer found by any of the three lookups leads to a live session,
  and the lookups agree.
\<close>

locale session_registry =
  fixes ok :: "'h \<Rightarrow> bool"
    and by_dev :: "u8 \<Rightarrow> 'h \<Rightarrow> 'p option"
    and by_vhci :: "int \<Rightarrow> 'h \<Rightarrow> 'p option"
    and by_tcp :: "int \<Rightarrow> 'h \<Rightarrow> 'p option"
    and deref :: "'h \<Rightarrow> 'p \<Rightarrow> DeviceSession option"
  assumes dev_live: "ok h \<Longrightarrow> by_dev d h = Some p \<Longrightarrow> \<exists>s. deref h p = Some s \<and> dv_device_id s = d"
    and vhci_live: "ok h \<Longrightarrow> by_vhci fd h = Some p \<Longrightarrow>
          \<exists>s. deref h p = Some s \<and> dv_vhci_fd s = fd \<and> by_dev (dv_device_id s) h = Some p"
    and tcp_live: "ok h \<Longrightarrow> by_tcp fd h = Some p \<Longrightarrow>
          \<exists>s. deref h p = Some s \<and> dv_tcp_sock s = Some fd \<and> by_dev (dv_device_id s) h = Some p"
    and linked: "ok h \<Longrightarrow> deref h p = Some s \<Longrightarrow>
          by_dev (dv_device_id s) h = Some p \<and> by_vhci (dv_vhci_fd s) h = Some p \<and>
          (\<exists>fd. dv_tcp_sock s = Some fd \<and> by_tcp fd h = Some p)"
begin

lemma same_session:
  assumes "ok h" and "by_dev d h = Some p"
  shows "\<exists>s fd. deref h p = Some s \<and> dv_device_id s = d \<and> by_vhci (dv_vhci_fd s) h = Some p \<and>
     dv_tcp_sock s = Some fd \<and> by_tcp fd h = Some p"
  using dev_live [OF assms] linked [OF assms(1)] by metis

lemma one_session_per_device:
  assumes "ok h" and "deref h p = Some s" and "deref h q = Some t" and "dv_device_id s = dv_device_id t"
  shows "p = q"
  using linked [OF assms(1,2)] linked [OF assms(1,3)] assms(4) by simp

end

interpretation registry: session_registry hub_inv findByDeviceId findByVhciFd findByTcpFd heap
proof
  fix h :: "'a hub_scheme" and d p fd s
  assume inv: "hub_inv h"
  show "\<exists>s. heap h p = Some s \<and> dv_device_id s = d" if "findByDeviceId d h = Some p"
    using hub_invD(2) [OF inv] that by (simp add: findByDeviceId_def)
  show "\<exists>s. heap h p = Some s \<and> dv_vhci_fd s = fd \<and> findByDeviceId (dv_device_id s) h = Some p"
    if "findByVhciFd fd h = Some p"
    using hub_invD(3) [OF inv, of fd p] hub_inv_linked [OF inv, of p] that
    by (auto simp: findByVhciFd_def findByDeviceId_def session_linked_def)
  show "\<exists>s. heap h p = Some s \<and> dv_tcp_sock s = Some fd \<and> findByDeviceId (dv_device_id s) h = Some p"
    if "findByTcpFd fd h = Some p"
    using hub_invD(4) [OF inv, of fd p] hub_inv_linked [OF inv, of p] that
    by (auto simp: findByTcpFd_def findByDeviceId_def session_linked_def)
  show "findByDeviceId (dv_device_id s) h = Some p \<and> findByVhciFd (dv_vhci_fd s) h = Some p \<and>
      (\<exists>fd. dv_tcp_sock s = Some fd \<and> findByTcpFd fd h = Some p)" if "heap h p = Some s"
    using hub_inv_linked [OF inv that]
    by (auto simp: findByTcpFd_def findByVhciFd_def findByDeviceId_def session_linked_def)
qed

text \<open>
  C26. The session maps as a store: a session added under a free device number, with descriptors not
  in use, is found by number and by both descriptors and is live; every other lookup is unchanged.
  Removing it gives back every lookup as it was before, and closes its three descriptors and no
  other. The maps stay consistent throughout.
\<close>

theorem session_store_roundtrip:
  assumes "hub_inv h" and "sessions h dev = None" and "vhci_fd_map h vfd = None" and "tcp_fd_map h fd = None"
    and "fd \<notin> pending h" and "0 \<le> vfd" and "0 \<le> kfd"
  shows "\<exists>h1 a h2. addSession dev port vfd kfd addr (Some fd) h = h1 \<and> hub_inv h1 \<and>
     findByDeviceId dev h1 = Some a \<and> findByVhciFd vfd h1 = Some a \<and> findByTcpFd fd h1 = Some a \<and> heap h1 a \<noteq> None \<and>
     (\<forall>d. d \<noteq> dev \<longrightarrow> findByDeviceId d h1 = findByDeviceId d h) \<and>
     removeSession dev h1 = Some h2 \<and> hub_inv h2 \<and> sessions h2 = sessions h \<and> vhci_fd_map h2 = vhci_fd_map h \<and>
     tcp_fd_map h2 = tcp_fd_map h \<and> heap h2 = heap h \<and> open_fds h2 = open_fds h - {vfd, kfd, fd}"
proof -
  let ?h1 = "addSession dev port vfd kfd addr (Some fd) h"
  note add = addSession_fresh [OF assms(2)]
  have inv: "hub_inv ?h1" using assms by (intro hub_inv_add)
  obtain h2 where h2: "removeSession dev ?h1 = Some h2" "hub_inv h2"
    using hub_inv_remove [OF inv] by blast
  have new: "heap h (next_addr h) = None"
    using hub_invD(1) [OF assms(1), of "next_addr h"] by (cases "heap h (next_addr h)") auto
  have same: "(sessions h)(dev := None) = sessions h" "(vhci_fd_map h)(vfd := None) = vhci_fd_map h"
    "(tcp_fd_map h)(fd := None) = tcp_fd_map h" "(heap h)(next_addr h := None) = heap h"
    using assms(2-4) new by (simp_all add: fun_upd_idem)
  have fds: "session_fds \<lparr>dv_device_id = dev, dv_vhci_port = port, dv_vhci_fd = vfd, dv_kernel_fd = kfd,
      dv_dev_addr = addr, dv_tcp_sock = Some fd, dv_handler = ph\<rparr> = {vfd, kfd, fd}" for ph
    using assms(6,7) by (auto simp: session_fds_def)
  have h2': "h2 = h\<lparr>next_addr := Suc (next_addr h), open_fds := open_fds h - {vfd, kfd, fd}\<rparr>"
    using h2(1) same fds by (auto simp: add removeSession_def destroy_def)
  show ?thesis
    using inv h2 by (intro exI [of _ ?h1] exI [of _ "next_addr h"] exI [of _ h2])
      (simp add: h2' add findByDeviceId_def findByVhciFd_def findByTcpFd_def)
qed

theorem session_store_roundtrip_witness:
  "\<exists>h1 a. addSession 2 0 10 11 9 (Some 9) hub_initial = h1 \<and> findByDeviceId 2 h1 = Some a \<and>
     (\<exists>h2. removeSession 2 h1 = Some h2 \<and> sessions h2 = Map.empty)"
  using session_store_roundtrip [OF hub_inv_initial, of 2 10 9 11 0 9]
  by (simp add: hub_initial_def) blast

section \<open>Descriptors\<close>

text \<open>
  Who owns which descriptor: the descriptors of sessions and of pending connections are open, no two
  sessions share one, no session's socket is one of its other two, and no session's descriptor is
  pending.
\<close>

definition owned_fds :: "'a hub_scheme \<Rightarrow> int set" where
  "owned_fds h = (\<Union>s \<in> ran (heap h). session_fds s)"

definition fds_inv :: "'a hub_scheme \<Rightarrow> bool" where
  "fds_inv h \<longleftrightarrow>
     owned_fds h \<subseteq> open_fds h \<and> pending h \<subseteq> open_fds h \<and> owned_fds h \<inter> pending h = {} \<and>
     (\<forall>s \<in> ran (heap h). 0 \<le> dv_vhci_fd s \<and> 0 \<le> dv_kernel_fd s \<and> dv_vhci_fd s \<noteq> dv_kernel_fd s \<and>
        dv_tcp_sock s \<notin> {Some (dv_vhci_fd s), Some (dv_kernel_fd s)} \<and> (\<forall>fd. dv_tcp_sock s = Some fd \<longrightarrow> 0 \<le> fd)) \<and>
     (\<forall>fd \<in> pending h. 0 \<le> fd) \<and>
     (\<forall>a b s t. heap h a = Some s \<longrightarrow> heap h b = Some t \<longrightarrow> a \<noteq> b \<longrightarrow> session_fds s \<inter> session_fds t = {})"

lemma in_owned: "heap h a = Some s \<Longrightarrow> session_fds s \<subseteq> owned_fds h"
  by (auto simp: owned_fds_def intro: ranI)

lemma unowned_lookup:
  assumes "hub_inv h" and "fds_inv h" and "fd \<notin> owned_fds h"
  shows "tcp_fd_map h fd = None" and "vhci_fd_map h fd = None"
proof -
  show "tcp_fd_map h fd = None"
  proof (rule ccontr)
    assume "tcp_fd_map h fd \<noteq> None"
    then obtain a s where "heap h a = Some s" "dv_tcp_sock s = Some fd" using hub_invD(4) [OF assms(1)] by blast
    with in_owned assms(3) show False by (fastforce simp: session_fds_def)
  qed
  show "vhci_fd_map h fd = None"
  proof (rule ccontr)
    assume "vhci_fd_map h fd \<noteq> None"
    then obtain a s where s: "heap h a = Some s" "dv_vhci_fd s = fd" using hub_invD(3) [OF assms(1)] by blast
    then have "0 \<le> fd" using assms(2) by (auto simp: fds_inv_def intro: ranI)
    with s in_owned [OF s(1)] assms(3) show False by (auto simp: session_fds_def)
  qed
qed

lemma fds_inv_accept:
  assumes "fds_inv h" and "fd \<notin> open_fds h"
  shows "fds_inv (onTcpAccept fd h)"
  using assms by (auto simp: fds_inv_def onTcpAccept_def owned_fds_def)

lemma fds_inv_drop_pending:
  assumes "fds_inv h"
  shows "fds_inv (h\<lparr>pending := pending h - {fd}\<rparr>)"
    and "fd \<in> pending h \<Longrightarrow> fds_inv (h\<lparr>pending := pending h - {fd}, open_fds := open_fds h - {fd}\<rparr>)"
  using assms by (auto simp: fds_inv_def owned_fds_def)

lemma fds_inv_open_more: "fds_inv h \<Longrightarrow> fds_inv (h\<lparr>open_fds := open_fds h \<union> F\<rparr>)"
  by (auto simp: fds_inv_def owned_fds_def)

lemma ran_upd_new: "m a = None \<Longrightarrow> ran (m(a \<mapsto> s)) = insert s (ran m)"
  by simp

lemma fds_inv_add:
  assumes hub: "hub_inv h" and inv: "fds_inv h" and dev: "sessions h dev = None"
    and new: "{vfd, kfd, fd} \<subseteq> open_fds h" "{vfd, kfd, fd} \<inter> (owned_fds h \<union> pending h) = {}"
    and pos: "0 \<le> vfd" "0 \<le> kfd" "0 \<le> fd" "vfd \<noteq> kfd" "fd \<noteq> vfd" "fd \<noteq> kfd"
  shows "fds_inv (addSession dev port vfd kfd addr (Some fd) h)"
proof -
  have free: "heap h (next_addr h) = None"
    using hub_invD(1) [OF hub, of "next_addr h"] by (cases "heap h (next_addr h)") auto
  have fds: "session_fds \<lparr>dv_device_id = dev, dv_vhci_port = port, dv_vhci_fd = vfd, dv_kernel_fd = kfd,
      dv_dev_addr = addr, dv_tcp_sock = Some fd, dv_handler = ph\<rparr> = {vfd, kfd, fd}" for ph
    using pos by (auto simp: session_fds_def)
  have owned: "owned_fds (addSession dev port vfd kfd addr (Some fd) h) = owned_fds h \<union> {vfd, kfd, fd}"
    by (auto simp: addSession_fresh [OF dev] owned_fds_def ran_upd_new [where m = "heap h", OF free] fds)
  have dis: "session_fds s \<inter> {vfd, kfd, fd} = {}" if "heap h a = Some s" for a s
    using in_owned [OF that] new(2) by blast
  show ?thesis
    unfolding fds_inv_def owned
    using inv new pos dis
    by (auto simp: addSession_fresh [OF dev] fds fds_inv_def ran_upd_new [where m = "heap h", OF free])
qed

lemma fds_inv_remove:
  assumes hub: "hub_inv h" and inv: "fds_inv h" and rem: "removeSession dev h = Some h'"
  shows "fds_inv h' \<and> open_fds h' \<subseteq> open_fds h \<and> owned_fds h' \<subseteq> owned_fds h \<and> pending h' = pending h"
proof (cases "sessions h dev")
  case None
  with inv rem show ?thesis by (simp add: removeSession_def)
next
  case (Some a)
  obtain s where s: "heap h a = Some s" "dv_device_id s = dev" using hub_invD(2) [OF hub Some] by blast
  obtain fd where fd: "dv_tcp_sock s = Some fd"
    using hub_inv_linked [OF hub s(1)] by (auto simp: session_linked_def)
  have h': "heap h' = (heap h)(a := None)" "open_fds h' = open_fds h - session_fds s" "pending h' = pending h"
    using removeSession_live [OF hub Some s(1) fd] rem by auto
  have ran: "t \<in> ran (heap h') \<longleftrightarrow> (\<exists>b. b \<noteq> a \<and> heap h b = Some t)" for t
    by (auto simp: h' ran_def)
  have dis: "session_fds t \<inter> session_fds s = {}" "session_fds t \<subseteq> owned_fds h" if "heap h b = Some t" "b \<noteq> a" for b t
    using that s(1) inv in_owned by (auto simp: fds_inv_def)
  then have owned: "owned_fds h' \<subseteq> owned_fds h - session_fds s"
    by (fastforce simp: owned_fds_def [of h'] ran)
  have "pending h \<inter> session_fds s = {}" using in_owned [OF s(1)] inv by (auto simp: fds_inv_def)
  moreover have "ran ((heap h)(a := None)) \<subseteq> ran (heap h)" by (auto simp: ran_def)
  ultimately have "fds_inv h'"
    using owned inv unfolding fds_inv_def h' by (auto split: if_splits)
  with owned h' show ?thesis by blast
qed

end
