(* ===== verification/Vhci_Driver.thy ===== *)
theory Vhci_Driver
  imports Prelude
begin

text \<open>
  The daemon's table of virtual USB ports (\<open>daemon/src/usbip/VhciDriver.cpp\<close>): choosing, attaching,
  detaching and freeing ports, and the lines written to sysfs. Whether a sysfs file opens and how
  many bytes a write takes are arguments. What a client needs of the table is the locale
  \<open>port_table\<close>.
\<close>

section \<open>The table\<close>

definition MAX_PORTS :: nat where [const_defs]: "MAX_PORTS = 8"

record vhci =
  v_fd :: int
  v_ports :: "bool list"

definition vhci_initial :: vhci where
  "vhci_initial = \<lparr>v_fd = -1, v_ports = replicate MAX_PORTS False\<rparr>"

text \<open>\<open>open_fd\<close> is what \<open>open(VHCI_DEV)\<close> returns; the outcome of \<open>modprobe\<close> is only logged.\<close>

definition vhci_init :: "vhci \<Rightarrow> int \<Rightarrow> vhci \<times> bool" where
  "vhci_init v open_fd = (v\<lparr>v_fd := open_fd\<rparr>, 0 \<le> open_fd)"

text \<open>A sysfs write: whether the file opened and what \<open>write\<close> returned.\<close>

type_synonym sysfs_ans = "bool \<times> int"

definition sysfsWrite :: "string \<Rightarrow> sysfs_ans \<Rightarrow> bool" where
  "sysfsWrite value ans \<longleftrightarrow> fst ans \<and> snd ans = int (length value)"

definition attach_line :: "nat \<Rightarrow> int \<Rightarrow> u32 \<Rightarrow> u32 \<Rightarrow> string" where
  "attach_line port socket_fd devid speed =
     dec_of_int (int port) @ '' '' @ dec_of_int socket_fd @ '' '' @ dec_of_nat (unat devid) @ '' '' @
     dec_of_nat (unat speed)"

text \<open>The result: the table, the returned port, and the line written to \<open>SYSFS_ATTACH\<close>, if any.\<close>

definition attach :: "vhci \<Rightarrow> int \<Rightarrow> u32 \<Rightarrow> u32 \<Rightarrow> sysfs_ans \<Rightarrow> vhci \<times> int \<times> string option" where
  "attach v socket_fd devid speed ans =
     (case find (\<lambda>i. \<not> v_ports v ! i) [0..<MAX_PORTS] of
        None \<Rightarrow> (v, -1, None)
      | Some port \<Rightarrow>
          let buf = take 63 (attach_line port socket_fd devid speed)
          in if \<not> sysfsWrite buf ans then (v, -1, Some buf)
             else (v\<lparr>v_ports := (v_ports v)[port := True]\<rparr>, int port, Some buf))"

definition detach :: "vhci \<Rightarrow> int \<Rightarrow> sysfs_ans \<Rightarrow> vhci \<times> bool \<times> string option" where
  "detach v port ans =
     (if port < 0 \<or> port \<ge> int MAX_PORTS \<or> \<not> v_ports v ! nat port then (v, False, None)
      else
        let buf = take 15 (dec_of_int port)
        in if \<not> sysfsWrite buf ans then (v, False, Some buf)
           else (v\<lparr>v_ports := (v_ports v)[nat port := False]\<rparr>, True, Some buf))"

definition freePort :: "vhci \<Rightarrow> int \<Rightarrow> vhci" where
  "freePort v port =
     (if port \<ge> 0 \<and> port < int MAX_PORTS then v\<lparr>v_ports := (v_ports v)[nat port := False]\<rparr> else v)"

fun detach_ports :: "(nat \<Rightarrow> sysfs_ans) \<Rightarrow> nat list \<Rightarrow> vhci \<Rightarrow> vhci" where
  "detach_ports ans [] v = v"
| "detach_ports ans (i # is) v =
     detach_ports ans is (if v_ports v ! i then fst (detach v (int i) (ans i)) else v)"

definition detachAll :: "(nat \<Rightarrow> sysfs_ans) \<Rightarrow> vhci \<Rightarrow> vhci" where
  "detachAll ans v = detach_ports ans [0..<MAX_PORTS] v"

section \<open>The interface\<close>

definition vhci_ok :: "vhci \<Rightarrow> bool" where
  "vhci_ok v \<longleftrightarrow> length (v_ports v) = MAX_PORTS"

definition used_ports :: "vhci \<Rightarrow> nat set" where
  "used_ports v = {i. i < MAX_PORTS \<and> v_ports v ! i}"

text \<open>
  A table of numbered slots: acquiring takes a free slot or fails, and fails only when the table is
  full or the outside refuses; releasing frees exactly one slot.
\<close>

locale port_table =
  fixes ok :: "'v \<Rightarrow> bool" and used :: "'v \<Rightarrow> nat set" and cap :: nat
    and acquire :: "'v \<Rightarrow> 'e \<Rightarrow> 'v \<times> int" and release :: "'v \<Rightarrow> int \<Rightarrow> 'v"
  assumes used_within: "ok v \<Longrightarrow> used v \<subseteq> {..<cap}"
    and acquire_gets: "ok v \<Longrightarrow> acquire v e = (v', p) \<Longrightarrow> 0 \<le> p \<Longrightarrow>
          ok v' \<and> nat p < cap \<and> nat p \<notin> used v \<and> used v' = insert (nat p) (used v)"
    and acquire_fails: "ok v \<Longrightarrow> acquire v e = (v', p) \<Longrightarrow> p < 0 \<Longrightarrow> v' = v"
    and release_frees: "ok v \<Longrightarrow> ok (release v p) \<and> used (release v p) = used v - (if 0 \<le> p then {nat p} else {})"
begin

fun acquire_all :: "'v \<Rightarrow> 'e list \<Rightarrow> 'v \<times> int list" where
  "acquire_all v [] = (v, [])"
| "acquire_all v (e # es) =
     (let (v', p) = acquire v e; (v'', ps) = acquire_all v' es in (v'', p # ps))"

lemma acquire_card:
  "ok v \<Longrightarrow> acquire v e = (v', p) \<Longrightarrow> 0 \<le> p \<Longrightarrow> card (used v') = Suc (card (used v))"
  using acquire_gets used_within by (metis card_insert_disjoint finite_lessThan finite_subset)

text \<open>Slots that are never released run out.\<close>

lemma acquire_all_card:
  "ok v \<Longrightarrow> acquire_all v es = (v', ps) \<Longrightarrow> \<forall>p \<in> set ps. 0 \<le> p \<Longrightarrow>
     ok v' \<and> card (used v') = card (used v) + length es"
proof (induction es arbitrary: v ps)
  case Nil
  then show ?case by simp
next
  case (Cons e es)
  obtain v1 p qs where a: "acquire v e = (v1, p)" and r: "acquire_all v1 es = (v', qs)" and ps: "ps = p # qs"
    using Cons.prems(2) by (auto split: prod.splits)
  have "0 \<le> p" using Cons.prems(3) ps by simp
  with a have "ok v1" "card (used v1) = Suc (card (used v))"
    using acquire_gets acquire_card Cons.prems(1) by blast+
  with Cons.IH [OF _ r] Cons.prems(3) ps show ?case by simp
qed

lemma exhausted:
  assumes "ok v" and "acquire_all v es = (v', ps)" and "cap < card (used v) + length es"
  shows "\<exists>p \<in> set ps. p < 0"
proof (rule ccontr)
  assume "\<not> ?thesis"
  then have "ok v'" and n: "card (used v') = card (used v) + length es"
    using acquire_all_card [OF assms(1,2)] by (simp_all add: not_less)
  then have "card (used v') \<le> card {..<cap}" using used_within by (intro card_mono) simp_all
  with n assms(3) show False by simp
qed

end

text \<open>The vhci table is such a table; the outside is the sysfs answer and what is attached.\<close>

definition attach_slot :: "vhci \<Rightarrow> int \<times> u32 \<times> u32 \<times> sysfs_ans \<Rightarrow> vhci \<times> int" where
  "attach_slot v e = (case e of (fd, devid, speed, ans) \<Rightarrow> case attach v fd devid speed ans of (v', p, _) \<Rightarrow> (v', p))"

lemma find_free:
  assumes "find (\<lambda>i. \<not> v_ports v ! i) [0..<MAX_PORTS] = Some i"
  shows "i < MAX_PORTS \<and> \<not> v_ports v ! i \<and> (\<forall>j < i. v_ports v ! j)"
proof -
  obtain k where "k < length [0..<MAX_PORTS]" "\<not> v_ports v ! ([0..<MAX_PORTS] ! k)" "i = [0..<MAX_PORTS] ! k"
    and "\<forall>j < k. v_ports v ! ([0..<MAX_PORTS] ! j)"
    using assms by (auto simp: find_Some_iff)
  then show ?thesis by auto
qed

lemma attach_cases:
  assumes "attach v fd devid speed ans = (v', p, line)"
  shows "(p = -1 \<and> v' = v) \<or>
     (\<exists>i. p = int i \<and> i < MAX_PORTS \<and> \<not> v_ports v ! i \<and> (\<forall>j < i. v_ports v ! j) \<and>
        v' = v\<lparr>v_ports := (v_ports v)[i := True]\<rparr>)"
proof (cases "find (\<lambda>i. \<not> v_ports v ! i) [0..<MAX_PORTS]")
  case None
  with assms show ?thesis by (simp add: attach_def)
next
  case (Some i)
  with assms find_free [OF Some] show ?thesis by (auto simp: attach_def Let_def split: if_splits)
qed

lemma used_ports_set:
  "vhci_ok v \<Longrightarrow> i < MAX_PORTS \<Longrightarrow> used_ports (v\<lparr>v_ports := (v_ports v)[i := True]\<rparr>) = insert i (used_ports v)"
  "vhci_ok v \<Longrightarrow> i < MAX_PORTS \<Longrightarrow> used_ports (v\<lparr>v_ports := (v_ports v)[i := False]\<rparr>) = used_ports v - {i}"
  by (auto simp: used_ports_def vhci_ok_def nth_list_update)

interpretation ports: port_table vhci_ok used_ports MAX_PORTS attach_slot freePort
proof
  show "used_ports v \<subseteq> {..<MAX_PORTS}" for v by (auto simp: used_ports_def)
  show "vhci_ok v' \<and> nat p < MAX_PORTS \<and> nat p \<notin> used_ports v \<and> used_ports v' = insert (nat p) (used_ports v)"
    if v: "vhci_ok v" and a: "attach_slot v e = (v', p)" and p: "0 \<le> p" for v e v' p
  proof -
    obtain fd devid speed ans line where "attach v fd devid speed ans = (v', p, line)"
      using a by (auto simp: attach_slot_def split: prod.splits)
    from attach_cases [OF this] v p show ?thesis
      by (auto simp: used_ports_set) (simp_all add: used_ports_def vhci_ok_def)
  qed
  show "v' = v" if "vhci_ok v" and a: "attach_slot v e = (v', p)" and p: "p < 0" for v e v' p
  proof -
    obtain fd devid speed ans line where "attach v fd devid speed ans = (v', p, line)"
      using a by (auto simp: attach_slot_def split: prod.splits)
    from attach_cases [OF this] p show ?thesis by auto
  qed
  show "vhci_ok (freePort v p) \<and> used_ports (freePort v p) = used_ports v - (if 0 \<le> p then {nat p} else {})"
    if "vhci_ok v" for v p
    using that by (auto simp: freePort_def used_ports_set vhci_ok_def) (auto simp: used_ports_def)
qed

section \<open>Properties\<close>

text \<open>Reading a line back: its words, and the number each of them denotes.\<close>

fun split_words :: "string \<Rightarrow> string list" where
  "split_words [] = [[]]"
| "split_words (c # s) =
     (if c = CHR '' '' then [] # split_words s
      else case split_words s of w # ws \<Rightarrow> (c # w) # ws | [] \<Rightarrow> [[c]])"

lemma split_words_word: "(\<And>c. c \<in> set w \<Longrightarrow> c \<noteq> CHR '' '') \<Longrightarrow> split_words w = [w]"
  by (induction w) auto

lemma split_words_space:
  "(\<And>c. c \<in> set w \<Longrightarrow> c \<noteq> CHR '' '') \<Longrightarrow> split_words (w @ '' '' @ s) = w # split_words s"
  by (induction w) auto

lemma split_dec [simp]:
  "split_words (dec_of_nat n) = [dec_of_nat n]" "split_words (dec_of_nat n @ CHR '' '' # s) = dec_of_nat n # split_words s"
  using dec_of_nat_no_space split_words_word split_words_space by (blast, force)

lemma unat_dec_length: "length (dec_of_nat (unat (w :: u32))) \<le> 10"
proof -
  have "unat w < 2 ^ 32" using unsigned_less [of w] by simp
  then show ?thesis by (intro length_dec_of_nat) simp_all
qed

lemma attach_line_length:
  assumes "port < MAX_PORTS" and "0 \<le> fd" and "fd < 2 ^ 31"
  shows "length (attach_line port fd devid speed) \<le> 63"
proof -
  have "length (dec_of_nat port) \<le> 1" using assms(1) by (intro length_dec_of_nat) (simp_all add: MAX_PORTS_def)
  moreover have "length (dec_of_nat (nat fd)) \<le> 10" using assms(2,3) by (intro length_dec_of_nat) simp_all
  ultimately show ?thesis
    using assms(2) unat_dec_length [of devid] unat_dec_length [of speed] by (simp add: attach_line_def dec_of_int_def)
qed

text \<open>
  What is written to the attach file is never cut off by its 64-byte buffer and reads back, word
  by word, as the port, the descriptor, the device number and the speed; the port is the lowest free
  one, and on success it is the port that is returned and marked.
\<close>

lemma attach_line_reads_back:
  assumes "attach v fd devid speed ans = (v', p, Some line)" and "0 \<le> fd" and "fd < 2 ^ 31"
  shows "\<exists>port. port < MAX_PORTS \<and> \<not> v_ports v ! port \<and> (\<forall>j < port. v_ports v ! j) \<and>
     map nat_of_dec (split_words line) = [port, nat fd, unat devid, unat speed] \<and>
     (0 \<le> p \<longrightarrow> p = int port \<and> v_ports v' = (v_ports v)[port := True])"
proof -
  obtain port where f: "find (\<lambda>i. \<not> v_ports v ! i) [0..<MAX_PORTS] = Some port"
    and line: "line = take 63 (attach_line port fd devid speed)"
    and p: "0 \<le> p \<longrightarrow> p = int port \<and> v_ports v' = (v_ports v)[port := True]"
    using assms(1) by (auto simp: attach_def Let_def split: option.splits if_splits)
  then have "line = attach_line port fd devid speed"
    using attach_line_length [OF _ assms(2,3)] find_free [OF f] by simp
  then have "map nat_of_dec (split_words line) = [port, nat fd, unat devid, unat speed]"
    using assms(2) by (simp add: attach_line_def dec_of_int_def)
  with find_free [OF f] p show ?thesis by (intro exI [of _ port]) simp
qed

text \<open>
  Ports that are attached and never freed run out: of nine attachments one fails, whatever the
  kernel answers.
\<close>

lemma ports_run_out:
  assumes "length es = 9"
  shows "\<exists>p \<in> set (snd (ports.acquire_all vhci_initial es)). p < 0"
proof -
  have "vhci_ok vhci_initial" "used_ports vhci_initial = {}"
    by (auto simp: vhci_ok_def used_ports_def vhci_initial_def)
  then show ?thesis
    using ports.exhausted [of vhci_initial es "fst (ports.acquire_all vhci_initial es)" "snd (ports.acquire_all vhci_initial es)"]
      assms by (simp add: MAX_PORTS_def)
qed

lemma detach_ports_used:
  assumes "vhci_ok v" and "\<And>i. i \<in> set is \<Longrightarrow> i < MAX_PORTS"
  shows "used_ports (detach_ports ans is v) = used_ports v - {i \<in> set is. ans i = (True, 1)}"
  using assms
proof (induction "is" arbitrary: v)
  case Nil
  then show ?case by simp
next
  case (Cons i "is")
  have i: "i < MAX_PORTS" using Cons.prems(2) by simp
  then have "dec_of_int (int i) = [digit_char i]" by (simp add: dec_of_int_def dec_of_nat_small MAX_PORTS_def)
  then have d: "v_ports v ! i \<Longrightarrow>
      fst (detach v (int i) (ans i)) = (if ans i = (True, 1) then v\<lparr>v_ports := (v_ports v)[i := False]\<rparr> else v)"
    using i by (cases "ans i") (simp add: detach_def sysfsWrite_def)
  have "vhci_ok (v\<lparr>v_ports := (v_ports v)[i := False]\<rparr>)" using Cons.prems(1) by (simp add: vhci_ok_def)
  with Cons d i show ?case
    by (auto simp: used_ports_set) (auto simp: used_ports_def)
qed

lemma used_ports_within: "used_ports v \<subseteq> {..<MAX_PORTS}"
  by (auto simp: used_ports_def)

lemma detachAll_used: "vhci_ok v \<Longrightarrow> used_ports (detachAll ans v) = used_ports v - {i. ans i = (True, 1)}"
  using detach_ports_used [of v "[0..<MAX_PORTS]" ans] used_ports_within [of v] by (auto simp: detachAll_def)

text \<open>
  Detaching undoes attaching: a port just attached is detached when the kernel takes the line,
  the table is then as before, and a second detach of it is refused. Detaching everything with a
  kernel that takes every line leaves no port in use.
\<close>

lemma detach_undoes_attach:
  assumes "vhci_ok v" and "attach v fd devid speed ans = (v', p, line)" and "0 \<le> p"
  shows "detach v' p (True, 1) = (v, True, Some (dec_of_int p)) \<and> detach v p (True, 1) = (v, False, None) \<and>
     used_ports (detachAll (\<lambda>_. (True, 1)) v') = {}"
proof -
  obtain i where i: "p = int i" "i < MAX_PORTS" "\<not> v_ports v ! i" "v' = v\<lparr>v_ports := (v_ports v)[i := True]\<rparr>"
    using attach_cases [OF assms(2)] assms(3) by auto
  then have "dec_of_int p = [digit_char i]" by (simp add: dec_of_int_def dec_of_nat_small MAX_PORTS_def)
  moreover have "v\<lparr>v_ports := (v_ports v)[i := False]\<rparr> = v"
    using i(3) list_update_id [of "v_ports v" i] by simp
  moreover have "vhci_ok v'" using i assms(1) by (simp add: vhci_ok_def)
  then have "used_ports (detachAll (\<lambda>_. (True, 1)) v') = {}"
    by (simp add: detachAll_used)
  ultimately show ?thesis
    using i assms(1) by (simp add: detach_def sysfsWrite_def vhci_ok_def)
qed

end
