(* ===== verification/Sockets.thy ===== *)
theory Sockets
  imports Prelude
begin

text \<open>
  Creating, moving and closing the daemon's sockets (\<open>daemon/src/network/UdpSocket.cpp\<close> and
  \<open>TcpSocket.cpp\<close>). The classes \<open>UdpSocket\<close>, \<open>TcpSocket\<close> and \<open>TcpServer\<close> own one descriptor each and
  have the same destructor, move constructor and move assignment, which are modelled once. Objects
  live in a store of addresses beside the set of open descriptors of the process; closing a
  descriptor that is not open, and using an object that does not exist, is \<open>None\<close>.
\<close>

section \<open>Constructors\<close>

datatype setup_error = Socket_Failed | Bind_Failed | Listen_Failed

text \<open>What the system answers to a constructor; the outcome of \<open>setsockopt\<close> is not looked at.\<close>

record sock_sys =
  sy_socket :: int
  sy_bind :: "u16 \<Rightarrow> int"
  sy_listen :: int

definition close_fd :: "int \<Rightarrow> int set \<Rightarrow> int set option" where
  "close_fd fd fds = (if fd \<in> fds then Some (fds - {fd}) else None)"

text \<open>
  An exception is \<open>Inl\<close>; a constructor that throws leaves no object, so that no destructor runs, and
  the constructor itself closes what it opened.
\<close>

definition UdpSocket_new :: "u16 \<Rightarrow> sock_sys \<Rightarrow> int set \<Rightarrow> ((setup_error + int) \<times> int set) option" where
  "UdpSocket_new bind_port sys fds =
     (let fd = sy_socket sys
      in if fd < 0 then Some (Inl Socket_Failed, fds)
         else if sy_bind sys bind_port < 0 then do {
           fds' \<leftarrow> close_fd fd (insert fd fds);
           Some (Inl Bind_Failed, fds') }
         else Some (Inr fd, insert fd fds))"

definition TcpServer_new :: "u16 \<Rightarrow> sock_sys \<Rightarrow> int set \<Rightarrow> ((setup_error + int) \<times> int set) option" where
  "TcpServer_new bind_port sys fds =
     (let fd = sy_socket sys
      in if fd < 0 then Some (Inl Socket_Failed, fds)
         else if sy_bind sys bind_port < 0 then do {
           fds' \<leftarrow> close_fd fd (insert fd fds);
           Some (Inl Bind_Failed, fds') }
         else if sy_listen sys < 0 then do {
           fds' \<leftarrow> close_fd fd (insert fd fds);
           Some (Inl Listen_Failed, fds') }
         else Some (Inr fd, insert fd fds))"

text \<open>What \<open>accept4\<close> returns is the result; the new descriptor is open.\<close>

definition acceptConnection :: "int \<Rightarrow> int set \<Rightarrow> int \<times> int set" where
  "acceptConnection client_fd fds = (client_fd, if 0 \<le> client_fd then insert client_fd fds else fds)"

section \<open>Objects\<close>

record sock_store =
  sk_objs :: "nat \<Rightarrow> int option"
  sk_fds :: "int set"

text \<open>The code every one of these functions starts with: \<open>if (fd_ >= 0) ::close(fd_)\<close>.\<close>

definition close_owned :: "int \<Rightarrow> int set \<Rightarrow> int set option" where
  "close_owned fd fds = (if 0 \<le> fd then close_fd fd fds else Some fds)"

definition sock_destroy :: "nat \<Rightarrow> sock_store \<Rightarrow> sock_store option" where
  "sock_destroy a s = do {
     fd \<leftarrow> sk_objs s a;
     fds \<leftarrow> close_owned fd (sk_fds s);
     Some (s\<lparr>sk_objs := (sk_objs s)(a := None), sk_fds := fds\<rparr>) }"

definition sock_move :: "nat \<Rightarrow> nat \<Rightarrow> sock_store \<Rightarrow> sock_store option" where
  "sock_move a b s = do {
     fd \<leftarrow> sk_objs s b;
     Some (s\<lparr>sk_objs := (sk_objs s)(a \<mapsto> fd, b \<mapsto> -1)\<rparr>) }"

definition sock_assign :: "nat \<Rightarrow> nat \<Rightarrow> sock_store \<Rightarrow> sock_store option" where
  "sock_assign a b s = do {
     fd_a \<leftarrow> sk_objs s a;
     fd_b \<leftarrow> sk_objs s b;
     if a \<noteq> b then do {
       fds \<leftarrow> close_owned fd_a (sk_fds s);
       Some (s\<lparr>sk_objs := (sk_objs s)(a \<mapsto> fd_b, b \<mapsto> -1), sk_fds := fds\<rparr>) }
     else Some s }"

text \<open>Storing a constructed object; after an exception there is none.\<close>

definition sock_place :: "nat \<Rightarrow> (setup_error + int) \<times> int set \<Rightarrow> sock_store \<Rightarrow> sock_store" where
  "sock_place a r s =
     (case fst r of
        Inl e \<Rightarrow> s\<lparr>sk_fds := snd r\<rparr>
      | Inr fd \<Rightarrow> s\<lparr>sk_objs := (sk_objs s)(a \<mapsto> fd), sk_fds := snd r\<rparr>)"

text \<open>
  Any use of the classes: a descriptor the system returns is not open, a new object has an address of
  its own, and \<open>TcpSocket\<close> objects are made from accepted connections.
\<close>

inductive sock_step :: "sock_store \<Rightarrow> sock_store \<Rightarrow> bool" where
  new_udp: "sk_objs s a = None \<Longrightarrow> sy_socket sys \<notin> sk_fds s \<Longrightarrow> UdpSocket_new port sys (sk_fds s) = Some r \<Longrightarrow>
     sock_step s (sock_place a r s)"
| new_server: "sk_objs s a = None \<Longrightarrow> sy_socket sys \<notin> sk_fds s \<Longrightarrow> TcpServer_new port sys (sk_fds s) = Some r \<Longrightarrow>
     sock_step s (sock_place a r s)"
| accept: "sk_objs s a = None \<Longrightarrow> fd \<notin> sk_fds s \<Longrightarrow> acceptConnection fd (sk_fds s) = (fd', fds') \<Longrightarrow> 0 \<le> fd' \<Longrightarrow>
     sock_step s (sock_place a (Inr fd', fds') s)"
| move: "sk_objs s a = None \<Longrightarrow> sock_move a b s = Some s' \<Longrightarrow> sock_step s s'"
| assign: "sock_assign a b s = Some s' \<Longrightarrow> sock_step s s'"
| destroy: "sock_destroy a s = Some s' \<Longrightarrow> sock_step s s'"

definition sock_start :: "sock_store \<Rightarrow> bool" where
  "sock_start s \<longleftrightarrow> sk_objs s = Map.empty \<and> sk_fds s = {}"

section \<open>Ownership\<close>

definition owned :: "(nat \<Rightarrow> int option) \<Rightarrow> int set" where
  "owned objs = {fd. 0 \<le> fd \<and> (\<exists>a. objs a = Some fd)}"

definition sock_inv :: "sock_store \<Rightarrow> bool" where
  "sock_inv s \<longleftrightarrow> sk_fds s = owned (sk_objs s) \<and>
     (\<forall>a b fd. sk_objs s a = Some fd \<longrightarrow> sk_objs s b = Some fd \<longrightarrow> 0 \<le> fd \<longrightarrow> a = b)"

lemma sock_invI:
  assumes "sk_fds s = owned (sk_objs s)"
    and "\<And>a b fd. sk_objs s a = Some fd \<Longrightarrow> sk_objs s b = Some fd \<Longrightarrow> 0 \<le> fd \<Longrightarrow> a = b"
  shows "sock_inv s"
  using assms by (auto simp: sock_inv_def)

lemma sock_inv_unique: "sock_inv s \<Longrightarrow> sk_objs s a = Some fd \<Longrightarrow> sk_objs s b = Some fd \<Longrightarrow> 0 \<le> fd \<Longrightarrow> a = b"
  by (auto simp: sock_inv_def)

lemma sock_inv_open: "sock_inv s \<Longrightarrow> sk_objs s a = Some fd \<Longrightarrow> 0 \<le> fd \<Longrightarrow> fd \<in> sk_fds s"
  by (auto simp: sock_inv_def owned_def)

lemma sock_inv_fds: "sock_inv s \<Longrightarrow> sk_fds s = owned (sk_objs s)"
  by (simp add: sock_inv_def)

lemma owned_ran: "owned objs = {fd \<in> ran objs. 0 \<le> fd}"
  by (auto simp: owned_def ran_def)

lemma ran_without: "objs a = Some fd \<Longrightarrow> ran objs = insert fd (ran (objs(a := None)))"
  using ran_map_upd [of "objs(a := None)" a fd] by (simp add: fun_upd_idem)

lemma owned_new: "objs a = None \<Longrightarrow> 0 \<le> fd \<Longrightarrow> owned (objs(a \<mapsto> fd)) = insert fd (owned objs)"
  by (auto simp: owned_ran)

lemma owned_drop:
  assumes "objs a = Some fd" and "\<And>b. objs b = Some fd \<Longrightarrow> 0 \<le> fd \<Longrightarrow> a = b"
  shows "owned (objs(a := None)) = owned objs - {fd}"
proof -
  have "0 \<le> fd \<Longrightarrow> fd \<notin> ran (objs(a := None))"
    using assms(2) by (auto simp: ran_def)
  then show ?thesis by (auto simp: owned_ran ran_without [of objs, OF assms(1)])
qed

lemma owned_move:
  assumes "objs a = None" and "objs b = Some fd"
  shows "owned (objs(a \<mapsto> fd, b \<mapsto> -1)) = owned objs"
proof -
  let ?o = "objs(b := None)"
  have "a \<noteq> b" using assms by auto
  then have "objs(a \<mapsto> fd, b \<mapsto> -1) = ?o(a \<mapsto> fd, b \<mapsto> -1)" by (auto simp: fun_eq_iff)
  moreover have "ran (?o(a \<mapsto> fd, b \<mapsto> -1)) = insert (-1) (insert fd (ran ?o))"
    using assms(1) \<open>a \<noteq> b\<close> by (subst ran_map_upd) simp_all
  ultimately have "ran (objs(a \<mapsto> fd, b \<mapsto> -1)) = insert (-1) (ran objs)"
    by (simp only: ran_without [of objs, OF assms(2)])
  then show ?thesis unfolding owned_ran by auto
qed

text \<open>A constructor leaves nothing open when it throws.\<close>

lemma UdpSocket_new_result:
  assumes "sy_socket sys \<notin> fds" and "UdpSocket_new port sys fds = Some (r, fds')"
  shows "r = Inr (sy_socket sys) \<and> 0 \<le> sy_socket sys \<and> fds' = insert (sy_socket sys) fds \<or> (\<exists>e. r = Inl e) \<and> fds' = fds"
  using assms by (auto simp: UdpSocket_new_def close_fd_def Let_def split: if_splits)

lemma TcpServer_new_result:
  assumes "sy_socket sys \<notin> fds" and "TcpServer_new port sys fds = Some (r, fds')"
  shows "r = Inr (sy_socket sys) \<and> 0 \<le> sy_socket sys \<and> fds' = insert (sy_socket sys) fds \<or> (\<exists>e. r = Inl e) \<and> fds' = fds"
  using assms by (auto simp: TcpServer_new_def close_fd_def Let_def split: if_splits)

lemma sock_place_inv:
  assumes "sock_inv s" and "sk_objs s a = None"
    and "r = Inr fd \<and> 0 \<le> fd \<and> fd \<notin> sk_fds s \<and> fds' = insert fd (sk_fds s) \<or> (\<exists>e. r = Inl e) \<and> fds' = sk_fds s"
  shows "sock_inv (sock_place a (r, fds') s)"
  using assms(3)
proof
  assume r: "r = Inr fd \<and> 0 \<le> fd \<and> fd \<notin> sk_fds s \<and> fds' = insert fd (sk_fds s)"
  then have "owned ((sk_objs s)(a \<mapsto> fd)) = insert fd (owned (sk_objs s))"
    using assms(2) by (simp add: owned_new)
  with r assms(1) show ?thesis
    using sock_inv_open [OF assms(1)] sock_inv_unique [OF assms(1)]
    by (intro sock_invI) (auto simp: sock_place_def sock_inv_fds split: if_splits)
qed (use assms(1) in \<open>auto simp: sock_place_def sock_inv_def\<close>)

text \<open>Each operation on objects that exist is defined and keeps the ownership.\<close>

lemma sock_destroy_ok:
  assumes "sock_inv s" and "sk_objs s a = Some fd"
  shows "\<exists>s'. sock_destroy a s = Some s' \<and> sock_inv s' \<and> sk_objs s' = (sk_objs s)(a := None) \<and> sk_fds s' = sk_fds s - {fd}"
proof -
  have "close_owned fd (sk_fds s) = Some (sk_fds s - {fd})"
    using sock_inv_open [OF assms] sock_inv_fds [OF assms(1)] by (auto simp: close_owned_def close_fd_def owned_def)
  moreover have "owned ((sk_objs s)(a := None)) = owned (sk_objs s) - {fd}"
    using assms sock_inv_unique [OF assms(1,2)] by (intro owned_drop)
  then have "sock_inv (s\<lparr>sk_objs := (sk_objs s)(a := None), sk_fds := sk_fds s - {fd}\<rparr>)"
    using sock_inv_unique [OF assms(1)] sock_inv_fds [OF assms(1)] by (intro sock_invI) (auto split: if_splits)
  ultimately show ?thesis using assms(2) by (simp add: sock_destroy_def)
qed

lemma sock_move_ok:
  assumes "sock_inv s" and "sk_objs s a = None" and "sk_objs s b = Some fd"
  shows "\<exists>s'. sock_move a b s = Some s' \<and> sock_inv s' \<and> sk_objs s' = (sk_objs s)(a \<mapsto> fd, b \<mapsto> -1) \<and> sk_fds s' = sk_fds s"
proof -
  have "owned ((sk_objs s)(a \<mapsto> fd, b \<mapsto> -1)) = owned (sk_objs s)"
    using assms(2,3) by (rule owned_move)
  then have "sock_inv (s\<lparr>sk_objs := (sk_objs s)(a \<mapsto> fd, b \<mapsto> -1)\<rparr>)"
    using sock_inv_unique [OF assms(1)] sock_inv_fds [OF assms(1)] assms(3) by (intro sock_invI) (auto split: if_splits)
  then show ?thesis using assms(3) by (simp add: sock_move_def)
qed

lemma sock_assign_ok:
  assumes "sock_inv s" and "sk_objs s a = Some fd_a" and "sk_objs s b = Some fd_b" and "a \<noteq> b"
  shows "\<exists>s'. sock_assign a b s = Some s' \<and> sock_inv s' \<and> sk_objs s' = (sk_objs s)(a \<mapsto> fd_b, b \<mapsto> -1) \<and> sk_fds s' = sk_fds s - {fd_a}"
proof -
  obtain s1 where s1: "sock_destroy a s = Some s1" "sock_inv s1" "sk_objs s1 = (sk_objs s)(a := None)" "sk_fds s1 = sk_fds s - {fd_a}"
    using sock_destroy_ok [OF assms(1,2)] by blast
  have "\<exists>s'. sock_move a b s1 = Some s' \<and> sock_inv s' \<and> sk_objs s' = (sk_objs s1)(a \<mapsto> fd_b, b \<mapsto> -1) \<and> sk_fds s' = sk_fds s1"
    using s1(2,3) assms(3,4) by (intro sock_move_ok) auto
  moreover have "sock_assign a b s = sock_move a b s1"
    using s1(1) assms(2-4) by (auto simp: sock_assign_def sock_move_def sock_destroy_def bind_eq_Some_conv)
  ultimately show ?thesis using s1(3,4) by auto
qed

interpretation sock_owner: inductive_invariant sock_start sock_step sock_inv
proof
  show "sock_inv s" if "sock_start s" for s
    using that by (auto simp: sock_start_def sock_inv_def owned_def)
  show "sock_inv s'" if inv: "sock_inv s" and "sock_step s s'" for s s'
    using that(2)
  proof cases
    case (new_udp a sys port r)
    then show ?thesis
      using UdpSocket_new_result [of sys "sk_fds s" port "fst r" "snd r"] sock_place_inv [OF inv, of a "fst r" "sy_socket sys" "snd r"]
      by auto
  next
    case (new_server a sys port r)
    then show ?thesis
      using TcpServer_new_result [of sys "sk_fds s" port "fst r" "snd r"] sock_place_inv [OF inv, of a "fst r" "sy_socket sys" "snd r"]
      by auto
  next
    case (accept a fd fd' fds')
    then show ?thesis
      using sock_place_inv [OF inv, of a "Inr fd" fd fds'] by (auto simp: acceptConnection_def split: if_splits)
  next
    case (move a b)
    then show ?thesis
      using sock_move_ok [OF inv, of a b] by (auto simp: sock_move_def bind_eq_Some_conv)
  next
    case (assign a b)
    then obtain fd_a fd_b where objs: "sk_objs s a = Some fd_a" "sk_objs s b = Some fd_b"
      by (auto simp: sock_assign_def bind_eq_Some_conv)
    show ?thesis
    proof (cases "a = b")
      case True
      with assign objs inv show ?thesis by (simp add: sock_assign_def)
    next
      case False
      from sock_assign_ok [OF inv objs this] assign show ?thesis by auto
    qed
  next
    case (destroy a)
    then obtain fd where "sk_objs s a = Some fd" by (auto simp: sock_destroy_def bind_eq_Some_conv)
    from sock_destroy_ok [OF inv this] destroy show ?thesis by auto
  qed
qed

text \<open>
  C40. However the socket classes are used, with constructors that fail at any call included, every
  open descriptor belongs to exactly one object, and destroying or overwriting an object closes its
  descriptor and no other one: nothing is leaked and nothing is closed twice.
\<close>

theorem socket_ownership:
  assumes "reach sock_start sock_step s"
  shows "(\<forall>fd. fd \<in> sk_fds s \<longleftrightarrow> 0 \<le> fd \<and> (\<exists>!a. sk_objs s a = Some fd)) \<and>
     (\<forall>a fd. sk_objs s a = Some fd \<longrightarrow> (\<exists>s'. sock_destroy a s = Some s' \<and> sk_fds s' = sk_fds s - {fd})) \<and>
     (\<forall>a b fd fd'. sk_objs s a = Some fd \<longrightarrow> sk_objs s b = Some fd' \<longrightarrow> a \<noteq> b \<longrightarrow>
        (\<exists>s'. sock_assign a b s = Some s' \<and> sk_objs s' a = Some fd' \<and> sk_fds s' = sk_fds s - {fd}))"
proof -
  have inv: "sock_inv s" using sock_owner.reach_inv [OF assms] .
  have "fd \<in> sk_fds s \<longleftrightarrow> 0 \<le> fd \<and> (\<exists>!a. sk_objs s a = Some fd)" for fd
    using inv by (auto simp: sock_inv_def owned_def)
  moreover have "\<exists>s'. sock_destroy a s = Some s' \<and> sk_fds s' = sk_fds s - {fd}" if "sk_objs s a = Some fd" for a fd
    using sock_destroy_ok [OF inv that] by blast
  moreover have "\<exists>s'. sock_assign a b s = Some s' \<and> sk_objs s' a = Some fd' \<and> sk_fds s' = sk_fds s - {fd}"
    if "sk_objs s a = Some fd" "sk_objs s b = Some fd'" "a \<noteq> b" for a b fd fd'
    using sock_assign_ok [OF inv that] that(3) by auto
  ultimately show ?thesis by blast
qed

text \<open>Two accepted connections, the first object overwritten by the second.\<close>

theorem socket_ownership_witness:
  "\<exists>s s'. sk_objs s = [0 \<mapsto> 7, 1 \<mapsto> 8] \<and> sk_fds s = {7, 8} \<and> sock_assign 0 1 s = Some s' \<and> sk_fds s' = {8}"
proof -
  let ?s0 = "\<lparr>sk_objs = Map.empty, sk_fds = {}\<rparr>"
  let ?s1 = "sock_place 0 (Inr 7, {7}) ?s0"
  let ?s2 = "sock_place 1 (Inr 8, {7, 8}) ?s1"
  have "reach sock_start sock_step ?s0" by (rule reach_start) (simp add: sock_start_def)
  moreover have "sock_step ?s0 ?s1"
    by (rule sock_step.accept [of _ _ 7]) (simp_all add: acceptConnection_def)
  moreover have "sock_step ?s1 ?s2"
    by (rule sock_step.accept [of _ _ 8]) (auto simp: acceptConnection_def sock_place_def)
  ultimately have "reach sock_start sock_step ?s2" by (blast intro: reach_step)
  moreover have "sk_objs ?s2 0 = Some 7" "sk_objs ?s2 1 = Some 8" "(0 :: nat) \<noteq> 1" by (simp_all add: sock_place_def)
  ultimately have "\<exists>s'. sock_assign 0 1 ?s2 = Some s' \<and> sk_objs s' 0 = Some 8 \<and> sk_fds s' = sk_fds ?s2 - {7}"
    using socket_ownership [of ?s2] by blast
  moreover have "sk_objs ?s2 = [0 \<mapsto> 7, 1 \<mapsto> 8]" "sk_fds ?s2 = {7, 8}" "{7, 8} - {7} = {8 :: int}"
    by (auto simp: sock_place_def)
  ultimately show ?thesis by metis
qed

end
