(* ===== verification/Daemon_Main.thy ===== *)
theory Daemon_Main
  imports Hub_Server Vhci_Driver Sockets
begin

text \<open>
  The daemon's event loop (\<open>daemon/src/main.cpp\<close>): attaching a device, the two callbacks, and one
  event. The daemon's state extends the session server's by the port table, the set of descriptors
  registered with epoll, and the two listening descriptors.
\<close>

record daemon = hub +
  dm_vhci :: vhci
  dm_epoll :: "int set"
  dm_udp :: int
  dm_srv :: int

text \<open>What the system answers while one event is handled.\<close>

record daemon_env =
  e_udp :: "byte list option"
  e_accept :: int
  e_recv :: "recv_ans list"
  e_writes :: "send_ans list"
  e_reads :: "recv_ans list"
  e_sends :: "send_ans list"
  e_pair :: "(int \<times> int) option"
  e_attach :: sysfs_ans
  e_detach :: sysfs_ans

definition epollAdd :: "int \<Rightarrow> daemon \<Rightarrow> daemon" where
  "epollAdd fd d = d\<lparr>dm_epoll := insert fd (dm_epoll d)\<rparr>"

definition epollDel :: "int \<Rightarrow> daemon \<Rightarrow> daemon" where
  "epollDel fd d = d\<lparr>dm_epoll := dm_epoll d - {fd}\<rparr>"

text \<open>After \<open>epoll_create1\<close>, the server's constructors and the first two registrations.\<close>

definition daemon_start :: "daemon \<Rightarrow> bool" where
  "daemon_start d \<longleftrightarrow>
     sessions d = Map.empty \<and> vhci_fd_map d = Map.empty \<and> tcp_fd_map d = Map.empty \<and> pending d = {} \<and>
     heap d = Map.empty \<and> next_addr d = 0 \<and> open_fds d = {dm_udp d, dm_srv d} \<and>
     dm_vhci d = vhci_initial\<lparr>v_fd := v_fd (dm_vhci d)\<rparr> \<and> dm_epoll d = {dm_udp d, dm_srv d}"

text \<open>
  The server's constructor makes the two listening sockets; when the second constructor throws, the
  first socket is destroyed.
\<close>

definition HubServer_new :: "sock_sys \<Rightarrow> sock_sys \<Rightarrow> int set \<Rightarrow> ((setup_error + int \<times> int) \<times> int set) option" where
  "HubServer_new udp_sys tcp_sys fds = do {
     (r, fds1) \<leftarrow> UdpSocket_new DAEMON_PORT udp_sys fds;
     case r of
       Inl e \<Rightarrow> Some (Inl e, fds1)
     | Inr udp \<Rightarrow> do {
         (r', fds2) \<leftarrow> TcpServer_new DAEMON_PORT tcp_sys fds1;
         case r' of
           Inl e \<Rightarrow> do { fds3 \<leftarrow> close_owned udp fds2; Some (Inl e, fds3) }
         | Inr srv \<Rightarrow> Some (Inr (udp, srv), fds2) } }"

text \<open>\<open>main\<close> up to the loop: \<open>return 1\<close>, an exception nothing catches, or the loop's first state.\<close>

datatype main_setup_result = Main_Exit int | Main_Uncaught setup_error | Main_Loop daemon

definition main_setup :: "int \<Rightarrow> int \<Rightarrow> sock_sys \<Rightarrow> sock_sys \<Rightarrow> main_setup_result option" where
  "main_setup vhci_open epoll_created udp_sys tcp_sys =
     (let (vhci, ok) = vhci_init vhci_initial vhci_open
      in if \<not> ok then Some (Main_Exit 1)
         else if epoll_created < 0 then Some (Main_Exit 1)
         else do {
           (r, fds) \<leftarrow> HubServer_new udp_sys tcp_sys {};
           case r of
             Inl e \<Rightarrow> Some (Main_Uncaught e)
           | Inr (udp, srv) \<Rightarrow>
               Some (Main_Loop (epollAdd srv (epollAdd udp
                 \<lparr>sessions = Map.empty, vhci_fd_map = Map.empty, tcp_fd_map = Map.empty, pending = {}, heap = Map.empty,
                  next_addr = 0, open_fds = fds, dm_vhci = vhci, dm_epoll = {}, dm_udp = udp, dm_srv = srv\<rparr>))) })"

text \<open>A server that could not be set up leaves nothing open, and one that could has its two sockets.\<close>

lemma HubServer_new_result:
  assumes "sy_socket udp_sys \<notin> fds" and "sy_socket tcp_sys \<notin> insert (sy_socket udp_sys) fds"
    and "HubServer_new udp_sys tcp_sys fds = Some (r, fds')"
  shows "r = Inr (sy_socket udp_sys, sy_socket tcp_sys) \<and> fds' = {sy_socket udp_sys, sy_socket tcp_sys} \<union> fds \<or>
     (\<exists>e. r = Inl e) \<and> fds' = fds"
  using assms
  by (auto simp: HubServer_new_def UdpSocket_new_def TcpServer_new_def close_owned_def close_fd_def Let_def split: if_splits)

lemma HubServer_new_defined:
  assumes "sy_socket udp_sys \<notin> fds" and "sy_socket tcp_sys \<notin> insert (sy_socket udp_sys) fds"
  shows "\<exists>r fds'. HubServer_new udp_sys tcp_sys fds = Some (r, fds')"
  using assms by (auto simp: HubServer_new_def UdpSocket_new_def TcpServer_new_def close_owned_def close_fd_def Let_def)

text \<open>
  Set-up always comes to an end, with both descriptors of different numbers; when it reaches the loop,
  the loop's states are the ones the theorems on \<open>daemon_start\<close> are about.
\<close>

lemma main_setup_starts:
  assumes "sy_socket tcp_sys \<noteq> sy_socket udp_sys"
  shows "\<exists>r. main_setup vhci_open epoll_created udp_sys tcp_sys = Some r \<and> (\<forall>d. r = Main_Loop d \<longrightarrow> daemon_start d)"
proof -
  obtain r fds where r: "HubServer_new udp_sys tcp_sys {} = Some (r, fds)"
    using HubServer_new_defined [of udp_sys "{}" tcp_sys] assms by auto
  then show ?thesis
    using HubServer_new_result [of udp_sys "{}" tcp_sys r fds] assms
    by (auto simp: main_setup_def vhci_init_def daemon_start_def epollAdd_def vhci_initial_def)
qed

section \<open>Attaching and detaching\<close>

definition usb_devid :: "u8 \<Rightarrow> u32" where
  "usb_devid dev_id = push_bit 16 1 OR (ucast dev_id + 1)"

definition doUsbAttach :: "daemon_env \<Rightarrow> u8 \<Rightarrow> u8 \<Rightarrow> u16 \<Rightarrow> daemon \<Rightarrow> daemon" where
  "doUsbAttach env dev_id spd dev_addr d =
     (case e_pair env of
        None \<Rightarrow> d
      | Some (spv0, spv1) \<Rightarrow>
          (case attach (dm_vhci d) spv0 (usb_devid dev_id) (ucast spd) (e_attach env) of
             (v', port, _) \<Rightarrow>
               if port < 0 then d\<lparr>dm_vhci := v'\<rparr>
               else
                 let client_fd = uint dev_addr
                 in (case extractPendingSocket client_fd (d\<lparr>dm_vhci := v'\<rparr>) of
                       (d1, None) \<Rightarrow> d1
                     | (d1, Some fd) \<Rightarrow>
                         let d2 = epollAdd fd (d1\<lparr>open_fds := open_fds d1 \<union> {spv0, spv1}\<rparr>);
                             d3 = addSession dev_id port spv1 spv0 dev_addr (Some fd) d2
                         in epollAdd spv1 d3)))"

definition connect_cb :: "daemon_env \<Rightarrow> u8 \<Rightarrow> u8 \<Rightarrow> u16 \<Rightarrow> daemon \<Rightarrow> daemon option" where
  "connect_cb env dev_id spd dev_addr d = Some (doUsbAttach env dev_id spd dev_addr d)"

definition disconnect_cb :: "daemon_env \<Rightarrow> u8 \<Rightarrow> daemon \<Rightarrow> daemon option" where
  "disconnect_cb env dev_id d =
     (case findByDeviceId dev_id d of
        None \<Rightarrow> Some d
      | Some a \<Rightarrow> do {
          s \<leftarrow> heap d a;
          let d1 = epollDel (dv_vhci_fd s) d;
          let d2 = (case dv_tcp_sock s of None \<Rightarrow> d1 | Some fd \<Rightarrow> epollDel fd d1);
          let d3 = (if dv_vhci_port s \<ge> 0
                    then d2\<lparr>dm_vhci := fst (detach (dm_vhci d2) (dv_vhci_port s) (e_detach env))\<rparr> else d2);
          removeSession dev_id d3 })"

section \<open>Events\<close>

datatype daemon_out = D_Nothing | D_Udp "byte list option" | D_Hub hub_out | D_Wire int "byte list" | D_Blocked

text \<open>
  The kernel hung up on a session's socket pair: the device is attached again with a new pair. The
  session's TCP socket is moved out first, and closed at the end unless a new session took it.
\<close>

definition reset_detached :: "int \<Rightarrow> nat \<Rightarrow> DeviceSession \<Rightarrow> daemon \<Rightarrow> daemon" where
  "reset_detached ev_fd a s d =
     (let d1 = epollDel ev_fd (d\<lparr>heap := (heap d)(a \<mapsto> s\<lparr>dv_tcp_sock := None\<rparr>)\<rparr>)
      in d1\<lparr>dm_vhci := freePort (dm_vhci d1) (dv_vhci_port s)\<rparr>)"

definition usb_reset :: "daemon_env \<Rightarrow> int \<Rightarrow> nat \<Rightarrow> DeviceSession \<Rightarrow> daemon \<Rightarrow> daemon option" where
  "usb_reset env ev_fd a s d =
     (let dev_id = dv_device_id s;
          tcp_sock = dv_tcp_sock s
      in do {
        d3 \<leftarrow> removeSession dev_id (reset_detached ev_fd a s d);
        let closed = (\<lambda>d'. d'\<lparr>open_fds := open_fds d' - set_option tcp_sock\<rparr>);
        case e_pair env of
          None \<Rightarrow> Some (closed d3)
        | Some (spv0, spv1) \<Rightarrow>
            (case attach (dm_vhci d3) spv0 (usb_devid dev_id) 2 (e_attach env) of
               (v', port, _) \<Rightarrow>
                 if port \<ge> 0 then do {
                   _ \<leftarrow> tcp_sock;
                   let d4 = addSession dev_id port spv1 spv0 (dv_dev_addr s) tcp_sock
                              (d3\<lparr>dm_vhci := v', open_fds := open_fds d3 \<union> {spv0, spv1}\<rparr>);
                   Some (epollAdd spv1 d4) }
                 else Some (closed (d3\<lparr>dm_vhci := v'\<rparr>))) })"

definition vhci_event :: "daemon_env \<Rightarrow> int \<Rightarrow> bool \<Rightarrow> bool \<Rightarrow> nat \<Rightarrow> daemon \<Rightarrow> (daemon \<times> daemon_out) option" where
  "vhci_event env ev_fd hup inn a d = do {
     s \<leftarrow> heap d a;
     if hup then
       (if dv_vhci_port s \<ge> 0 then map_option (\<lambda>d'. (d', D_Nothing)) (usb_reset env ev_fd a s d)
        else Some (d, D_Nothing))
     else if inn then do {
       ph \<leftarrow> dv_handler s;
       case onVhciReadable ph (e_reads env) (e_sends env) of
         None \<Rightarrow> Some (d, D_Blocked)
       | Some (ok, ph', wire) \<Rightarrow>
           let d1 = d\<lparr>heap := (heap d)(a \<mapsto> s\<lparr>dv_handler := Some ph'\<rparr>)\<rparr>
           in if ok then Some (d1, D_Wire (ph_sock ph) wire)
              else map_option (\<lambda>d'. (d', D_Wire (ph_sock ph) wire)) (removeSession (dv_device_id s) d1) }
     else Some (d, D_Nothing) }"

definition hub_readable :: "daemon_env \<Rightarrow> int \<Rightarrow> daemon \<Rightarrow> (daemon \<times> daemon_out) option" where
  "hub_readable env fd d =
     map_option (\<lambda>(d', out). (d', D_Hub out))
       (onTcpReadable (disconnect_cb env) (connect_cb env) fd (e_recv env) (e_writes env) d)"

text \<open>\<open>hup\<close> is any of \<open>EPOLLRDHUP\<close>, \<open>EPOLLHUP\<close> and \<open>EPOLLERR\<close>, \<open>inn\<close> is \<open>EPOLLIN\<close>.\<close>

definition handle_event :: "daemon_env \<Rightarrow> int \<Rightarrow> bool \<Rightarrow> bool \<Rightarrow> daemon \<Rightarrow> (daemon \<times> daemon_out) option" where
  "handle_event env ev_fd hup inn d =
     (if ev_fd = dm_udp d then Some (d, D_Udp (onUdpReadable (e_udp env)))
      else if ev_fd = dm_srv d then Some (onTcpAccept (e_accept env) d, D_Nothing)
      else
        let d0 = fst (extractPendingSocket (-2) d)
        in (case findByTcpFd ev_fd d0 of
              Some a \<Rightarrow>
                if hup then do {
                  s \<leftarrow> heap d0 a;
                  map_option (\<lambda>d'. (d', D_Nothing)) (removeSession (dv_device_id s) d0) }
                else if inn then hub_readable env ev_fd d0
                else Some (d0, D_Nothing)
            | None \<Rightarrow>
                (case findByVhciFd ev_fd d0 of
                   Some a \<Rightarrow> vhci_event env ev_fd hup inn a d0
                 | None \<Rightarrow> if inn then hub_readable env ev_fd d0 else Some (d0, D_Nothing))))"

text \<open>The loop: epoll reports only descriptors registered with it.\<close>

inductive daemon_step :: "daemon \<Rightarrow> daemon \<Rightarrow> bool" where
  event: "ev_fd \<in> dm_epoll d \<Longrightarrow> handle_event env ev_fd hup inn d = Some (d', out) \<Longrightarrow> daemon_step d d'"

inductive_cases daemon_step_cases: "daemon_step d d'"

section \<open>No accepted connection is ever read\<close>

text \<open>Only the two listening descriptors are ever registered, so no session is ever made.\<close>

definition idle_inv :: "daemon \<Rightarrow> bool" where
  "idle_inv d \<longleftrightarrow> dm_epoll d = {dm_udp d, dm_srv d} \<and> sessions d = Map.empty \<and> heap d = Map.empty"

interpretation daemon_idle: inductive_invariant daemon_start daemon_step idle_inv
proof
  show "idle_inv d" if "daemon_start d" for d
    using that by (simp add: daemon_start_def idle_inv_def)
  show "idle_inv d'" if "idle_inv d" and "daemon_step d d'" for d d'
    using that(2,1) by cases (auto simp: idle_inv_def handle_event_def onTcpAccept_def split: if_splits)
qed

text \<open>
  C7. The daemon as written never serves a device. A connection it accepts is kept as pending, but
  its descriptor is not registered with epoll, so no event is ever delivered for it: in every state
  the loop can reach, whatever clients connect and send, there is no session, and only the two
  listening descriptors are watched.
\<close>

theorem daemon_never_attaches:
  assumes "reach daemon_start daemon_step d"
  shows "sessions d = Map.empty \<and> heap d = Map.empty \<and> dm_epoll d = {dm_udp d, dm_srv d}"
  using daemon_idle.reach_inv [OF assms] by (simp add: idle_inv_def)

definition daemon_example :: daemon where
  "daemon_example = \<lparr>sessions = Map.empty, vhci_fd_map = Map.empty, tcp_fd_map = Map.empty, pending = {},
     heap = Map.empty, next_addr = 0, open_fds = {3, 4}, dm_vhci = vhci_initial\<lparr>v_fd := 5\<rparr>, dm_epoll = {3, 4},
     dm_udp = 3, dm_srv = 4\<rparr>"

definition env_accept :: daemon_env where
  "env_accept = \<lparr>e_udp = None, e_accept = 9, e_recv = [], e_writes = [], e_reads = [], e_sends = [],
     e_pair = Some (10, 11), e_attach = (True, 12), e_detach = (True, 1)\<rparr>"

lemma daemon_accepted_reach: "reach daemon_start daemon_step (onTcpAccept 9 daemon_example)"
proof -
  have "reach daemon_start daemon_step daemon_example"
    by (rule reach_start) (simp add: daemon_start_def daemon_example_def)
  moreover have "daemon_step daemon_example (onTcpAccept 9 daemon_example)"
    by (rule daemon_step.event [of 4 _ env_accept False True _ D_Nothing])
      (simp_all add: daemon_example_def handle_event_def env_accept_def)
  ultimately show ?thesis by (rule reach_step)
qed

theorem daemon_never_attaches_witness:
  "9 \<in> pending (onTcpAccept 9 daemon_example) \<and> 9 \<notin> dm_epoll (onTcpAccept 9 daemon_example)"
  using daemon_never_attaches [OF daemon_accepted_reach]
  by (simp add: onTcpAccept_def daemon_example_def)

section \<open>Invariant of the daemon\<close>

text \<open>
  What follows is about the operations themselves, whether or not the loop reaches them: in a
  consistent state every event is handled without using a freed session, and the state stays
  consistent.
\<close>

definition daemon_inv :: "daemon \<Rightarrow> bool" where
  "daemon_inv d \<longleftrightarrow> hub_inv d \<and> fds_inv d \<and> vhci_ok (dm_vhci d)"

text \<open>The system hands out descriptors that are not open.\<close>

definition pair_fresh :: "daemon_env \<Rightarrow> daemon \<Rightarrow> bool" where
  "pair_fresh env d \<longleftrightarrow>
     (\<forall>a b. e_pair env = Some (a, b) \<longrightarrow> 0 \<le> a \<and> 0 \<le> b \<and> a \<noteq> b \<and> a \<notin> open_fds d \<and> b \<notin> open_fds d)"

definition env_fresh :: "daemon_env \<Rightarrow> daemon \<Rightarrow> bool" where
  "env_fresh env d \<longleftrightarrow> pair_fresh env d \<and> e_accept env \<notin> open_fds d"

lemma daemon_fields [simp]:
  "hub_inv (d\<lparr>dm_vhci := v\<rparr>) = hub_inv d" "hub_inv (d\<lparr>dm_epoll := p\<rparr>) = hub_inv d"
  "fds_inv (d\<lparr>dm_vhci := v\<rparr>) = fds_inv d" "fds_inv (d\<lparr>dm_epoll := p\<rparr>) = fds_inv d"
  "owned_fds (d\<lparr>dm_vhci := v\<rparr>) = owned_fds d" "owned_fds (d\<lparr>dm_epoll := p\<rparr>) = owned_fds d"
  "owned_fds (d\<lparr>open_fds := F\<rparr>) = owned_fds d" "owned_fds (d\<lparr>pending := P\<rparr>) = owned_fds d"
  by (simp_all add: hub_inv_def session_linked_def fds_inv_def owned_fds_def)

lemma vhci_ok_ops:
  "vhci_ok v \<Longrightarrow> attach v fd devid spd ans = (v', p, line) \<Longrightarrow> vhci_ok v'"
  "vhci_ok v \<Longrightarrow> vhci_ok (freePort v p)" "vhci_ok v \<Longrightarrow> vhci_ok (fst (detach v p ans))"
  using attach_cases [of v fd devid spd ans v' p line]
  by (auto simp: vhci_ok_def freePort_def detach_def Let_def)

lemma addSession_extension:
  "sessions d dev = None \<Longrightarrow>
     dm_vhci (addSession dev port vfd kfd addr (Some fd) d) = dm_vhci d \<and>
     dm_epoll (addSession dev port vfd kfd addr (Some fd) d) = dm_epoll d \<and>
     open_fds (addSession dev port vfd kfd addr (Some fd) d) = open_fds d \<and>
     pending (addSession dev port vfd kfd addr (Some fd) d) = pending d"
  for d :: daemon
  by (simp add: addSession_fresh)

text \<open>A session on descriptors that are open and nobody's keeps the daemon consistent.\<close>

lemma daemon_inv_add:
  assumes inv: "daemon_inv d" and dev: "sessions d dev = None"
    and new: "{vfd, kfd, fd} \<subseteq> open_fds d" "{vfd, kfd, fd} \<inter> (owned_fds d \<union> pending d) = {}"
    and pos: "0 \<le> vfd" "0 \<le> kfd" "0 \<le> fd" "vfd \<noteq> kfd" "fd \<noteq> vfd" "fd \<noteq> kfd"
  shows "daemon_inv (addSession dev port vfd kfd addr (Some fd) d)"
proof -
  have "vhci_fd_map d vfd = None" "tcp_fd_map d fd = None"
    using inv new(2) unowned_lookup [of d] by (auto simp: daemon_inv_def)
  then have "hub_inv (addSession dev port vfd kfd addr (Some fd) d)"
    using inv dev new(2) by (intro hub_inv_add) (auto simp: daemon_inv_def)
  moreover have "fds_inv (addSession dev port vfd kfd addr (Some fd) d)"
    using inv dev new pos by (intro fds_inv_add) (auto simp: daemon_inv_def)
  ultimately show ?thesis
    using inv addSession_extension [OF dev] by (simp add: daemon_inv_def)
qed

lemma destroy_extension [simp]:
  "dm_vhci (destroy a d) = dm_vhci d" "dm_epoll (destroy a d) = dm_epoll d"
  for d :: daemon
  by (simp_all add: destroy_def split: option.split)

lemma removeSession_extension:
  fixes d :: daemon
  assumes "removeSession dev d = Some d'"
  shows "dm_vhci d' = dm_vhci d \<and> dm_epoll d' = dm_epoll d"
proof (cases "sessions d dev")
  case None
  with assms show ?thesis by (simp add: removeSession_def)
next
  case (Some a)
  with assms obtain s where "heap d a = Some s" by (cases "heap d a") (simp_all add: removeSession_def)
  with Some assms show ?thesis by (auto simp: removeSession_def Let_def)
qed

lemma daemon_inv_remove:
  assumes "daemon_inv d"
  shows "\<exists>d'. removeSession dev d = Some d' \<and> daemon_inv d' \<and> sessions d' dev = None \<and>
     open_fds d' \<subseteq> open_fds d \<and> pending d' = pending d"
proof -
  obtain d' where d': "removeSession dev d = Some d'" "hub_inv d'" "sessions d' dev = None"
    using hub_inv_remove [of d dev] assms by (auto simp: daemon_inv_def)
  then show ?thesis
    using assms fds_inv_remove [of d dev d'] removeSession_extension [OF d'(1)] by (auto simp: daemon_inv_def)
qed

lemma daemon_inv_parts:
  "daemon_inv d \<Longrightarrow> hub_inv d" "daemon_inv d \<Longrightarrow> fds_inv d" "daemon_inv d \<Longrightarrow> vhci_ok (dm_vhci d)"
  by (simp_all add: daemon_inv_def)

lemma daemon_inv_epoll [simp]: "daemon_inv (d\<lparr>dm_epoll := p\<rparr>) = daemon_inv d" "daemon_inv (epollAdd fd d) = daemon_inv d" "daemon_inv (epollDel fd d) = daemon_inv d"
  by (simp_all add: daemon_inv_def epollAdd_def epollDel_def)

lemma daemon_inv_vhci: "daemon_inv d \<Longrightarrow> vhci_ok v \<Longrightarrow> daemon_inv (d\<lparr>dm_vhci := v\<rparr>)"
  by (simp add: daemon_inv_def)

lemma daemon_inv_open: "daemon_inv d \<Longrightarrow> daemon_inv (d\<lparr>open_fds := open_fds d \<union> F\<rparr>)"
  by (simp add: daemon_inv_def fds_inv_open_more)

lemma daemon_inv_take_pending:
  assumes "daemon_inv d"
  shows "daemon_inv (d\<lparr>pending := pending d - {fd}\<rparr>)"
    and "fd \<in> pending d \<Longrightarrow> daemon_inv (d\<lparr>pending := pending d - {fd}, open_fds := open_fds d - {fd}\<rparr>)"
proof -
  have "hub_inv (d\<lparr>pending := pending d - {fd}\<rparr>)"
    using pending_not_session daemon_inv_parts(1) [OF assms] by (intro hub_inv_pending) auto
  then show "daemon_inv (d\<lparr>pending := pending d - {fd}\<rparr>)"
    and "fd \<in> pending d \<Longrightarrow> daemon_inv (d\<lparr>pending := pending d - {fd}, open_fds := open_fds d - {fd}\<rparr>)"
    using assms fds_inv_drop_pending [of d fd] by (simp_all add: daemon_inv_def)
qed

lemma daemon_inv_pending_open: "daemon_inv d \<Longrightarrow> fd \<in> pending d \<Longrightarrow> fd \<in> open_fds d \<and> fd \<notin> owned_fds d \<and> 0 \<le> fd"
  by (auto simp: daemon_inv_def fds_inv_def)

lemma daemon_inv_owned_open: "daemon_inv d \<Longrightarrow> owned_fds d \<union> pending d \<subseteq> open_fds d"
  by (auto simp: daemon_inv_def fds_inv_def)

lemma doUsbAttach_inv:
  assumes inv: "daemon_inv d" and fresh: "pair_fresh env d" and dev: "sessions d dev = None"
  shows "daemon_inv (doUsbAttach env dev spd addr d)"
proof (cases "e_pair env")
  case None
  with inv show ?thesis by (simp add: doUsbAttach_def)
next
  case (Some pair)
  obtain a b where ab: "pair = (a, b)" by (cases pair)
  obtain v' port line where att: "attach (dm_vhci d) a (usb_devid dev) (ucast spd) (e_attach env) = (v', port, line)"
    by (metis prod_cases3)
  have v': "vhci_ok v'" using vhci_ok_ops(1) [OF daemon_inv_parts(3) [OF inv] att] .
  let ?fd = "uint addr"
  show ?thesis
  proof (cases "port < 0 \<or> ?fd \<notin> pending d")
    case True
    with Some ab att inv v' show ?thesis
      by (auto simp: doUsbAttach_def extractPendingSocket_def daemon_inv_vhci)
  next
    case False
    let ?d = "d\<lparr>dm_vhci := v', pending := pending d - {?fd}\<rparr>"
    have d: "daemon_inv ?d"
      using daemon_inv_vhci [OF inv v'] daemon_inv_take_pending(1) [of "d\<lparr>dm_vhci := v'\<rparr>" ?fd] by simp
    have "daemon_inv (addSession dev port b a addr (Some ?fd) (epollAdd ?fd (?d\<lparr>open_fds := open_fds ?d \<union> {a, b}\<rparr>)))"
    proof (rule daemon_inv_add)
      show "daemon_inv (epollAdd ?fd (?d\<lparr>open_fds := open_fds ?d \<union> {a, b}\<rparr>))"
        using daemon_inv_open [OF d, of "{a, b}"] by simp
    qed (use dev fresh Some ab False daemon_inv_pending_open [OF inv, of ?fd] daemon_inv_owned_open [OF inv] in
        \<open>auto simp: pair_fresh_def epollAdd_def\<close>)
    then show ?thesis
      using Some ab att False
      by (simp add: doUsbAttach_def extractPendingSocket_def Let_def)
  qed
qed

lemma disconnect_cb_inv:
  assumes inv: "daemon_inv d"
  shows "\<exists>d'. disconnect_cb env dev d = Some d' \<and> daemon_inv d' \<and> sessions d' dev = None \<and>
     open_fds d' \<subseteq> open_fds d \<and> pending d' = pending d"
proof (cases "findByDeviceId dev d")
  case None
  with inv show ?thesis by (simp add: disconnect_cb_def findByDeviceId_def)
next
  case (Some a)
  obtain s fd where s: "heap d a = Some s" "dv_tcp_sock s = Some fd"
    using registry.same_session [OF daemon_inv_parts(1) [OF inv] Some] by blast
  let ?d1 = "epollDel fd (epollDel (dv_vhci_fd s) d)"
  let ?d = "if dv_vhci_port s \<ge> 0
            then ?d1\<lparr>dm_vhci := fst (detach (dm_vhci ?d1) (dv_vhci_port s) (e_detach env))\<rparr> else ?d1"
  have d1: "daemon_inv ?d1" using inv by simp
  then have "daemon_inv ?d"
    using daemon_inv_vhci [OF d1 vhci_ok_ops(3) [OF daemon_inv_parts(3) [OF d1]]] by simp
  from daemon_inv_remove [OF this, of dev] Some s show ?thesis
    by (simp add: disconnect_cb_def Let_def) (simp add: epollDel_def split: if_splits)
qed

lemma pair_fresh_mono: "pair_fresh env d \<Longrightarrow> open_fds d' \<subseteq> open_fds d \<Longrightarrow> pair_fresh env d'"
  by (auto simp: pair_fresh_def)

lemma on_device_event_inv:
  assumes inv: "daemon_inv d" and fresh: "pair_fresh env d"
  shows "\<exists>d'. on_device_event (disconnect_cb env) (connect_cb env) fd dep d = Some d' \<and> daemon_inv d'"
proof -
  let ?gone = "if findByDeviceId (dep_device_id dep) d \<noteq> None then disconnect_cb env (dep_device_id dep) d else Some d"
  have "\<exists>d1. ?gone = Some d1 \<and> daemon_inv d1 \<and> sessions d1 (dep_device_id dep) = None \<and> open_fds d1 \<subseteq> open_fds d"
    using disconnect_cb_inv [OF inv, of env "dep_device_id dep"] inv by (auto simp: findByDeviceId_def)
  then obtain d1 where d1: "?gone = Some d1"
    and inv1: "daemon_inv d1" "sessions d1 (dep_device_id dep) = None" "open_fds d1 \<subseteq> open_fds d"
    by blast
  have "daemon_inv (doUsbAttach env (dep_device_id dep) (speed dep) (of_int fd) d1)"
    using inv1 pair_fresh_mono [OF fresh] by (intro doUsbAttach_inv) auto
  then show ?thesis
    using d1 inv1 inv disconnect_cb_inv [OF inv, of env "dep_device_id dep"]
    by (auto simp: on_device_event_def connect_cb_def)
qed

lemma onTcpPacket_inv:
  assumes inv: "daemon_inv d" and fresh: "pair_fresh env d"
  shows "\<exists>d' out. onTcpPacket (disconnect_cb env) (connect_cb env) fd writes hdr payload d = Some (d', out) \<and> daemon_inv d'"
proof (cases "cmd_type hdr = CMD_DEVICE_EVENT")
  case True
  then show ?thesis
    using inv on_device_event_inv [OF inv fresh, of fd] by (cases "dec_DeviceEvent payload") (fastforce simp: onTcpPacket_def)+
next
  case other: False
  show ?thesis
  proof (cases "cmd_type hdr = CMD_RAW_DATA \<and> sessions d (device_id hdr) \<noteq> None")
    case True
    then obtain a where a: "sessions d (device_id hdr) = Some a" by auto
    then obtain s where s: "heap d a = Some s" using hub_invD(2) [OF daemon_inv_parts(1) [OF inv]] by blast
    then obtain ph where "dv_handler s = Some ph"
      using hub_inv_linked [OF daemon_inv_parts(1) [OF inv]] by (fastforce simp: session_linked_def)
    with True other a s inv show ?thesis by (simp add: onTcpPacket_def)
  next
    case False
    with other inv show ?thesis by (auto simp: onTcpPacket_def)
  qed
qed

lemma hub_readable_inv:
  assumes inv: "daemon_inv d" and fresh: "pair_fresh env d"
  shows "\<exists>d' out. hub_readable env fd d = Some (d', out) \<and> daemon_inv d'"
proof -
  have live: "\<exists>s. heap d a = Some s" if "tcp_fd_map d fd = Some a" for a
    using hub_invD(4) [OF daemon_inv_parts(1) [OF inv] that] by blast
  then have "readTcpPacket fd (e_recv env) d \<noteq> None"
    by (cases "tcp_fd_map d fd") (auto simp: readTcpPacket_def)
  then obtain r where r: "readTcpPacket fd (e_recv env) d = Some r" by blast
  show ?thesis
  proof (cases r)
    case TR_Blocked
    with r inv show ?thesis by (simp add: hub_readable_def onTcpReadable_def)
  next
    case (TR_Packet hdr payload)
    with r onTcpPacket_inv [OF inv fresh, of fd "e_writes env" hdr payload] show ?thesis
      by (auto simp: hub_readable_def onTcpReadable_def)
  next
    case TR_Fail
    show ?thesis
    proof (cases "fd \<in> pending d")
      case True
      with r TR_Fail daemon_inv_take_pending(2) [OF inv True] show ?thesis
        by (simp add: hub_readable_def onTcpReadable_def)
    next
      case False
      show ?thesis
      proof (cases "tcp_fd_map d fd")
        case None
        with r TR_Fail False inv show ?thesis by (simp add: hub_readable_def onTcpReadable_def)
      next
        case (Some a)
        then obtain s where s: "heap d a = Some s" using live by blast
        obtain d' where "disconnect_cb env (dv_device_id s) d = Some d'" "daemon_inv d'"
          using disconnect_cb_inv [OF inv] by blast
        with r TR_Fail False Some s show ?thesis by (simp add: hub_readable_def onTcpReadable_def)
      qed
    qed
  qed
qed

lemma daemon_inv_cong:
  assumes "sessions d = sessions e" "vhci_fd_map d = vhci_fd_map e" "tcp_fd_map d = tcp_fd_map e" "pending d = pending e"
    "heap d = heap e" "next_addr d = next_addr e" "open_fds d = open_fds e" "vhci_ok (dm_vhci d)"
    and "daemon_inv e"
  shows "daemon_inv d"
  using assms by (simp add: daemon_inv_def hub_inv_def session_linked_def fds_inv_def owned_fds_def)

lemma reset_detached_fields [simp]:
  "sessions (reset_detached fd a s d) = sessions d" "vhci_fd_map (reset_detached fd a s d) = vhci_fd_map d"
  "tcp_fd_map (reset_detached fd a s d) = tcp_fd_map d" "pending (reset_detached fd a s d) = pending d"
  "next_addr (reset_detached fd a s d) = next_addr d" "open_fds (reset_detached fd a s d) = open_fds d"
  "heap (reset_detached fd a s d) = (heap d)(a \<mapsto> s\<lparr>dv_tcp_sock := None\<rparr>)"
  "dm_vhci (reset_detached fd a s d) = freePort (dm_vhci d) (dv_vhci_port s)"
  by (simp_all add: reset_detached_def epollDel_def)

text \<open>
  After the session of a reset device is removed: the maps are those of an ordinary removal, except
  that the entry of its TCP socket stays, and the socket stays open.
\<close>

lemma reset_removed:
  assumes inv: "daemon_inv d" and s: "heap d a = Some s"
  shows "\<exists>fd d3 D. dv_tcp_sock s = Some fd \<and> removeSession (dv_device_id s) (reset_detached ev_fd a s d) = Some d3 \<and>
     dm_vhci d3 = freePort (dm_vhci d) (dv_vhci_port s) \<and> tcp_fd_map d3 fd = Some a \<and> heap d3 a = None \<and>
     daemon_inv D \<and> sessions D (dv_device_id s) = None \<and> fd \<in> open_fds D \<and> fd \<notin> owned_fds D \<union> pending D \<and>
     open_fds D \<subseteq> open_fds d \<and> 0 \<le> fd \<and> heap D = (heap d)(a := None) \<and> pending D = pending d \<and>
     open_fds D = open_fds d - (session_fds s - {fd}) \<and> dm_udp D = dm_udp d \<and> dm_srv D = dm_srv d \<and>
     d3 = D\<lparr>tcp_fd_map := (tcp_fd_map D)(fd \<mapsto> a)\<rparr>"
proof -
  note hub = daemon_inv_parts(1) [OF inv] and fds = daemon_inv_parts(2) [OF inv]
  obtain fd where link: "sessions d (dv_device_id s) = Some a" "dv_tcp_sock s = Some fd" "tcp_fd_map d fd = Some a"
    using hub_inv_linked [OF hub s] by (auto simp: session_linked_def)
  have r: "s \<in> ran (heap d)" using s by (rule ranI)
  then have pos: "0 \<le> dv_vhci_fd s" "0 \<le> dv_kernel_fd s" "0 \<le> fd" "fd \<noteq> dv_vhci_fd s" "fd \<noteq> dv_kernel_fd s"
    using fds link(2) by (auto simp: fds_inv_def)
  have fd: "fd \<in> owned_fds d" using in_owned [OF s] link(2) by (auto simp: session_fds_def)
  obtain d0 where d0: "removeSession (dv_device_id s) d = Some d0" "daemon_inv d0" "sessions d0 (dv_device_id s) = None"
    "open_fds d0 \<subseteq> open_fds d" "pending d0 = pending d"
    using daemon_inv_remove [OF inv] by blast
  have live: "d0 = d\<lparr>sessions := (sessions d)(dv_device_id s := None), vhci_fd_map := (vhci_fd_map d)(dv_vhci_fd s := None),
      tcp_fd_map := (tcp_fd_map d)(fd := None), heap := (heap d)(a := None), open_fds := open_fds d - session_fds s\<rparr>"
    using d0(1) removeSession_live [OF hub link(1) s link(2)] by simp
  define d3 where "d3 = the (removeSession (dv_device_id s) (reset_detached ev_fd a s d))"
  have d3: "removeSession (dv_device_id s) (reset_detached ev_fd a s d) = Some d3"
    and f3: "sessions d3 = sessions d0" "vhci_fd_map d3 = vhci_fd_map d0" "tcp_fd_map d3 = tcp_fd_map d"
      "heap d3 = heap d0" "pending d3 = pending d0" "next_addr d3 = next_addr d0"
      "open_fds d3 = open_fds d - (session_fds s - {fd})" "dm_vhci d3 = freePort (dm_vhci d) (dv_vhci_port s)"
      "dm_udp d3 = dm_udp d" "dm_srv d3 = dm_srv d"
    using link pos unfolding d3_def removeSession_def live
    by (simp_all add: destroy_def session_fds_def) (simp_all add: reset_detached_def epollDel_def)
  have open3: "open_fds d3 = open_fds d0 \<union> {fd}"
    using f3(7) fd daemon_inv_owned_open [OF inv] link(2) unfolding live by (auto simp: session_fds_def)
  let ?D = "d3\<lparr>tcp_fd_map := (tcp_fd_map d)(fd := None)\<rparr>"
  have "daemon_inv ?D"
    by (rule daemon_inv_cong [OF _ _ _ _ _ _ _ _ daemon_inv_open [OF d0(2), of "{fd}"]])
      (simp_all add: f3(1-6,8) open3 live vhci_ok_ops(2) [OF daemon_inv_parts(3) [OF inv]])
  moreover have "fd \<notin> owned_fds d0"
    using fds_inv_remove [OF hub fds d0(1)] d0(1) s link(2) fds
    by (auto simp: live owned_fds_def ran_def fds_inv_def session_fds_def split: if_splits)
  then have "fd \<notin> owned_fds ?D \<union> pending ?D"
    using f3 d0(5) fd fds by (auto simp: owned_fds_def fds_inv_def)
  moreover have "d3 = ?D\<lparr>tcp_fd_map := (tcp_fd_map ?D)(fd \<mapsto> a)\<rparr>"
    using link(3) f3(3) by (intro daemon.equality) (simp_all add: fun_upd_idem)
  ultimately show ?thesis
    using d3 f3 open3 d0(3,4) link fd pos(3) daemon_inv_owned_open [OF inv]
    by (intro exI [of _ fd] exI [of _ d3] exI [of _ ?D]) (auto simp: live)
qed

lemma usb_reset_success:
  assumes inv: "daemon_inv d" and s: "heap d a = Some s" and fresh: "pair_fresh env d" and pair: "e_pair env = Some (x, y)"
    and att: "attach (freePort (dm_vhci d) (dv_vhci_port s)) x (usb_devid (dv_device_id s)) 2 (e_attach env) = (v', port, line)"
    and port: "0 \<le> port"
  shows "\<exists>d'. usb_reset env ev_fd a s d = Some d' \<and> daemon_inv d'"
proof -
  obtain fd d3 D where r: "dv_tcp_sock s = Some fd" "removeSession (dv_device_id s) (reset_detached ev_fd a s d) = Some d3"
      "dm_vhci d3 = freePort (dm_vhci d) (dv_vhci_port s)"
    and D: "daemon_inv D" "sessions D (dv_device_id s) = None" "fd \<in> open_fds D" "fd \<notin> owned_fds D \<union> pending D"
      "open_fds D \<subseteq> open_fds d" "d3 = D\<lparr>tcp_fd_map := (tcp_fd_map D)(fd \<mapsto> a)\<rparr>" "0 \<le> fd"
    using reset_removed [OF inv s, of ev_fd] by blast
  have v': "vhci_ok v'"
    by (rule vhci_ok_ops(1) [OF vhci_ok_ops(2) [OF daemon_inv_parts(3) [OF inv]] att])
  let ?add = "addSession (dv_device_id s) port y x (dv_dev_addr s) (Some fd)"
  have xy: "0 \<le> x" "0 \<le> y" "x \<noteq> y" "x \<notin> open_fds D" "y \<notin> open_fds D" "fd \<noteq> x" "fd \<noteq> y"
    using fresh pair D(3,5) by (auto simp: pair_fresh_def)
  have "daemon_inv (?add (D\<lparr>open_fds := open_fds D \<union> {x, y}\<rparr>))"
    by (rule daemon_inv_add [OF daemon_inv_open [OF D(1)]])
      (use D(2-4,7) xy daemon_inv_owned_open [OF D(1)] in auto)
  then have "daemon_inv (?add (d3\<lparr>dm_vhci := v', open_fds := open_fds d3 \<union> {x, y}\<rparr>))"
    by (rule daemon_inv_cong [rotated -1]) (use D(2) v' in \<open>simp_all add: D(6) addSession_fresh\<close>)
  then show ?thesis
    using r att port pair by (simp add: usb_reset_def Let_def)
qed

lemma drop_dummy: "daemon_inv d \<Longrightarrow> fst (extractPendingSocket (-2) d) = d"
  using daemon_inv_pending_open [of d "-2"] by (auto simp: extractPendingSocket_def)

lemma handler_update_inv:
  assumes inv: "daemon_inv d" and s: "heap d a = Some s" and ph: "dv_handler s = Some ph" "ph_vhci_fd ph' = ph_vhci_fd ph"
  shows "daemon_inv (d\<lparr>heap := (heap d)(a \<mapsto> s\<lparr>dv_handler := Some ph'\<rparr>)\<rparr>)"
proof -
  let ?d = "d\<lparr>heap := (heap d)(a \<mapsto> s\<lparr>dv_handler := Some ph'\<rparr>)\<rparr>"
  note hub = daemon_inv_parts(1) [OF inv]
  have "hub_inv ?d"
  proof (rule hub_invI)
    show "b < next_addr ?d \<and> session_linked ?d b t" if "heap ?d b = Some t" for b t
      using that s hub_invD(1) [OF hub] hub_inv_linked [OF hub] ph
      by (cases "b = a") (fastforce simp: session_linked_def)+
    show "\<exists>t. heap ?d b = Some t \<and> dv_device_id t = dev" if "sessions ?d dev = Some b" for dev b
      using that hub_invD(2) [OF hub, of dev b] s by auto
    show "\<exists>t. heap ?d b = Some t \<and> dv_vhci_fd t = f" if "vhci_fd_map ?d f = Some b" for f b
      using that hub_invD(3) [OF hub, of f b] s by auto
    show "\<exists>t. heap ?d b = Some t \<and> dv_tcp_sock t = Some f" if "tcp_fd_map ?d f = Some b" for f b
      using that hub_invD(4) [OF hub, of f b] s by auto
  qed
  have fds: "session_fds (s\<lparr>dv_handler := Some ph'\<rparr>) = session_fds s" by (simp add: session_fds_def)
  have ran: "t \<in> ran (heap ?d) \<Longrightarrow> \<exists>u \<in> ran (heap d). session_fds t = session_fds u \<and> dv_vhci_fd t = dv_vhci_fd u \<and>
      dv_kernel_fd t = dv_kernel_fd u \<and> dv_tcp_sock t = dv_tcp_sock u" for t
    using s fds by (fastforce simp: ran_def split: if_splits)
  have "owned_fds ?d \<subseteq> owned_fds d" using ran by (fastforce simp: owned_fds_def)
  moreover have "session_fds s \<inter> session_fds t = {}" if "heap d b = Some t" "b \<noteq> a" for b t
    using that s daemon_inv_parts(2) [OF inv] unfolding fds_inv_def by blast
  moreover have "0 \<le> dv_vhci_fd t \<and> 0 \<le> dv_kernel_fd t \<and> dv_vhci_fd t \<noteq> dv_kernel_fd t \<and> dv_tcp_sock t \<notin> {Some (dv_vhci_fd t), Some (dv_kernel_fd t)} \<and>
      (\<forall>f. dv_tcp_sock t = Some f \<longrightarrow> 0 \<le> f)"
    if "t \<in> ran (heap ?d)" for t
    using ran [OF that] daemon_inv_parts(2) [OF inv] unfolding fds_inv_def by fastforce
  ultimately have "fds_inv ?d"
    using daemon_inv_parts(2) [OF inv] unfolding fds_inv_def by (auto simp: fds split: if_splits)
  with \<open>hub_inv ?d\<close> show ?thesis using inv by (simp add: daemon_inv_def)
qed

text \<open>When a reset device is attached again, the system gives a socket pair and takes the line.\<close>

definition reset_succeeds :: "daemon_env \<Rightarrow> DeviceSession \<Rightarrow> daemon \<Rightarrow> bool" where
  "reset_succeeds env s d \<longleftrightarrow>
     (case e_pair env of
        None \<Rightarrow> False
      | Some (x, y) \<Rightarrow>
          (case attach (freePort (dm_vhci d) (dv_vhci_port s)) x (usb_devid (dv_device_id s)) 2 (e_attach env) of
             (v', port, line) \<Rightarrow> 0 \<le> port))"

lemma vhci_event_inv:
  assumes inv: "daemon_inv d" and fresh: "pair_fresh env d" and s: "heap d a = Some s"
    and reset: "hup \<Longrightarrow> 0 \<le> dv_vhci_port s \<Longrightarrow> reset_succeeds env s d"
  shows "\<exists>d' out. vhci_event env ev_fd hup inn a d = Some (d', out) \<and> daemon_inv d'"
proof (cases hup)
  case True
  then show ?thesis
    using inv s reset usb_reset_success [OF inv s fresh, of _ _ _ _ _ ev_fd]
    by (cases "0 \<le> dv_vhci_port s") (fastforce simp: vhci_event_def reset_succeeds_def split: option.splits prod.splits)+
next
  case False
  obtain ph where ph: "dv_handler s = Some ph"
    using hub_inv_linked [OF daemon_inv_parts(1) [OF inv] s] by (auto simp: session_linked_def)
  show ?thesis
  proof (cases "onVhciReadable ph (e_reads env) (e_sends env)")
    case None
    with False s ph inv show ?thesis by (simp add: vhci_event_def)
  next
    case (Some res)
    obtain ok ph' wire where res: "res = (ok, ph', wire)" by (metis prod_cases3)
    have "ph_vhci_fd ph' = ph_vhci_fd ph"
      using onVhciReadable_frame [of ph] Some res by fastforce
    from handler_update_inv [OF inv s ph this]
    have upd: "daemon_inv (d\<lparr>heap := (heap d)(a \<mapsto> s\<lparr>dv_handler := Some ph'\<rparr>)\<rparr>)" .
    from daemon_inv_remove [OF upd, of "dv_device_id s"] upd False s ph Some res inv show ?thesis
      by (auto simp: vhci_event_def Let_def)
  qed
qed

lemma handle_event_inv:
  assumes "daemon_inv d" and "env_fresh env d"
    and "\<forall>a s. hup \<and> findByVhciFd ev_fd d = Some a \<and> heap d a = Some s \<and> 0 \<le> dv_vhci_port s \<longrightarrow> reset_succeeds env s d"
  shows "\<exists>d' out. handle_event env ev_fd hup inn d = Some (d', out) \<and> daemon_inv d'"
proof -
  note inv = assms(1) and hub = daemon_inv_parts(1) [OF assms(1)]
  have pair: "pair_fresh env d" and acc: "e_accept env \<notin> open_fds d" using assms(2) by (simp_all add: env_fresh_def)
  have "tcp_fd_map d (e_accept env) = None"
    using unowned_lookup(1) [OF hub daemon_inv_parts(2) [OF inv]] daemon_inv_owned_open [OF inv] acc by blast
  then have accept: "daemon_inv (onTcpAccept (e_accept env) d)"
    using inv hub_inv_accept [OF hub] fds_inv_accept [OF daemon_inv_parts(2) [OF inv] acc]
    by (simp add: daemon_inv_def onTcpAccept_def)
  consider (tcp) a where "findByTcpFd ev_fd d = Some a" | (vhci) a where "findByTcpFd ev_fd d = None" "findByVhciFd ev_fd d = Some a"
    | (neither) "findByTcpFd ev_fd d = None" "findByVhciFd ev_fd d = None" by fastforce
  then have "\<exists>d' out. (case findByTcpFd ev_fd d of
        Some a \<Rightarrow> if hup then do { s \<leftarrow> heap d a; map_option (\<lambda>d'. (d', D_Nothing)) (removeSession (dv_device_id s) d) }
                  else if inn then hub_readable env ev_fd d else Some (d, D_Nothing)
      | None \<Rightarrow> (case findByVhciFd ev_fd d of Some a \<Rightarrow> vhci_event env ev_fd hup inn a d
                | None \<Rightarrow> if inn then hub_readable env ev_fd d else Some (d, D_Nothing))) = Some (d', out) \<and> daemon_inv d'"
  proof cases
    case (tcp a)
    then obtain s where "heap d a = Some s" using registry.tcp_live [OF hub] by blast
    with tcp inv hub_readable_inv [OF inv pair, of ev_fd] daemon_inv_remove [OF inv, of "dv_device_id s"] show ?thesis by auto
  next
    case (vhci a)
    then obtain s where "heap d a = Some s" using registry.vhci_live [OF hub] by blast
    with vhci assms(3) vhci_event_inv [OF inv pair, of a s hup ev_fd inn] show ?thesis by auto
  next
    case neither
    with inv hub_readable_inv [OF inv pair, of ev_fd] show ?thesis by auto
  qed
  with inv accept show ?thesis
    by (auto simp: handle_event_def Let_def drop_dummy [OF inv])
qed

text \<open>
  C3. In a consistent state, in which the maps agree and every descriptor has one owner, every event
  the loop can be given is handled without touching a freed session, and the state after it is
  consistent again. The one exception is excluded by hypothesis: a USB reset whose new attachment
  fails.
\<close>

theorem event_keeps_daemon_consistent:
  assumes "daemon_inv d" and "env_fresh env d"
    and "\<forall>a s. hup \<and> findByVhciFd ev_fd d = Some a \<and> heap d a = Some s \<and> 0 \<le> dv_vhci_port s \<longrightarrow> reset_succeeds env s d"
  shows "\<exists>d' out. handle_event env ev_fd hup inn d = Some (d', out) \<and> daemon_inv d'"
  using assms by (rule handle_event_inv)

text \<open>A device on port 0, connected by socket 9, whose socket pair is 10 and 11.\<close>

definition attached_example :: daemon where
  "attached_example = doUsbAttach env_accept 1 2 9 (onTcpAccept 9 daemon_example)"

lemma daemon_example_inv: "daemon_inv (onTcpAccept 9 daemon_example)" "daemon_inv attached_example"
proof -
  show acc: "daemon_inv (onTcpAccept 9 daemon_example)"
    by (simp add: daemon_inv_def hub_inv_def fds_inv_def owned_fds_def daemon_example_def onTcpAccept_def vhci_ok_def
        vhci_initial_def const_defs)
  show "daemon_inv attached_example"
    unfolding attached_example_def
    by (rule doUsbAttach_inv [OF acc]) (simp_all add: pair_fresh_def env_accept_def daemon_example_def onTcpAccept_def)
qed

lemmas attach_eval = attach_def attach_line_def sysfsWrite_def dec_of_int_def usb_devid_def digit_char_def
  vhci_initial_def Let_def dec_of_nat.simps const_defs

lemma attach_example:
  "attach (vhci_initial\<lparr>v_fd := 5\<rparr>) 10 (usb_devid 1) 2 (True, 12) =
     ((vhci_initial\<lparr>v_fd := 5\<rparr>)\<lparr>v_ports := [True, False, False, False, False, False, False, False]\<rparr>, 0, Some ''0 10 65538 2'')"
  "attach (vhci_initial\<lparr>v_fd := 5\<rparr>) 12 (usb_devid 1) 2 (True, 12) =
     ((vhci_initial\<lparr>v_fd := 5\<rparr>)\<lparr>v_ports := [True, False, False, False, False, False, False, False]\<rparr>, 0, Some ''0 12 65538 2'')"
  by (simp_all add: attach_eval upt_rec) (simp_all add: numeral_eq_Suc)

lemma freePort_example:
  "freePort ((vhci_initial\<lparr>v_fd := 5\<rparr>)\<lparr>v_ports := [True, False, False, False, False, False, False, False]\<rparr>) 0 = vhci_initial\<lparr>v_fd := 5\<rparr>"
  by (simp add: freePort_def vhci_initial_def const_defs) (simp add: numeral_eq_Suc)

lemma attached_example_fields:
  "attached_example = daemon_example\<lparr>
     heap := [0 \<mapsto> \<lparr>dv_device_id = 1, dv_vhci_port = 0, dv_vhci_fd = 11, dv_kernel_fd = 10, dv_dev_addr = 9, dv_tcp_sock = Some 9,
       dv_handler = Some \<lparr>ph_vhci_fd = 11, ph_sock = 9, ph_device_id = 1, ph_seq = 0\<rparr>\<rparr>],
     next_addr := 1, tcp_fd_map := [9 \<mapsto> 0], vhci_fd_map := [11 \<mapsto> 0], sessions := [1 \<mapsto> 0], open_fds := {3, 4, 9, 10, 11},
     dm_epoll := {3, 4, 9, 11}, dm_vhci := (vhci_initial\<lparr>v_fd := 5\<rparr>)\<lparr>v_ports := [True, False, False, False, False, False, False, False]\<rparr>\<rparr>"
  using attach_example(1)
  by (intro daemon.equality)
    (auto simp: attached_example_def doUsbAttach_def env_accept_def onTcpAccept_def daemon_example_def extractPendingSocket_def
      epollAdd_def addSession_fresh Let_def)

definition env_reset :: daemon_env where
  "env_reset = env_accept\<lparr>e_accept := 14, e_pair := Some (12, 13)\<rparr>"

theorem event_keeps_daemon_consistent_witness:
  "findByVhciFd 11 attached_example = Some 0 \<and>
   (\<exists>d' out. handle_event env_reset 11 True False attached_example = Some (d', out) \<and> daemon_inv d')"
proof -
  have reset: "reset_succeeds env_reset s attached_example" if "heap attached_example 0 = Some s" for s
    using that attach_example(2) freePort_example
    by (auto simp: attached_example_fields reset_succeeds_def env_reset_def env_accept_def)
  have "\<exists>d' out. handle_event env_reset 11 True False attached_example = Some (d', out) \<and> daemon_inv d'"
  proof (rule event_keeps_daemon_consistent)
    show "daemon_inv attached_example" by (rule daemon_example_inv)
    show "env_fresh env_reset attached_example"
      by (simp add: attached_example_fields env_fresh_def pair_fresh_def env_reset_def env_accept_def)
    show "\<forall>a s. True \<and> findByVhciFd 11 attached_example = Some a \<and> heap attached_example a = Some s \<and> 0 \<le> dv_vhci_port s
        \<longrightarrow> reset_succeeds env_reset s attached_example"
      using reset by (auto simp: attached_example_fields findByVhciFd_def)
  qed
  then show ?thesis by (simp add: attached_example_fields findByVhciFd_def)
qed

section \<open>The life of a session\<close>

lemma pending_event:
  assumes inv: "daemon_inv d" and fd: "fd \<in> pending d" "fd \<noteq> dm_udp d" "fd \<noteq> dm_srv d"
  shows "handle_event env fd False True d = hub_readable env fd d"
proof -
  have "tcp_fd_map d fd = None" "vhci_fd_map d fd = None"
    using unowned_lookup [OF daemon_inv_parts(1) [OF inv] daemon_inv_parts(2) [OF inv]] daemon_inv_pending_open [OF inv fd(1)] by blast+
  with fd show ?thesis
    by (simp add: handle_event_def drop_dummy [OF inv] findByTcpFd_def findByVhciFd_def)
qed

text \<open>
  A pending connection on which a \<open>DEVICE_EVENT\<close>/\<open>CONNECT\<close> packet arrives becomes a session when
  the kernel takes the device: it is found by its device number, by the connection and by the
  daemon's end of the socket pair, both descriptors are watched, the connection is no longer
  pending, and the port the kernel uses was free before and is taken now.
\<close>

lemma connect_creates_session:
  assumes inv: "daemon_inv d" and fd: "fd \<in> pending d" "fd \<noteq> dm_udp d" "fd \<noteq> dm_srv d" "fd < 65536"
    and packet: "read_packet (e_recv env) = TR_Packet hdr payload" "cmd_type hdr = CMD_DEVICE_EVENT"
      "dec_DeviceEvent payload = Some dep" "event dep = DEVICE_EVENT_CONNECT"
    and new: "findByDeviceId (dep_device_id dep) d = None" and pair: "e_pair env = Some (x, y)"
    and att: "attach (dm_vhci d) x (usb_devid (dep_device_id dep)) (ucast (speed dep)) (e_attach env) = (v', int port, line)"
  shows "\<exists>d' a s. handle_event env fd False True d = Some (d', D_Hub Out_Nothing) \<and>
     findByDeviceId (dep_device_id dep) d' = Some a \<and> findByTcpFd fd d' = Some a \<and> findByVhciFd y d' = Some a \<and>
     heap d' a = Some s \<and> dv_tcp_sock s = Some fd \<and> dv_kernel_fd s = x \<and> dv_vhci_port s = int port \<and>
     {fd, y} \<subseteq> dm_epoll d' \<and> fd \<notin> pending d' \<and>
     port \<notin> used_ports (dm_vhci d) \<and> used_ports (dm_vhci d') = insert port (used_ports (dm_vhci d))"
proof -
  have fd16: "uint (of_int fd :: u16) = fd"
    using fd(4) daemon_inv_pending_open [OF inv fd(1)] by (simp add: uint_word_of_int_eq take_bit_int_eq_self)
  have port: "port \<notin> used_ports (dm_vhci d)" "used_ports v' = insert port (used_ports (dm_vhci d))"
    using attach_cases [OF att] used_ports_set(1) [OF daemon_inv_parts(3) [OF inv]] by (auto simp: used_ports_def)
  have "hub_readable env fd d = Some (doUsbAttach env (dep_device_id dep) (speed dep) (of_int fd) d, D_Hub Out_Nothing)"
    using fd(1) packet new
    by (simp add: hub_readable_def onTcpReadable_def readTcpPacket_def onTcpPacket_def on_device_event_def connect_cb_def)
  moreover have "sessions d (dep_device_id dep) = None" using new by (simp add: findByDeviceId_def)
  ultimately show ?thesis
    using fd pair att port
    by (simp add: pending_event [OF inv fd(1-3)] doUsbAttach_def extractPendingSocket_def fd16 Let_def epollAdd_def
        addSession_fresh findByDeviceId_def findByTcpFd_def findByVhciFd_def)
qed

text \<open>Which of the daemon's maps an event on a session's own descriptors finds.\<close>

lemma vhci_fd_not_tcp:
  assumes inv: "daemon_inv d" and s: "heap d a = Some s"
  shows "tcp_fd_map d (dv_vhci_fd s) = None"
proof (rule ccontr)
  assume "tcp_fd_map d (dv_vhci_fd s) \<noteq> None"
  then obtain b t where t: "heap d b = Some t" "dv_tcp_sock t = Some (dv_vhci_fd s)"
    using hub_invD(4) [OF daemon_inv_parts(1) [OF inv]] by blast
  have "0 \<le> dv_vhci_fd s" "dv_tcp_sock s \<noteq> Some (dv_vhci_fd s)"
    using daemon_inv_parts(2) [OF inv] s by (auto simp: fds_inv_def intro: ranI)
  then have "a \<noteq> b" "dv_vhci_fd s \<in> session_fds s \<inter> session_fds t" using s t by (auto simp: session_fds_def)
  then show False using daemon_inv_parts(2) [OF inv] s t(1) unfolding fds_inv_def by blast
qed

lemma session_removed:
  assumes inv: "daemon_inv d" and s: "findByTcpFd fd d = Some a" "heap d a = Some s"
  shows "sessions d (dv_device_id s) = Some a \<and> dv_tcp_sock s = Some fd \<and> fd \<notin> pending d \<and>
     removeSession (dv_device_id s) d =
       Some (d\<lparr>sessions := (sessions d)(dv_device_id s := None), vhci_fd_map := (vhci_fd_map d)(dv_vhci_fd s := None),
               tcp_fd_map := (tcp_fd_map d)(fd := None), heap := (heap d)(a := None), open_fds := open_fds d - session_fds s\<rparr>)"
proof -
  note hub = daemon_inv_parts(1) [OF inv]
  have "dv_tcp_sock s = Some fd" using hub_invD(4) [OF hub, of fd a] s by (auto simp: findByTcpFd_def)
  with hub_inv_linked [OF hub s(2)] removeSession_live [OF hub _ s(2)] show ?thesis by (auto simp: session_linked_def)
qed

lemma detach_used:
  assumes "vhci_ok v" and "0 \<le> port" and "nat port \<in> used_ports v" and "sysfsWrite (take 15 (dec_of_int port)) ans"
  shows "used_ports (fst (detach v port ans)) = used_ports v - {nat port}"
proof -
  have u: "nat port < MAX_PORTS" "v_ports v ! nat port" using assms(3) by (simp_all add: used_ports_def)
  then have "port < int MAX_PORTS" using assms(2) by linarith
  with u assms(2,4) have "fst (detach v port ans) = v\<lparr>v_ports := (v_ports v)[nat port := False]\<rparr>"
    by (simp add: detach_def Let_def)
  with used_ports_set(2) [OF assms(1) u(1)] show ?thesis by simp
qed

text \<open>
  C31. A session ends in two ways that differ in what they give back. A \<open>DISCONNECT\<close> packet, or a
  failing read, runs the callback: the session and its descriptors are gone, both are no longer
  watched, and its port is free for the next device. When the device's connection just hangs up, the
  session and its descriptors are gone too, but the port stays taken: nothing ever detaches it.
\<close>

theorem disconnect_frees_hangup_leaks:
  assumes inv: "daemon_inv d" and s: "findByTcpFd fd d = Some a" "heap d a = Some s"
    and fd: "fd \<noteq> dm_udp d" "fd \<noteq> dm_srv d"
    and port: "0 \<le> dv_vhci_port s" "nat (dv_vhci_port s) \<in> used_ports (dm_vhci d)"
    and det: "sysfsWrite (take 15 (dec_of_int (dv_vhci_port s))) (e_detach env)"
  shows "(\<exists>d'. disconnect_cb env (dv_device_id s) d = Some d' \<and> findByDeviceId (dv_device_id s) d' = None \<and>
            heap d' a = None \<and> open_fds d' = open_fds d - session_fds s \<and> dm_epoll d' = dm_epoll d - {fd, dv_vhci_fd s} \<and>
            used_ports (dm_vhci d') = used_ports (dm_vhci d) - {nat (dv_vhci_port s)}) \<and>
         (\<exists>d'. handle_event env fd True inn d = Some (d', D_Nothing) \<and> findByDeviceId (dv_device_id s) d' = None \<and>
            heap d' a = None \<and> open_fds d' = open_fds d - session_fds s \<and> used_ports (dm_vhci d') = used_ports (dm_vhci d))"
proof -
  note rem = session_removed [OF inv s]
  let ?d = "d\<lparr>dm_epoll := dm_epoll d - {fd, dv_vhci_fd s},
              dm_vhci := fst (detach (dm_vhci d) (dv_vhci_port s) (e_detach env))\<rparr>"
  have d: "daemon_inv ?d"
    using daemon_inv_vhci [OF _ vhci_ok_ops(3) [OF daemon_inv_parts(3) [OF inv]], of "d\<lparr>dm_epoll := dm_epoll d - {fd, dv_vhci_fd s}\<rparr>"] inv
    by simp
  have "disconnect_cb env (dv_device_id s) d = removeSession (dv_device_id s) ?d"
    using rem s(2) port(1)
    by (simp add: disconnect_cb_def findByDeviceId_def epollDel_def insert_commute Diff_insert [symmetric])
  moreover have "findByTcpFd fd ?d = Some a" "heap ?d a = Some s" using s by (simp_all add: findByTcpFd_def)
  ultimately show ?thesis
    using session_removed [OF d, of fd a s] rem s fd detach_used [OF daemon_inv_parts(3) [OF inv] port det]
    by (simp add: handle_event_def drop_dummy [OF inv] findByDeviceId_def)
qed

lemma attached_example_session:
  "findByTcpFd 9 attached_example = Some 0"
  "heap attached_example 0 = Some \<lparr>dv_device_id = 1, dv_vhci_port = 0, dv_vhci_fd = 11, dv_kernel_fd = 10, dv_dev_addr = 9,
     dv_tcp_sock = Some 9, dv_handler = Some \<lparr>ph_vhci_fd = 11, ph_sock = 9, ph_device_id = 1, ph_seq = 0\<rparr>\<rparr>"
  "dm_udp attached_example = 3" "dm_srv attached_example = 4" "0 \<in> used_ports (dm_vhci attached_example)"
  by (simp_all add: attached_example_fields findByTcpFd_def daemon_example_def used_ports_def const_defs)

theorem disconnect_frees_hangup_leaks_witness:
  "(\<exists>d'. disconnect_cb env_accept 1 attached_example = Some d' \<and> 0 \<notin> used_ports (dm_vhci d')) \<and>
   (\<exists>d'. handle_event env_accept 9 True True attached_example = Some (d', D_Nothing) \<and>
      findByDeviceId 1 d' = None \<and> 0 \<in> used_ports (dm_vhci d'))"
  using disconnect_frees_hangup_leaks [OF daemon_example_inv(2) attached_example_session(1,2), of env_accept True] attached_example_session(5)
  by (auto simp: attached_example_session(3,4) env_accept_def sysfsWrite_def dec_of_int_def dec_of_nat_small)

text \<open>
  C30. A USB reset whose new attachment fails leaves a pointer to the freed session behind. The socket
  is moved out of the session before the session is removed, so the entry of the connection stays in
  the map; the connection is closed, and the next event for its descriptor follows the pointer.
\<close>

theorem failed_reset_dangles:
  assumes inv: "daemon_inv d" and s: "findByTcpFd fd d = Some a" "heap d a = Some s"
    and fd: "fd \<noteq> dm_udp d" "fd \<noteq> dm_srv d" "dv_vhci_fd s \<noteq> dm_udp d" "dv_vhci_fd s \<noteq> dm_srv d"
    and port: "0 \<le> dv_vhci_port s" and fails: "e_pair env = None"
  shows "\<exists>d'. handle_event env (dv_vhci_fd s) True inn d = Some (d', D_Nothing) \<and>
     heap d' a = None \<and> findByTcpFd fd d' = Some a \<and> fd \<notin> open_fds d' \<and>
     handle_event env' fd True inn' d' = None \<and> handle_event env' fd False True d' = None"
proof -
  note rem = session_removed [OF inv s] and hub = daemon_inv_parts(1) [OF inv]
  obtain f d3 D where d3: "dv_tcp_sock s = Some f" "removeSession (dv_device_id s) (reset_detached (dv_vhci_fd s) a s d) = Some d3"
      "tcp_fd_map d3 f = Some a" "heap d3 a = None" "daemon_inv D" "f \<notin> owned_fds D \<union> pending D"
      "d3 = D\<lparr>tcp_fd_map := (tcp_fd_map D)(f \<mapsto> a)\<rparr>"
    using reset_removed [OF inv s(2), of "dv_vhci_fd s"] by blast
  have f: "f = fd" "fd \<notin> pending d3" using rem d3(1,6,7) by auto
  have lst: "dm_udp d3 = dm_udp d" "dm_srv d3 = dm_srv d"
    using d3(2) rem s(2)
    by (auto simp: removeSession_def reset_detached_def epollDel_def destroy_def Let_def split: option.splits)
  let ?d = "d3\<lparr>open_fds := open_fds d3 - {fd}\<rparr>"
  have dummy: "fst (extractPendingSocket (-2) ?d) = ?d"
    using daemon_inv_pending_open [OF d3(5), of "-2"] d3(7) by (auto simp: extractPendingSocket_def)
  have "vhci_fd_map d (dv_vhci_fd s) = Some a"
    using hub_inv_linked [OF hub s(2)] by (simp add: session_linked_def)
  then have "handle_event env (dv_vhci_fd s) True inn d = Some (?d, D_Nothing)"
    using fd s(2) port fails d3(1,2) f vhci_fd_not_tcp [OF inv s(2)]
    by (simp add: handle_event_def drop_dummy [OF inv] findByTcpFd_def findByVhciFd_def vhci_event_def usb_reset_def)
  moreover have "handle_event env' fd True inn' ?d = None \<and> handle_event env' fd False True ?d = None"
    using d3(3,4) f fd lst dummy
    by (simp add: handle_event_def findByTcpFd_def hub_readable_def onTcpReadable_def readTcpPacket_def)
  ultimately show ?thesis using d3(3,4) f by (auto simp: findByTcpFd_def)
qed

theorem failed_reset_dangles_witness:
  "\<exists>d'. handle_event (env_accept\<lparr>e_pair := None\<rparr>) 11 True False attached_example = Some (d', D_Nothing) \<and>
     findByTcpFd 9 d' = Some 0 \<and> handle_event env_accept 9 False True d' = None"
  using failed_reset_dangles [OF daemon_example_inv(2) attached_example_session(1,2), of "env_accept\<lparr>e_pair := None\<rparr>" False env_accept True]
  by (auto simp: attached_example_session(3,4))

end
