(* ===== verification/Daemon_Run.thy ===== *)
theory Daemon_Run
  imports Daemon_Main
begin

text \<open>
  The daemon from its loop to its end (\<open>daemon/src/main.cpp\<close>): the batches of events that
  \<open>epoll_wait\<close> reports, the flag the signal handler clears, the shutdown, and the destructors that run
  when \<open>main\<close> returns. A batch is fixed when it is reported, so that a later event of it may be about
  a descriptor that an earlier one closed. Closing a descriptor that is not open is \<open>None\<close>.
\<close>

section \<open>The loop\<close>

definition MAX_EVENTS :: nat where "MAX_EVENTS = 16"

text \<open>An event: its descriptor, \<open>hup\<close> and \<open>inn\<close> as in \<open>handle_event\<close>, and what the system answers meanwhile.\<close>

type_synonym loop_event = "int \<times> bool \<times> bool \<times> daemon_env"

datatype wait_ans = Wait_Eintr | Wait_Error | Wait_Events "loop_event list"

text \<open>A handler that waits for data that does not come holds up the whole daemon.\<close>

fun blocked :: "daemon_out \<Rightarrow> bool" where
  "blocked D_Blocked = True"
| "blocked (D_Hub Out_Blocked) = True"
| "blocked _ = False"

text \<open>The second part of the results below says whether the code has gone on to what follows it.\<close>

fun handle_events :: "loop_event list \<Rightarrow> daemon \<Rightarrow> (daemon \<times> bool) option" where
  "handle_events [] d = Some (d, True)"
| "handle_events ((ev_fd, hup, inn, env) # evs) d = do {
     (d1, out) \<leftarrow> handle_event env ev_fd hup inn d;
     if blocked out then Some (d1, False) else handle_events evs d1 }"

text \<open>
  Each turn reads \<open>g_running\<close>, which the signal handler clears, and waits; the array of the call holds
  \<open>MAX_EVENTS\<close> events.
\<close>

fun main_loop :: "(bool \<times> wait_ans) list \<Rightarrow> daemon \<Rightarrow> (daemon \<times> bool) option" where
  "main_loop [] d = Some (d, False)"
| "main_loop ((g_running, ans) # waits) d =
     (if \<not> g_running then Some (d, True)
      else case ans of
        Wait_Eintr \<Rightarrow> main_loop waits d
      | Wait_Error \<Rightarrow> Some (d, True)
      | Wait_Events evs \<Rightarrow> do {
          (d1, done') \<leftarrow> handle_events (take MAX_EVENTS evs) d;
          if done' then main_loop waits d1 else Some (d1, False) })"

text \<open>
  As single events do, batches leave the daemon without sessions when they have only descriptors that
  were registered at the time of the wait.
\<close>

lemma handle_events_idle:
  "idle_inv d \<Longrightarrow> fst ` set evs \<subseteq> dm_epoll d \<Longrightarrow> handle_events evs d = Some (d', go_on) \<Longrightarrow> idle_inv d'"
proof (induction evs arbitrary: d)
  case (Cons e evs)
  obtain ev_fd hup inn env where e: "e = (ev_fd, hup, inn, env)" by (metis prod_cases4)
  obtain d1 out where d1: "handle_event env ev_fd hup inn d = Some (d1, out)"
    using Cons.prems(3) e by (cases "handle_event env ev_fd hup inn d") auto
  have ev_fd: "ev_fd \<in> dm_epoll d" using Cons.prems(2) e by simp
  have inv: "idle_inv d1" by (rule daemon_idle.step_inv [OF Cons.prems(1) daemon_step.event [OF ev_fd d1]])
  have "ev_fd = dm_udp d \<or> ev_fd = dm_srv d" using ev_fd Cons.prems(1) by (simp add: idle_inv_def)
  then have "dm_epoll d1 = dm_epoll d" using d1 by (auto simp: handle_event_def onTcpAccept_def split: if_splits)
  then have "fst ` set evs \<subseteq> dm_epoll d1" using Cons.prems(2) by simp
  with inv Cons.prems(3) show ?case by (cases "blocked out") (simp_all add: e d1 Cons.IH [OF inv])
qed simp

section \<open>The end\<close>

text \<open>
  The destructors, on the set of the process's open descriptors: a session closes its end of the socket
  pair and the kernel's, then its members, the socket among them, are destroyed.
\<close>

definition DeviceSession_destroy :: "DeviceSession \<Rightarrow> int set \<Rightarrow> int set option" where
  "DeviceSession_destroy s fds = do {
     fds1 \<leftarrow> close_owned (dv_vhci_fd s) fds;
     fds2 \<leftarrow> close_owned (dv_kernel_fd s) fds1;
     case dv_tcp_sock s of None \<Rightarrow> Some fds2 | Some fd \<Rightarrow> close_owned fd fds2 }"

fun close_each :: "int list \<Rightarrow> int set \<Rightarrow> int set option" where
  "close_each [] fds = Some fds"
| "close_each (fd # rest) fds = do { fds1 \<leftarrow> close_owned fd fds; close_each rest fds1 }"

fun destroy_sessions :: "daemon \<Rightarrow> u8 list \<Rightarrow> int set \<Rightarrow> int set option" where
  "destroy_sessions d [] fds = Some fds"
| "destroy_sessions d (dev # devs) fds = do {
     a \<leftarrow> sessions d dev;
     s \<leftarrow> heap d a;
     fds1 \<leftarrow> DeviceSession_destroy s fds;
     destroy_sessions d devs fds1 }"

text \<open>
  The members of the server are destroyed in the reverse of their order in the class: the pending
  sockets, the sessions, the listening socket and the UDP socket. In which order the hash tables
  give up their elements is not specified, so both orders are arguments.
\<close>

definition HubServer_destroy :: "int list \<Rightarrow> u8 list \<Rightarrow> daemon \<Rightarrow> int set \<Rightarrow> int set option" where
  "HubServer_destroy pend devs d fds = do {
     fds1 \<leftarrow> close_each pend fds;
     fds2 \<leftarrow> destroy_sessions d devs fds1;
     fds3 \<leftarrow> close_owned (dm_srv d) fds2;
     close_owned (dm_udp d) fds3 }"

definition VhciDriver_destroy :: "(nat \<Rightarrow> sysfs_ans) \<Rightarrow> vhci \<Rightarrow> int set \<Rightarrow> (vhci \<times> int set) option" where
  "VhciDriver_destroy ans v fds = do {
     let v1 = detachAll ans v;
     fds1 \<leftarrow> close_owned (v_fd v1) fds;
     Some (v1, fds1) }"

text \<open>The process has the server's descriptors and two more, of epoll and of \<open>/dev/vhci\<close>.\<close>

definition process_fds :: "int \<Rightarrow> daemon \<Rightarrow> int set" where
  "process_fds epfd d = {epfd, v_fd (dm_vhci d)} \<union> open_fds d"

definition daemon_exit ::
  "int \<Rightarrow> (nat \<Rightarrow> sysfs_ans) \<Rightarrow> (nat \<Rightarrow> sysfs_ans) \<Rightarrow> int list \<Rightarrow> u8 list \<Rightarrow> daemon \<Rightarrow> (vhci \<times> int set) option" where
  "daemon_exit epfd ans1 ans2 pend devs d = do {
     let d1 = d\<lparr>dm_vhci := detachAll ans1 (dm_vhci d)\<rparr>;
     fds1 \<leftarrow> close_fd epfd (process_fds epfd d);
     fds2 \<leftarrow> HubServer_destroy pend devs d1 fds1;
     VhciDriver_destroy ans2 (dm_vhci d1) fds2 }"

section \<open>Who holds what\<close>

text \<open>
  The descriptors that belong to no session and to no pending connection. No event changes them, nor the
  two listening descriptors and that of \<open>/dev/vhci\<close>; new ones are those the system gave.
\<close>

definition loose :: "daemon \<Rightarrow> int set" where
  "loose d = open_fds d - (owned_fds d \<union> pending d)"

definition kept :: "int set \<Rightarrow> daemon \<Rightarrow> daemon \<Rightarrow> bool" where
  "kept N d d' \<longleftrightarrow> dm_udp d' = dm_udp d \<and> dm_srv d' = dm_srv d \<and> v_fd (dm_vhci d') = v_fd (dm_vhci d) \<and>
     loose d' = loose d \<and> open_fds d' \<subseteq> open_fds d \<union> N"

lemma kept_refl [simp]: "kept N d d"
  by (simp add: kept_def)

lemma kept_trans: "kept N d d1 \<Longrightarrow> kept N d1 d2 \<Longrightarrow> kept N d d2"
  by (auto simp: kept_def)

lemma kept_mono: "kept N d d' \<Longrightarrow> N \<subseteq> M \<Longrightarrow> kept M d d'"
  by (auto simp: kept_def)

lemma table_fd [simp]:
  "v_fd (freePort v p) = v_fd v" "v_fd (fst (detach v p ans)) = v_fd v"
  by (simp_all add: freePort_def detach_def Let_def)

lemma attach_fd: "attach v fd devid spd ans = (v', p, line) \<Longrightarrow> v_fd v' = v_fd v"
  by (auto simp: attach_def Let_def split: option.splits if_splits)

lemma detach_ports_fd: "v_fd (detach_ports ans is v) = v_fd v"
  by (induction ans "is" v rule: detach_ports.induct) simp_all

lemma detachAll_fd [simp]: "v_fd (detachAll ans v) = v_fd v"
  by (simp add: detachAll_def detach_ports_fd)

lemma detach_ports_ok: "vhci_ok v \<Longrightarrow> vhci_ok (detach_ports ans is v)"
  by (induction ans "is" v rule: detach_ports.induct) (simp_all add: vhci_ok_ops)

lemma detachAll_ok: "vhci_ok v \<Longrightarrow> vhci_ok (detachAll ans v)"
  by (simp add: detachAll_def detach_ports_ok)

lemma kept_fields [simp]:
  "loose (d\<lparr>dm_vhci := v\<rparr>) = loose d" "loose (d\<lparr>dm_epoll := p\<rparr>) = loose d"
  by (simp_all add: loose_def)

lemma epollAdd_kept [simp]: "kept N d (epollAdd fd d') = kept N d d'"
  by (simp add: kept_def epollAdd_def)

lemma owned_without:
  assumes "heap d a = Some s" and "heap d' = (heap d)(a := None)"
  shows "owned_fds d = session_fds s \<union> owned_fds d'"
  using ran_without [of "heap d" a s] assms by (simp add: owned_fds_def)

lemma removeSession_kept:
  assumes inv: "daemon_inv d" and rem: "removeSession dev d = Some d'"
  shows "kept N d d'"
proof (cases "sessions d dev")
  case None
  with rem show ?thesis by (simp add: removeSession_def)
next
  case (Some a)
  note hub = daemon_inv_parts(1) [OF inv] and fds = daemon_inv_parts(2) [OF inv]
  obtain s where s: "heap d a = Some s" "dv_device_id s = dev" using hub_invD(2) [OF hub Some] by blast
  obtain fd where fd: "dv_tcp_sock s = Some fd"
    using hub_inv_linked [OF hub s(1)] by (auto simp: session_linked_def)
  note d' = removeSession_live [OF hub Some s(1) fd, unfolded rem option.inject]
  have "owned_fds d = session_fds s \<union> owned_fds d'" using s(1) by (rule owned_without) (simp add: d')
  then have "loose d' = loose d" by (auto simp: loose_def d')
  then show ?thesis by (auto simp: kept_def d')
qed

lemma disconnect_cb_kept:
  assumes inv: "daemon_inv d" and "disconnect_cb env dev d = Some d'"
  shows "kept N d d'"
proof (cases "findByDeviceId dev d")
  case None
  with assms show ?thesis by (simp add: disconnect_cb_def)
next
  case (Some a)
  obtain s fd where s: "heap d a = Some s" "dv_tcp_sock s = Some fd"
    using registry.same_session [OF daemon_inv_parts(1) [OF inv] Some] by blast
  let ?d1 = "epollDel fd (epollDel (dv_vhci_fd s) d)"
  let ?d = "if dv_vhci_port s \<ge> 0
            then ?d1\<lparr>dm_vhci := fst (detach (dm_vhci ?d1) (dv_vhci_port s) (e_detach env))\<rparr> else ?d1"
  have d1: "daemon_inv ?d1" using inv by simp
  then have "daemon_inv ?d"
    using daemon_inv_vhci [OF d1 vhci_ok_ops(3) [OF daemon_inv_parts(3) [OF d1]]] by simp
  moreover have "removeSession dev ?d = Some d'"
    using assms(2) Some s by (auto simp: disconnect_cb_def Let_def split: if_splits)
  ultimately have "kept N ?d d'" by (rule removeSession_kept)
  moreover have "kept N d ?d" by (simp add: kept_def epollDel_def)
  ultimately show ?thesis by (blast intro: kept_trans)
qed

text \<open>A new session takes its three descriptors.\<close>

lemma owned_add:
  assumes "hub_inv d" and "sessions d dev = None" and "0 \<le> vfd" and "0 \<le> kfd"
  shows "owned_fds (addSession dev port vfd kfd addr (Some fd) d) = {vfd, kfd, fd} \<union> owned_fds d"
proof -
  have "heap d (next_addr d) = None"
    using hub_invD(1) [OF assms(1), of "next_addr d"] by (cases "heap d (next_addr d)") auto
  then show ?thesis
    using assms(3,4) by (auto simp: addSession_fresh [OF assms(2)] owned_fds_def session_fds_def ran_upd_new)
qed

definition new_fds :: "daemon_env \<Rightarrow> int set" where
  "new_fds env = {e_accept env} \<union> (case e_pair env of None \<Rightarrow> {} | Some (a, b) \<Rightarrow> {a, b})"

lemma doUsbAttach_kept:
  assumes inv: "daemon_inv d" and fresh: "pair_fresh env d" and dev: "sessions d dev = None"
  shows "kept (new_fds env) d (doUsbAttach env dev spd addr d)"
proof (cases "e_pair env")
  case None
  then show ?thesis by (simp add: doUsbAttach_def)
next
  case (Some pair)
  obtain a b where ab: "pair = (a, b)" by (cases pair)
  obtain v' port line where att: "attach (dm_vhci d) a (usb_devid dev) (ucast spd) (e_attach env) = (v', port, line)"
    by (metis prod_cases3)
  have v': "v_fd v' = v_fd (dm_vhci d)" using attach_fd [OF att] .
  let ?fd = "uint addr"
  show ?thesis
  proof (cases "port < 0 \<or> ?fd \<notin> pending d")
    case True
    with Some ab att v' show ?thesis
      by (auto simp: doUsbAttach_def extractPendingSocket_def kept_def)
  next
    case False
    let ?d = "epollAdd ?fd (d\<lparr>dm_vhci := v', pending := pending d - {?fd}, open_fds := open_fds d \<union> {a, b}\<rparr>)"
    let ?d' = "addSession dev port b a addr (Some ?fd) ?d"
    have pos: "0 \<le> a" "0 \<le> b" "a \<notin> open_fds d" "b \<notin> open_fds d"
      using fresh Some ab by (auto simp: pair_fresh_def)
    have "hub_inv (d\<lparr>dm_vhci := v', pending := pending d - {?fd}\<rparr>)"
      using daemon_inv_parts(1) [OF daemon_inv_take_pending(1) [OF inv, of ?fd]] by (simp add: hub_inv_def session_linked_def)
    then have hub: "hub_inv ?d" by (simp add: hub_inv_def session_linked_def epollAdd_def)
    have owned: "owned_fds ?d' = {b, a, ?fd} \<union> owned_fds d"
      using owned_add [OF hub, of dev b a port addr ?fd] pos(1,2) dev by (simp add: owned_fds_def epollAdd_def)
    have fields: "pending ?d' = pending d - {?fd}" "open_fds ?d' = open_fds d \<union> {a, b}" "dm_udp ?d' = dm_udp d"
      "dm_srv ?d' = dm_srv d" "dm_vhci ?d' = v'"
      using dev by (simp_all add: addSession_fresh epollAdd_def)
    have "?fd \<in> pending d" "?fd \<in> open_fds d" using False daemon_inv_pending_open [OF inv] by blast+
    then have "loose ?d' = loose d" using pos unfolding loose_def owned fields by blast
    then have "kept (new_fds env) d ?d'"
      unfolding kept_def fields using Some ab v' by (auto simp: new_fds_def)
    then show ?thesis
      using Some ab att False by (simp add: doUsbAttach_def extractPendingSocket_def Let_def)
  qed
qed

lemma on_device_event_kept:
  assumes inv: "daemon_inv d" and fresh: "pair_fresh env d"
    and "on_device_event (disconnect_cb env) (connect_cb env) fd dep d = Some d'"
  shows "kept (new_fds env) d d'"
proof -
  let ?gone = "if findByDeviceId (dep_device_id dep) d \<noteq> None then disconnect_cb env (dep_device_id dep) d else Some d"
  have "\<exists>d1. ?gone = Some d1 \<and> daemon_inv d1 \<and> sessions d1 (dep_device_id dep) = None \<and> open_fds d1 \<subseteq> open_fds d"
    using disconnect_cb_inv [OF inv, of env "dep_device_id dep"] inv by (auto simp: findByDeviceId_def)
  then obtain d1 where d1: "?gone = Some d1"
    and inv1: "daemon_inv d1" "sessions d1 (dep_device_id dep) = None" "open_fds d1 \<subseteq> open_fds d"
    by blast
  have k1: "kept (new_fds env) d d1"
    using d1 disconnect_cb_kept [OF inv] by (auto split: if_splits)
  have "kept (new_fds env) d1 (doUsbAttach env (dep_device_id dep) (speed dep) (of_int fd) d1)"
    using inv1 pair_fresh_mono [OF fresh] by (intro doUsbAttach_kept) auto
  with k1 have "kept (new_fds env) d (doUsbAttach env (dep_device_id dep) (speed dep) (of_int fd) d1)"
    by (rule kept_trans)
  with d1 k1 assms(3) disconnect_cb_kept [OF inv] show ?thesis
    by (auto simp: on_device_event_def connect_cb_def split: if_splits)
qed

lemma pending_closed_kept:
  "daemon_inv d \<Longrightarrow> kept N d (d\<lparr>pending := pending d - {fd}, open_fds := open_fds d - {fd}\<rparr>)" if "fd \<in> pending d"
  using that daemon_inv_pending_open [of d fd] by (auto simp: kept_def loose_def)

lemma onTcpPacket_kept:
  assumes inv: "daemon_inv d" and fresh: "pair_fresh env d"
    and "onTcpPacket (disconnect_cb env) (connect_cb env) fd writes hdr payload d = Some (d', out)"
  shows "kept (new_fds env) d d'"
  using assms(3) on_device_event_kept [OF inv fresh]
  by (auto simp: onTcpPacket_def bind_eq_Some_conv split: if_splits option.splits)

lemma hub_readable_kept:
  assumes inv: "daemon_inv d" and fresh: "pair_fresh env d" and "hub_readable env fd d = Some (d', out)"
  shows "kept (new_fds env) d d'"
proof -
  obtain r where r: "readTcpPacket fd (e_recv env) d = Some r"
    using assms(3) by (cases "readTcpPacket fd (e_recv env) d") (simp_all add: hub_readable_def onTcpReadable_def)
  show ?thesis
    using assms(3) r onTcpPacket_kept [OF inv fresh] pending_closed_kept [OF _ inv] disconnect_cb_kept [OF inv]
    by (cases r) (auto simp: hub_readable_def onTcpReadable_def bind_eq_Some_conv split: if_splits option.splits)
qed

lemma usb_reset_kept:
  assumes inv: "daemon_inv d" and s: "heap d a = Some s" and fresh: "pair_fresh env d"
    and reset: "usb_reset env ev_fd a s d = Some d'"
  shows "kept (new_fds env) d d'"
proof -
  obtain fd d3 D where r: "dv_tcp_sock s = Some fd" "removeSession (dv_device_id s) (reset_detached ev_fd a s d) = Some d3"
      "dm_vhci d3 = freePort (dm_vhci d) (dv_vhci_port s)"
    and D: "daemon_inv D" "sessions D (dv_device_id s) = None" "fd \<in> open_fds D" "fd \<notin> owned_fds D \<union> pending D"
      "heap D = (heap d)(a := None)" "pending D = pending d" "open_fds D = open_fds d - (session_fds s - {fd})"
      "dm_udp D = dm_udp d" "dm_srv D = dm_srv d" "d3 = D\<lparr>tcp_fd_map := (tcp_fd_map D)(fd \<mapsto> a)\<rparr>"
    using reset_removed [OF inv s, of ev_fd] by blast
  have "owned_fds d = session_fds s \<union> owned_fds D" using s D(5) by (rule owned_without)
  then have loose: "open_fds D - {fd} - (owned_fds D \<union> pending D) = loose d"
    using D(3,4) r(1) by (auto simp: loose_def D(6,7) session_fds_def)
  have pos: "0 \<le> x \<and> 0 \<le> y \<and> x \<notin> open_fds d \<and> y \<notin> open_fds d" if "e_pair env = Some (x, y)" for x y
    using fresh that by (auto simp: pair_fresh_def)
  show ?thesis
  proof (cases "\<exists>x y v' p line. e_pair env = Some (x, y) \<and> 0 \<le> p \<and>
      attach (dm_vhci d3) x (usb_devid (dv_device_id s)) 2 (e_attach env) = (v', p, line)")
    case False
    then have "open_fds d' = open_fds D - {fd}" "heap d' = heap D" "pending d' = pending D" "dm_udp d' = dm_udp D" "dm_srv d' = dm_srv D"
      "v_fd (dm_vhci d') = v_fd (dm_vhci d)"
      using reset r D(10)
      by (auto simp: usb_reset_def Let_def dest: attach_fd split: option.splits prod.splits if_splits)
    then show ?thesis using loose D(6-9) by (auto simp: kept_def loose_def owned_fds_def)
  next
    case True
    then obtain x y v' p line where p: "e_pair env = Some (x, y)" "0 \<le> p"
      "attach (dm_vhci d3) x (usb_devid (dv_device_id s)) 2 (e_attach env) = (v', p, line)" by blast
    let ?d = "d3\<lparr>dm_vhci := v', open_fds := open_fds d3 \<union> {x, y}\<rparr>"
    have "v_fd v' = v_fd (dm_vhci d)"
      using attach_fd [OF p(3)] r(3) by simp
    moreover have d': "d' = epollAdd y (addSession (dv_device_id s) p y x (dv_dev_addr s) (Some fd) ?d)"
      using reset r p by (simp add: usb_reset_def Let_def)
    moreover have "heap D (next_addr D) = None"
      using hub_invD(1) [OF daemon_inv_parts(1) [OF D(1)], of "next_addr D"] by (cases "heap D (next_addr D)") auto
    then have "owned_fds d' = {y, x, fd} \<union> owned_fds D"
      using pos [OF p(1)] D(2) by (auto simp: d' D(10) epollAdd_def addSession_fresh owned_fds_def session_fds_def ran_upd_new)
    ultimately show ?thesis
      using loose D(2,3,6-9) p(1) pos [OF p(1)]
      by (auto simp: kept_def loose_def new_fds_def D(10) epollAdd_def addSession_fresh)
  qed
qed

lemma handler_update_kept:
  assumes "heap d a = Some s"
  shows "kept N d (d\<lparr>heap := (heap d)(a \<mapsto> s\<lparr>dv_handler := h\<rparr>)\<rparr>)"
proof -
  let ?d = "d\<lparr>heap := (heap d)(a \<mapsto> s\<lparr>dv_handler := h\<rparr>)\<rparr>" and ?e = "d\<lparr>heap := (heap d)(a := None)\<rparr>"
  have "owned_fds ?d = session_fds (s\<lparr>dv_handler := h\<rparr>) \<union> owned_fds ?e"
    by (rule owned_without [of _ a]) simp_all
  moreover have "owned_fds d = session_fds s \<union> owned_fds ?e" using assms by (rule owned_without) simp
  ultimately have "owned_fds ?d = owned_fds d" by (simp add: session_fds_def)
  then show ?thesis by (simp add: kept_def loose_def)
qed

lemma vhci_event_kept:
  assumes inv: "daemon_inv d" and fresh: "pair_fresh env d" and s: "heap d a = Some s"
    and ev: "vhci_event env ev_fd hup inn a d = Some (d', out)"
  shows "kept (new_fds env) d d'"
proof (cases hup)
  case True
  with ev s usb_reset_kept [OF inv s fresh] show ?thesis
    by (auto simp: vhci_event_def split: if_splits)
next
  case False
  obtain ph where ph: "dv_handler s = Some ph"
    using hub_inv_linked [OF daemon_inv_parts(1) [OF inv] s] by (auto simp: session_linked_def)
  show ?thesis
  proof (cases "inn \<and> onVhciReadable ph (e_reads env) (e_sends env) \<noteq> None")
    case False
    with ev s ph \<open>\<not> hup\<close> show ?thesis by (auto simp: vhci_event_def split: if_splits option.splits)
  next
    case True
    then obtain ok ph' wire where res: "onVhciReadable ph (e_reads env) (e_sends env) = Some (ok, ph', wire)"
      by (metis not_None_eq prod_cases3)
    let ?d = "d\<lparr>heap := (heap d)(a \<mapsto> s\<lparr>dv_handler := Some ph'\<rparr>)\<rparr>"
    have "ph_vhci_fd ph' = ph_vhci_fd ph" using onVhciReadable_frame [of ph] res by fastforce
    from handler_update_inv [OF inv s ph this] have "daemon_inv ?d" .
    moreover have "d' = ?d \<or> removeSession (dv_device_id s) ?d = Some d'"
      using ev s ph \<open>\<not> hup\<close> True res by (auto simp: vhci_event_def Let_def split: if_splits)
    ultimately show ?thesis
      using handler_update_kept [OF s] by (blast intro: removeSession_kept kept_trans)
  qed
qed

lemma handle_event_kept:
  assumes inv: "daemon_inv d" and fresh: "env_fresh env d" and ev: "handle_event env ev_fd hup inn d = Some (d', out)"
  shows "kept (new_fds env) d d'"
proof -
  have pair: "pair_fresh env d" and acc: "e_accept env \<notin> open_fds d" using fresh by (simp_all add: env_fresh_def)
  have accept: "kept (new_fds env) d (onTcpAccept (e_accept env) d)"
    using acc by (auto simp: kept_def loose_def new_fds_def onTcpAccept_def owned_fds_def)
  show ?thesis
  proof (cases "ev_fd = dm_udp d \<or> ev_fd = dm_srv d")
    case True
    with ev accept show ?thesis by (auto simp: handle_event_def split: if_splits)
  next
    case False
    show ?thesis
      using ev False removeSession_kept [OF inv] hub_readable_kept [OF inv pair] vhci_event_kept [OF inv pair]
        registry.vhci_live [OF daemon_inv_parts(1) [OF inv]]
      by (fastforce simp: handle_event_def Let_def drop_dummy [OF inv] bind_eq_Some_conv split: if_splits option.splits)
  qed
qed

section \<open>A run and its end\<close>

text \<open>
  What the system answers during a run: new descriptors are not open, and a device that is reset can be
  attached again. Nothing is asked of the descriptors of the events, which may be stale.
\<close>

definition event_ok :: "int \<Rightarrow> int \<Rightarrow> bool \<Rightarrow> daemon_env \<Rightarrow> daemon \<Rightarrow> bool" where
  "event_ok epfd ev_fd hup env d \<longleftrightarrow>
     env_fresh env d \<and> {epfd, v_fd (dm_vhci d)} \<inter> new_fds env = {} \<and>
     (\<forall>a s. hup \<and> findByVhciFd ev_fd d = Some a \<and> heap d a = Some s \<and> 0 \<le> dv_vhci_port s \<longrightarrow> reset_succeeds env s d)"

fun events_ok :: "int \<Rightarrow> loop_event list \<Rightarrow> daemon \<Rightarrow> bool" where
  "events_ok epfd [] d = True"
| "events_ok epfd ((ev_fd, hup, inn, env) # evs) d =
     (event_ok epfd ev_fd hup env d \<and>
      (case handle_event env ev_fd hup inn d of
         None \<Rightarrow> True | Some (d1, out) \<Rightarrow> blocked out \<or> events_ok epfd evs d1))"

fun run_ok :: "int \<Rightarrow> (bool \<times> wait_ans) list \<Rightarrow> daemon \<Rightarrow> bool" where
  "run_ok epfd [] d = True"
| "run_ok epfd ((g_running, ans) # waits) d =
     (g_running \<longrightarrow>
      (case ans of
         Wait_Eintr \<Rightarrow> run_ok epfd waits d
       | Wait_Error \<Rightarrow> True
       | Wait_Events evs \<Rightarrow>
           events_ok epfd (take MAX_EVENTS evs) d \<and>
           (case handle_events (take MAX_EVENTS evs) d of
              None \<Rightarrow> True | Some (d1, go_on) \<Rightarrow> go_on \<longrightarrow> run_ok epfd waits d1)))"

definition run_inv :: "int \<Rightarrow> daemon \<Rightarrow> bool" where
  "run_inv epfd d \<longleftrightarrow> daemon_inv d \<and> loose d = {dm_udp d, dm_srv d} \<and> dm_udp d \<noteq> dm_srv d \<and>
     0 \<le> dm_udp d \<and> 0 \<le> dm_srv d \<and> 0 \<le> epfd \<and> 0 \<le> v_fd (dm_vhci d) \<and> epfd \<noteq> v_fd (dm_vhci d) \<and>
     {epfd, v_fd (dm_vhci d)} \<inter> open_fds d = {}"

text \<open>The set-up leads to such a state.\<close>

lemma socket_new_fds:
  "UdpSocket_new port sys fds = Some (Inr fd, fds') \<Longrightarrow> fd = sy_socket sys \<and> 0 \<le> fd \<and> fds' = insert fd fds"
  "TcpServer_new port sys fds = Some (Inr fd, fds') \<Longrightarrow> fd = sy_socket sys \<and> 0 \<le> fd \<and> fds' = insert fd fds"
  by (auto simp: UdpSocket_new_def TcpServer_new_def bind_eq_Some_conv Let_def split: if_splits)

lemma HubServer_new_fds:
  assumes "HubServer_new udp_sys tcp_sys fds = Some (Inr (udp, srv), fds')"
  shows "udp = sy_socket udp_sys \<and> srv = sy_socket tcp_sys \<and> 0 \<le> udp \<and> 0 \<le> srv \<and> fds' = {udp, srv} \<union> fds"
proof -
  obtain r fds1 where u: "UdpSocket_new DAEMON_PORT udp_sys fds = Some (r, fds1)"
    using assms by (cases "UdpSocket_new DAEMON_PORT udp_sys fds") (auto simp: HubServer_new_def)
  with assms obtain udp1 where r: "r = Inr udp1" by (cases r) (auto simp: HubServer_new_def)
  obtain r' fds2 where t: "TcpServer_new DAEMON_PORT tcp_sys fds1 = Some (r', fds2)"
    using assms u r by (cases "TcpServer_new DAEMON_PORT tcp_sys fds1") (auto simp: HubServer_new_def)
  with assms u r have "r' = Inr srv \<and> udp1 = udp \<and> fds2 = fds'"
    by (cases r') (auto simp: HubServer_new_def bind_eq_Some_conv)
  with socket_new_fds(1) [OF u [unfolded r]] socket_new_fds(2) [of DAEMON_PORT tcp_sys fds1 srv fds'] t show ?thesis by auto
qed

lemma main_setup_run_inv:
  assumes "main_setup vhci_open epfd udp_sys tcp_sys = Some (Main_Loop d)"
    and "distinct [vhci_open, epfd, sy_socket udp_sys, sy_socket tcp_sys]"
  shows "run_inv epfd d"
proof -
  have ok: "0 \<le> vhci_open" "0 \<le> epfd" using assms(1) by (auto simp: main_setup_def vhci_init_def split: if_splits)
  then obtain r fds where r: "HubServer_new udp_sys tcp_sys {} = Some (r, fds)"
    using assms(1) by (cases "HubServer_new udp_sys tcp_sys {}") (auto simp: main_setup_def vhci_init_def)
  then obtain udp srv where new: "HubServer_new udp_sys tcp_sys {} = Some (Inr (udp, srv), fds)"
    using assms(1) ok by (cases r) (auto simp: main_setup_def vhci_init_def)
  then have d: "d = epollAdd srv (epollAdd udp
      \<lparr>sessions = Map.empty, vhci_fd_map = Map.empty, tcp_fd_map = Map.empty, pending = {}, heap = Map.empty,
       next_addr = 0, open_fds = fds, dm_vhci = vhci_initial\<lparr>v_fd := vhci_open\<rparr>, dm_epoll = {}, dm_udp = udp, dm_srv = srv\<rparr>)"
    using assms(1) ok by (simp add: main_setup_def vhci_init_def)
  have "daemon_inv d"
    by (simp add: d daemon_inv_def hub_inv_def fds_inv_def owned_fds_def epollAdd_def vhci_ok_def vhci_initial_def)
  moreover have "loose d = fds" "dm_udp d = udp" "dm_srv d = srv" "open_fds d = fds" "v_fd (dm_vhci d) = vhci_open"
    by (simp_all add: d loose_def owned_fds_def epollAdd_def)
  ultimately show ?thesis
    using HubServer_new_fds [OF new] ok assms(2) by (simp add: run_inv_def)
qed

lemma run_inv_kept:
  "run_inv epfd d \<Longrightarrow> daemon_inv d' \<Longrightarrow> kept N d d' \<Longrightarrow> {epfd, v_fd (dm_vhci d)} \<inter> N = {} \<Longrightarrow> run_inv epfd d'"
  by (auto simp: run_inv_def kept_def)

lemma handle_event_run_inv:
  assumes "run_inv epfd d" and "event_ok epfd ev_fd hup env d"
  shows "\<exists>d' out. handle_event env ev_fd hup inn d = Some (d', out) \<and> run_inv epfd d'"
proof -
  have inv: "daemon_inv d" and fresh: "env_fresh env d"
    and apart: "{epfd, v_fd (dm_vhci d)} \<inter> new_fds env = {}"
    and reset: "\<forall>a s. hup \<and> findByVhciFd ev_fd d = Some a \<and> heap d a = Some s \<and> 0 \<le> dv_vhci_port s \<longrightarrow> reset_succeeds env s d"
    using assms unfolding run_inv_def event_ok_def by - (elim conjE, assumption)+
  obtain d' out where d': "handle_event env ev_fd hup inn d = Some (d', out)" "daemon_inv d'"
    using handle_event_inv [OF inv fresh reset, of inn] by (elim exE conjE)
  from run_inv_kept [OF assms(1) d'(2) handle_event_kept [OF inv fresh d'(1)] apart] d'(1) show ?thesis by blast
qed

lemma handle_events_run_inv:
  "run_inv epfd d \<Longrightarrow> events_ok epfd evs d \<Longrightarrow> \<exists>d' go_on. handle_events evs d = Some (d', go_on) \<and> run_inv epfd d'"
proof (induction evs arbitrary: d)
  case (Cons e evs)
  obtain ev_fd hup inn env where e: "e = (ev_fd, hup, inn, env)" by (metis prod_cases4)
  obtain d1 out where d1: "handle_event env ev_fd hup inn d = Some (d1, out)" "run_inv epfd d1"
    using handle_event_run_inv [OF Cons.prems(1)] Cons.prems(2) e by fastforce
  with Cons.prems(2) e Cons.IH [OF d1(2)] show ?case by auto
qed auto

lemma main_loop_run_inv:
  "run_inv epfd d \<Longrightarrow> run_ok epfd waits d \<Longrightarrow> \<exists>d' fin. main_loop waits d = Some (d', fin) \<and> run_inv epfd d'"
proof (induction waits arbitrary: d)
  case (Cons w waits)
  obtain g_running ans where w: "w = (g_running, ans)" by (cases w)
  show ?case
  proof (cases "g_running \<and> (\<exists>evs. ans = Wait_Events evs)")
    case True
    then obtain evs where evs: "ans = Wait_Events evs" by blast
    then obtain d1 go_on where "handle_events (take MAX_EVENTS evs) d = Some (d1, go_on)" "run_inv epfd d1"
      using handle_events_run_inv [OF Cons.prems(1)] Cons.prems(2) True w by fastforce
    with Cons.prems(2) Cons.IH True w evs show ?thesis by auto
  next
    case False
    with Cons.prems Cons.IH w show ?thesis by (cases ans) auto
  qed
qed auto

text \<open>The destructors close what their objects hold.\<close>

lemma close_each_all:
  "distinct pend \<Longrightarrow> set pend \<subseteq> fds \<Longrightarrow> \<forall>fd \<in> set pend. 0 \<le> fd \<Longrightarrow> close_each pend fds = Some (fds - set pend)"
proof (induction pend arbitrary: fds)
  case (Cons fd pend)
  then have "close_each pend (fds - {fd}) = Some (fds - {fd} - set pend)" by (intro Cons.IH) auto
  with Cons.prems show ?case by (auto simp: close_owned_def close_fd_def)
qed simp

lemma DeviceSession_destroy_all:
  assumes "fds_inv d" and "heap d a = Some s" and "session_fds s \<subseteq> fds"
  shows "DeviceSession_destroy s fds = Some (fds - session_fds s)"
proof -
  have "0 \<le> dv_vhci_fd s \<and> 0 \<le> dv_kernel_fd s \<and> dv_vhci_fd s \<noteq> dv_kernel_fd s \<and>
      dv_tcp_sock s \<notin> {Some (dv_vhci_fd s), Some (dv_kernel_fd s)} \<and> (\<forall>fd. dv_tcp_sock s = Some fd \<longrightarrow> 0 \<le> fd)"
    using assms(1) ranI [of "heap d", OF assms(2)] by (auto simp: fds_inv_def)
  with assms(3) show ?thesis
    by (cases "dv_tcp_sock s") (auto simp: DeviceSession_destroy_def session_fds_def close_owned_def close_fd_def)
qed

definition fds_of :: "daemon \<Rightarrow> u8 \<Rightarrow> int set" where
  "fds_of d dev = (case Option.bind (sessions d dev) (heap d) of None \<Rightarrow> {} | Some s \<Rightarrow> session_fds s)"

lemma fds_of_disjoint:
  assumes "hub_inv d" and "fds_inv d" and "dev \<noteq> dev'"
  shows "fds_of d dev \<inter> fds_of d dev' = {}"
proof (cases "Option.bind (sessions d dev) (heap d) = None \<or> Option.bind (sessions d dev') (heap d) = None")
  case True
  then show ?thesis by (auto simp: fds_of_def)
next
  case False
  then obtain a s a' s' where a: "sessions d dev = Some a" "heap d a = Some s" "sessions d dev' = Some a'" "heap d a' = Some s'"
    by (auto simp: bind_eq_Some_conv)
  then have "a \<noteq> a'" using hub_invD(2) [OF assms(1) a(1)] hub_invD(2) [OF assms(1) a(3)] assms(3) by auto
  then have "session_fds s \<inter> session_fds s' = {}" using assms(2) a(2,4) unfolding fds_inv_def by blast
  with a show ?thesis by (simp add: fds_of_def)
qed

lemma fds_of_owned:
  assumes "hub_inv d"
  shows "(\<Union>dev \<in> dom (sessions d). fds_of d dev) = owned_fds d"
proof
  show "(\<Union>dev \<in> dom (sessions d). fds_of d dev) \<subseteq> owned_fds d"
    by (auto simp: fds_of_def owned_fds_def bind_eq_Some_conv split: option.splits) (blast intro: ranI)
  have "session_fds s \<subseteq> (\<Union>dev \<in> dom (sessions d). fds_of d dev)" if "heap d a = Some s" for a s
    using hub_inv_linked [OF assms that] that by (force simp: session_linked_def fds_of_def)
  then show "owned_fds d \<subseteq> (\<Union>dev \<in> dom (sessions d). fds_of d dev)"
    unfolding owned_fds_def ran_def by blast
qed

lemma destroy_sessions_all:
  assumes hub: "hub_inv d" and inv: "fds_inv d"
  shows "distinct devs \<Longrightarrow> set devs \<subseteq> dom (sessions d) \<Longrightarrow> (\<Union>dev \<in> set devs. fds_of d dev) \<subseteq> fds \<Longrightarrow>
     destroy_sessions d devs fds = Some (fds - (\<Union>dev \<in> set devs. fds_of d dev))"
proof (induction devs arbitrary: fds)
  case (Cons dev devs)
  then obtain a where a: "sessions d dev = Some a" by auto
  then obtain s where s: "heap d a = Some s" using hub_invD(2) [OF hub] by blast
  have of: "fds_of d dev = session_fds s" using a s by (simp add: fds_of_def)
  then have "DeviceSession_destroy s fds = Some (fds - session_fds s)"
    using Cons.prems(3) s inv by (intro DeviceSession_destroy_all) auto
  moreover have "(\<Union>dev \<in> set devs. fds_of d dev) \<inter> session_fds s = {}"
    using Cons.prems(1) fds_of_disjoint [OF hub inv, of dev] of by fastforce
  then have "destroy_sessions d devs (fds - session_fds s) = Some (fds - session_fds s - (\<Union>dev \<in> set devs. fds_of d dev))"
    using Cons.prems by (intro Cons.IH) auto
  ultimately show ?case using a s of by auto
qed simp

lemma HubServer_destroy_all:
  assumes run: "run_inv epfd d" and pend: "distinct pend" "set pend = pending d"
    and devs: "distinct devs" "set devs = dom (sessions d)"
  shows "HubServer_destroy pend devs d ({v_fd (dm_vhci d)} \<union> open_fds d) = Some {v_fd (dm_vhci d)}"
proof -
  let ?v = "v_fd (dm_vhci d)"
  have inv: "daemon_inv d" and loose: "loose d = {dm_udp d, dm_srv d}" and udp: "dm_udp d \<noteq> dm_srv d" "0 \<le> dm_udp d" "0 \<le> dm_srv d"
    and v: "?v \<notin> open_fds d" using run by (auto simp: run_inv_def)
  have fds: "owned_fds d \<subseteq> open_fds d" "pending d \<subseteq> open_fds d" "owned_fds d \<inter> pending d = {}" "\<forall>fd \<in> pending d. 0 \<le> fd"
    using daemon_inv_parts(2) [OF inv] by (auto simp: fds_inv_def)
  have "close_each pend ({?v} \<union> open_fds d) = Some ({?v} \<union> open_fds d - pending d)"
    using close_each_all [OF pend(1), of "{?v} \<union> open_fds d"] pend(2) fds by auto
  moreover have "destroy_sessions d devs ({?v} \<union> open_fds d - pending d) = Some ({?v} \<union> open_fds d - pending d - owned_fds d)"
    using destroy_sessions_all [OF daemon_inv_parts(1) [OF inv] daemon_inv_parts(2) [OF inv] devs(1),
        of "{?v} \<union> open_fds d - pending d"] devs(2) fds_of_owned [OF daemon_inv_parts(1) [OF inv]] fds
    by (simp add: Diff_eq) blast
  moreover have "{?v} \<union> open_fds d - pending d - owned_fds d = {?v, dm_udp d, dm_srv d}"
    using loose fds v by (auto simp: loose_def)
  moreover have "dm_udp d \<in> open_fds d" "dm_srv d \<in> open_fds d" using loose by (auto simp: loose_def)
  ultimately show ?thesis
    using udp v by (auto simp: HubServer_destroy_def close_owned_def close_fd_def)
qed

lemma daemon_exit_all:
  assumes run: "run_inv epfd d" and orders: "distinct pend" "set pend = pending d" "distinct devs" "set devs = dom (sessions d)"
  shows "\<exists>v. daemon_exit epfd ans1 ans2 pend devs d = Some (v, {}) \<and>
     used_ports v = {i \<in> used_ports (dm_vhci d). ans1 i \<noteq> (True, 1) \<and> ans2 i \<noteq> (True, 1)}"
proof -
  let ?d = "d\<lparr>dm_vhci := detachAll ans1 (dm_vhci d)\<rparr>" and ?v = "v_fd (dm_vhci d)"
  have ok: "vhci_ok (detachAll ans1 (dm_vhci d))" "0 \<le> ?v" "epfd \<noteq> ?v" "epfd \<notin> open_fds d"
    using run detachAll_ok [of "dm_vhci d" ans1] by (auto simp: run_inv_def daemon_inv_def)
  have "run_inv epfd ?d" using run ok(1) by (simp add: run_inv_def daemon_inv_def)
  from HubServer_destroy_all [OF this] orders have "HubServer_destroy pend devs ?d ({?v} \<union> open_fds d) = Some {?v}" by simp
  moreover have "close_fd epfd (process_fds epfd d) = Some ({?v} \<union> open_fds d)"
    using ok(3,4) by (auto simp: close_fd_def process_fds_def)
  moreover have "used_ports (detachAll ans2 (detachAll ans1 (dm_vhci d))) =
      {i \<in> used_ports (dm_vhci d). ans1 i \<noteq> (True, 1) \<and> ans2 i \<noteq> (True, 1)}"
    using run ok(1) by (auto simp: detachAll_used run_inv_def daemon_inv_def)
  ultimately show ?thesis
    using ok(2) by (simp add: daemon_exit_def VhciDriver_destroy_def close_owned_def close_fd_def)
qed



end
