(* ===== verification/Device_Ops.thy ===== *)
theory Device_Ops
  imports Prelude
begin

text \<open>
  The interface between the session layer and a physical driver
  (\<open>esp-codes/main/device_session.h\<close>): the table of function pointers \<open>device_ops_t\<close>, the session
  configuration, and the contract the header states for \<open>recv\<close> and \<open>send\<close> as the locale
  \<open>device_driver\<close>. The USB driver interprets it; the session layer proves its lemmas inside it.
\<close>

text \<open>
  The functions act on the driver's state \<open>'s\<close>; \<open>'r\<close> and \<open>'w\<close> are what the hardware answers to a
  read and to a write. \<open>recv\<close> gives the returned \<open>ssize_t\<close> and the bytes written to the caller's
  buffer of the given size; \<open>None\<close> is a memory fault.
\<close>

record ('s, 'r, 'w) device_ops =
  ops_recv :: "'s \<Rightarrow> 'r \<Rightarrow> nat \<Rightarrow> (int \<times> byte list) option"
  ops_send :: "'s \<Rightarrow> 'w \<Rightarrow> byte list \<Rightarrow> ('s \<times> bool) option"

record device_session_cfg =
  cfg_device_id :: u8
  cfg_speed :: u8
  cfg_usb_class :: u8
  cfg_subclass :: u8
  cfg_protocol :: u8
  cfg_usbip_mode :: bool

locale device_driver =
  fixes ops :: "('s, 'r, 'w) device_ops"
    and drv_inv :: "'s \<Rightarrow> bool"
    and answer_ok :: "'r \<Rightarrow> bool"
  assumes recv_contract:
      "drv_inv st \<Longrightarrow> answer_ok e \<Longrightarrow>
         \<exists>n bs. ops_recv ops st e max_len = Some (n, bs)
           \<and> (n < 0 \<and> bs = [] \<or> n = int (length bs) \<and> length bs \<le> max_len)"
    and send_contract:
      "drv_inv st \<Longrightarrow> \<exists>st' b. ops_send ops st w buf = Some (st', b) \<and> drv_inv st'"
begin

lemma recv_bound:
  "drv_inv st \<Longrightarrow> answer_ok e \<Longrightarrow> ops_recv ops st e max_len = Some (n, bs) \<Longrightarrow>
     length bs \<le> max_len \<and> (n < 0 \<longleftrightarrow> n \<noteq> int (length bs))"
  using recv_contract [of st e max_len] by fastforce

lemma send_step:
  "drv_inv st \<Longrightarrow> ops_send ops st w buf = Some (st', b) \<Longrightarrow> drv_inv st'"
  using send_contract [of st w buf] by fastforce

end

end
