(* ===== verification/Reassembly.thy ===== *)
theory Reassembly
  imports Device_Ops Protocol
begin

text \<open>
  The one-slot reassembly buffer of the firmware's session layer
  (\<open>esp-codes/main/device_session.c\<close>, \<open>reasm_state_t\<close> and \<open>reasm_push\<close>): collecting the fragments of
  a transfer and handing them to the driver in order. The driver is a table \<open>device_ops\<close>; what is
  proved about it uses only the contract \<open>device_driver\<close>.
\<close>

definition REASM_MAX_FRAGS :: nat where [const_defs]: "REASM_MAX_FRAGS = 8"
definition REASM_FRAG_LEN :: nat where [const_defs]: "REASM_FRAG_LEN = 1536"

record reasm_state =
  r_active :: bool
  r_transfer_seq :: u16
  r_total :: u8
  r_received :: u8
  r_have :: "bool list"
  r_data :: "byte list list"
  r_lens :: "u16 list"

text \<open>The state after \<open>memset(r, 0, sizeof( *r))\<close>.\<close>

definition reasm_zero :: reasm_state where
  "reasm_zero = \<lparr>r_active = False, r_transfer_seq = 0, r_total = 0, r_received = 0,
     r_have = replicate REASM_MAX_FRAGS False,
     r_data = replicate REASM_MAX_FRAGS (replicate REASM_FRAG_LEN 0),
     r_lens = replicate REASM_MAX_FRAGS 0\<rparr>"

text \<open>A new transfer resets the slot.\<close>

definition reasm_begin :: "reasm_state \<Rightarrow> u16 \<Rightarrow> u8 \<Rightarrow> reasm_state" where
  "reasm_begin r tseq tot =
     (if \<not> r_active r \<or> r_transfer_seq r \<noteq> tseq
      then reasm_zero\<lparr>r_active := True, r_transfer_seq := tseq, r_total := tot\<rparr> else r)"

text \<open>Storing a fragment that is not there yet; the caller has checked \<open>idx < REASM_MAX_FRAGS\<close>.\<close>

definition reasm_store :: "reasm_state \<Rightarrow> nat \<Rightarrow> byte list \<Rightarrow> reasm_state option" where
  "reasm_store r idx chunk =
     (if r_have r ! idx then Some r
      else
        let copy_len = (if length chunk < REASM_FRAG_LEN then length chunk else REASM_FRAG_LEN) in
        do {
          bs \<leftarrow> mem_read chunk 0 copy_len;
          row \<leftarrow> memcpy_at (r_data r ! idx) 0 bs;
          Some (r\<lparr>r_data := (r_data r)[idx := row], r_lens := (r_lens r)[idx := of_nat copy_len],
                  r_have := (r_have r)[idx := True], r_received := r_received r + 1\<rparr>) })"

text \<open>The final loop: the fragments \<open>i, i + 1, \<dots>\<close> to the driver until it refuses one.\<close>

fun reasm_deliver ::
  "('s, 'r, 'w) device_ops \<Rightarrow> (nat \<Rightarrow> 'w) \<Rightarrow> reasm_state \<Rightarrow> nat \<Rightarrow> nat \<Rightarrow> 's \<Rightarrow> 's option" where
  "reasm_deliver ops ws r i 0 st = Some st"
| "reasm_deliver ops ws r i (Suc k) st =
     (if REASM_MAX_FRAGS \<le> i then None
      else do {
        frame \<leftarrow> mem_read (r_data r ! i) 0 (unat (r_lens r ! i));
        (st', ok) \<leftarrow> ops_send ops st (ws i) frame;
        if ok then reasm_deliver ops ws r (Suc i) k st' else Some st' })"

definition reasm_push ::
  "('s, 'r, 'w) device_ops \<Rightarrow> (nat \<Rightarrow> 'w) \<Rightarrow> reasm_state \<Rightarrow> 's \<Rightarrow> u16 \<Rightarrow> u8 \<Rightarrow> u8 \<Rightarrow> byte list
     \<Rightarrow> (reasm_state \<times> 's \<times> bool) option" where
  "reasm_push ops ws r st tseq idx tot chunk =
     (if tot = 0 \<or> idx \<ge> tot \<or> unat idx \<ge> REASM_MAX_FRAGS then Some (r, st, False)
      else do {
        let chunk' = take REASM_FRAG_LEN chunk;
        r2 \<leftarrow> reasm_store (reasm_begin r tseq tot) (unat idx) chunk';
        if r_received r2 < r_total r2 then Some (r2, st, False)
        else do {
          st' \<leftarrow> reasm_deliver ops ws r2 0 (unat (r_total r2)) st;
          Some (r2\<lparr>r_active := False\<rparr>, st', True) } })"

section \<open>Invariant\<close>

text \<open>
  The arrays keep their sizes, the counter is the number of fragments present, and a present
  fragment's length is within its row.
\<close>

definition reasm_inv :: "reasm_state \<Rightarrow> bool" where
  "reasm_inv r \<longleftrightarrow>
     length (r_have r) = REASM_MAX_FRAGS \<and> length (r_data r) = REASM_MAX_FRAGS \<and>
     length (r_lens r) = REASM_MAX_FRAGS \<and>
     (\<forall>row \<in> set (r_data r). length row = REASM_FRAG_LEN) \<and>
     (\<forall>n \<in> set (r_lens r). unat n \<le> REASM_FRAG_LEN) \<and>
     unat (r_received r) = length (filter (\<lambda>b. b) (r_have r))"

lemma reasm_inv_zero: "reasm_inv reasm_zero"
  by (simp add: reasm_inv_def reasm_zero_def)

lemma reasm_inv_active [simp]: "reasm_inv (r\<lparr>r_active := b\<rparr>) = reasm_inv r"
  by (simp add: reasm_inv_def)

lemma reasm_inv_begin: "reasm_inv r \<Longrightarrow> reasm_inv (reasm_begin r tseq tot)"
  using reasm_inv_zero by (simp add: reasm_begin_def reasm_inv_def)

lemma filter_list_update:
  "i < length xs \<Longrightarrow> \<not> xs ! i \<Longrightarrow>
     length (filter (\<lambda>b. b) (xs[i := True])) = Suc (length (filter (\<lambda>b. b) xs))"
proof (induction xs arbitrary: i)
  case Nil
  then show ?case by simp
next
  case (Cons x xs)
  then show ?case by (cases i) auto
qed

lemma received_le: "reasm_inv r \<Longrightarrow> unat (r_received r) \<le> REASM_MAX_FRAGS"
  by (metis length_filter_le reasm_inv_def)

lemma reasm_store_Some:
  assumes inv: "reasm_inv r" and i: "i < REASM_MAX_FRAGS" and new: "\<not> r_have r ! i"
    and len: "length chunk \<le> REASM_FRAG_LEN"
  shows "\<exists>row. reasm_store r i chunk =
           Some (r\<lparr>r_data := (r_data r)[i := row], r_lens := (r_lens r)[i := of_nat (length chunk)],
                   r_have := (r_have r)[i := True], r_received := r_received r + 1\<rparr>)
         \<and> length row = REASM_FRAG_LEN \<and> take (length chunk) row = chunk"
proof -
  have row: "length (r_data r ! i) = REASM_FRAG_LEN"
    using inv i by (simp add: reasm_inv_def)
  have cl: "(if length chunk < REASM_FRAG_LEN then length chunk else REASM_FRAG_LEN) = length chunk"
    using len by simp
  show ?thesis
    by (rule exI [of _ "chunk @ drop (length chunk) (r_data r ! i)"])
      (use new len row in \<open>simp add: reasm_store_def cl mem_read_def memcpy_at_def Let_def\<close>)
qed

lemma reasm_inv_stored:
  assumes inv: "reasm_inv r" and i: "i < REASM_MAX_FRAGS" and new: "\<not> r_have r ! i"
    and len: "n \<le> REASM_FRAG_LEN" and row: "length row = REASM_FRAG_LEN"
  shows "reasm_inv (r\<lparr>r_data := (r_data r)[i := row], r_lens := (r_lens r)[i := of_nat n],
           r_have := (r_have r)[i := True], r_received := r_received r + 1\<rparr>)"
proof -
  have "i < length (r_have r)" using inv i by (simp add: reasm_inv_def)
  then have cnt: "length (filter (\<lambda>b. b) ((r_have r)[i := True])) = Suc (unat (r_received r))"
    using inv new by (simp add: filter_list_update reasm_inv_def)
  have "unat (r_received r) \<le> 8"
    using received_le [OF inv] by (simp add: REASM_MAX_FRAGS_def)
  then have rec: "unat (r_received r + 1) = Suc (unat (r_received r))"
    by (simp add: unat_word_ariths)
  have n: "unat (of_nat n :: u16) = n"
    using len by (intro unat_of_nat_16) (simp add: REASM_FRAG_LEN_def)
  show ?thesis
    using inv row len cnt rec n set_update_subset_insert
    unfolding reasm_inv_def by (auto dest!: subsetD [OF set_update_subset_insert])
qed

lemma reasm_store_inv:
  assumes "reasm_inv r" and "i < REASM_MAX_FRAGS" and "length chunk \<le> REASM_FRAG_LEN"
  shows "\<exists>r'. reasm_store r i chunk = Some r' \<and> reasm_inv r' \<and> r_total r' = r_total r"
proof (cases "r_have r ! i")
  case True
  with assms(1) show ?thesis by (simp add: reasm_store_def)
next
  case False
  with reasm_store_Some [OF assms(1,2) False assms(3)] reasm_inv_stored [OF assms(1,2) False assms(3)]
  show ?thesis by auto
qed

text \<open>The frames are within the arrays, so the delivery loop is a plain loop over the rows.\<close>

definition reasm_frame :: "reasm_state \<Rightarrow> nat \<Rightarrow> byte list" where
  "reasm_frame r i = take (unat (r_lens r ! i)) (r_data r ! i)"

fun send_all :: "('s, 'r, 'w) device_ops \<Rightarrow> (nat \<Rightarrow> 'w) \<Rightarrow> nat \<Rightarrow> 's \<Rightarrow> byte list list \<Rightarrow> 's option" where
  "send_all ops ws i st [] = Some st"
| "send_all ops ws i st (f # fs) =
     do { (st', ok) \<leftarrow> ops_send ops st (ws i) f;
          if ok then send_all ops ws (Suc i) st' fs else Some st' }"

lemma reasm_row_read:
  assumes "reasm_inv r" and "i < REASM_MAX_FRAGS"
  shows "mem_read (r_data r ! i) 0 (unat (r_lens r ! i)) = Some (reasm_frame r i)"
  using assms by (simp add: mem_read_def reasm_frame_def reasm_inv_def)

lemma reasm_deliver_send_all:
  assumes "reasm_inv r" and "i + k \<le> REASM_MAX_FRAGS"
  shows "reasm_deliver ops ws r i k st = send_all ops ws i st (map (reasm_frame r) [i..<i + k])"
  using assms(2)
proof (induction k arbitrary: i st)
  case 0
  then show ?case by simp
next
  case (Suc k)
  then have "[i..<i + Suc k] = i # [Suc i..<Suc i + k]" by (simp add: upt_rec)
  moreover have "mem_read (r_data r ! i) 0 (unat (r_lens r ! i)) = Some (reasm_frame r i)"
    using Suc.prems by (intro reasm_row_read [OF assms(1)]) simp
  moreover have "\<not> REASM_MAX_FRAGS \<le> i" and "Suc i + k \<le> REASM_MAX_FRAGS"
    using Suc.prems by simp_all
  ultimately show ?case
    using Suc.IH by (simp cong: option.case_cong if_cong)
qed

context device_driver
begin

lemma send_all_inv: "drv_inv st \<Longrightarrow> \<exists>st'. send_all ops ws i st fs = Some st' \<and> drv_inv st'"
proof (induction fs arbitrary: i st)
  case Nil
  then show ?case by simp
next
  case (Cons f fs)
  obtain st' b where "ops_send ops st (ws i) f = Some (st', b)" and "drv_inv st'"
    using send_contract [OF Cons.prems] by blast
  with Cons.IH show ?case by simp
qed

lemma reasm_push_safe:
  assumes inv: "reasm_inv r" and drv: "drv_inv st"
  shows "\<exists>r' st' b. reasm_push ops ws r st tseq idx tot chunk = Some (r', st', b)
           \<and> reasm_inv r' \<and> drv_inv st'"
proof (cases "tot = 0 \<or> idx \<ge> tot \<or> unat idx \<ge> REASM_MAX_FRAGS")
  case True
  with assms show ?thesis by (auto simp: reasm_push_def)
next
  case False
  then have i: "unat idx < REASM_MAX_FRAGS" by simp
  obtain r2 where r2: "reasm_store (reasm_begin r tseq tot) (unat idx) (take REASM_FRAG_LEN chunk) = Some r2"
    and inv2: "reasm_inv r2"
    using reasm_store_inv [OF reasm_inv_begin [OF inv] i] by (metis length_take min.cobounded2)
  show ?thesis
  proof (cases "r_received r2 < r_total r2")
    case True
    with False r2 inv2 drv show ?thesis by (auto simp: reasm_push_def)
  next
    case full: False
    then have "0 + unat (r_total r2) \<le> REASM_MAX_FRAGS"
      using received_le [OF inv2] by (simp add: word_less_nat_alt)
    then have loop: "reasm_deliver ops ws r2 0 (unat (r_total r2)) st =
        send_all ops ws 0 st (map (reasm_frame r2) [0..<unat (r_total r2)])"
      using reasm_deliver_send_all [OF inv2, of 0] by simp
    obtain st' where "send_all ops ws 0 st (map (reasm_frame r2) [0..<unat (r_total r2)]) = Some st'"
      and "drv_inv st'" using send_all_inv [OF drv] by blast
    with False full r2 inv2 loop show ?thesis by (auto simp: reasm_push_def)
  qed
qed

end

section \<open>Any order of the fragments\<close>

text \<open>What the slot holds, as a map from fragment numbers to fragments.\<close>

definition reasm_abs :: "reasm_state \<Rightarrow> nat \<Rightarrow> byte list option" where
  "reasm_abs r i = (if i < REASM_MAX_FRAGS \<and> r_have r ! i then Some (reasm_frame r i) else None)"

text \<open>A sequence of arrivals of one transfer: the answers of the successive calls.\<close>

fun reasm_feed ::
  "('s, 'r, 'w) device_ops \<Rightarrow> (nat \<Rightarrow> 'w) \<Rightarrow> u16 \<Rightarrow> u8 \<Rightarrow> reasm_state \<Rightarrow> 's \<Rightarrow> (nat \<times> byte list) list
     \<Rightarrow> ('s \<times> bool list) option" where
  "reasm_feed ops ws tseq tot r st [] = Some (st, [])"
| "reasm_feed ops ws tseq tot r st ((i, chunk) # rest) =
     do { (r', st', b) \<leftarrow> reasm_push ops ws r st tseq (of_nat i) tot chunk;
          (st'', bs) \<leftarrow> reasm_feed ops ws tseq tot r' st' rest;
          Some (st'', b # bs) }"

lemma reasm_abs_zero: "reasm_abs (reasm_zero\<lparr>r_active := a, r_transfer_seq := t, r_total := n\<rparr>) = Map.empty"
  by (rule ext) (simp add: reasm_abs_def reasm_zero_def)

lemma received_card:
  "reasm_inv r \<Longrightarrow> unat (r_received r) = card (dom (reasm_abs r))"
  by (auto simp: reasm_inv_def length_filter_conv_card reasm_abs_def dom_def intro!: arg_cong [where f = card])

lemma reasm_store_refines:
  assumes inv: "reasm_inv r" and i: "i < REASM_MAX_FRAGS" and new: "reasm_abs r i = None"
    and len: "length chunk \<le> REASM_FRAG_LEN"
  shows "\<exists>r'. reasm_store r i chunk = Some r' \<and> reasm_inv r' \<and> reasm_abs r' = (reasm_abs r)(i \<mapsto> chunk)
           \<and> r_active r' = r_active r \<and> r_transfer_seq r' = r_transfer_seq r \<and> r_total r' = r_total r"
proof -
  have new': "\<not> r_have r ! i" using new i by (auto simp: reasm_abs_def split: if_splits)
  obtain row where st: "reasm_store r i chunk =
      Some (r\<lparr>r_data := (r_data r)[i := row], r_lens := (r_lens r)[i := of_nat (length chunk)],
              r_have := (r_have r)[i := True], r_received := r_received r + 1\<rparr>)"
    and row: "length row = REASM_FRAG_LEN" "take (length chunk) row = chunk"
    using reasm_store_Some [OF inv i new' len] by blast
  have n: "unat (of_nat (length chunk) :: u16) = length chunk"
    using len by (intro unat_of_nat_16) (simp add: REASM_FRAG_LEN_def)
  have "length (r_have r) = REASM_MAX_FRAGS" "length (r_data r) = REASM_MAX_FRAGS"
    "length (r_lens r) = REASM_MAX_FRAGS" using inv by (simp_all add: reasm_inv_def)
  then show ?thesis
    using st reasm_inv_stored [OF inv i new' len row(1)] row(2) n i
    by (auto simp: reasm_abs_def reasm_frame_def nth_list_update fun_eq_iff)
qed

text \<open>One arrival, in terms of the map.\<close>

lemma reasm_push_abs:
  assumes inv: "reasm_inv (reasm_begin r tseq tot)" and tot: "r_total (reasm_begin r tseq tot) = tot"
    and i: "i < unat tot" and n: "unat tot \<le> REASM_MAX_FRAGS" and len: "length chunk \<le> REASM_FRAG_LEN"
    and new: "reasm_abs (reasm_begin r tseq tot) i = None"
    and m: "m = (reasm_abs (reasm_begin r tseq tot))(i \<mapsto> chunk)" and dom: "dom m \<subseteq> {..<unat tot}"
  shows "\<exists>r'. reasm_inv r' \<and> reasm_abs r' = m \<and> r_active r' \<and> r_transfer_seq r' = tseq \<and> r_total r' = tot \<and>
     reasm_push ops ws r st tseq (of_nat i) tot chunk =
       (if card (dom m) < unat tot then Some (r', st, False)
        else map_option (\<lambda>st'. (r'\<lparr>r_active := False\<rparr>, st', True))
               (send_all ops ws 0 st (map (\<lambda>i. the (m i)) [0..<unat tot])))"
proof -
  let ?r = "reasm_begin r tseq tot"
  have i8: "i < REASM_MAX_FRAGS" using i n by simp
  obtain r' where r': "reasm_store ?r i chunk = Some r'" "reasm_inv r'" "reasm_abs r' = m"
      "r_active r' = r_active ?r" "r_transfer_seq r' = r_transfer_seq ?r" "r_total r' = tot"
    using reasm_store_refines [OF inv i8 new len] m tot by auto
  have act: "r_active ?r" "r_transfer_seq ?r = tseq" by (auto simp: reasm_begin_def)
  have ui: "unat (of_nat i :: u8) = i"
    using i8 by (intro unat_of_nat_8) (simp add: REASM_MAX_FRAGS_def)
  have guard: "\<not> (tot = 0 \<or> of_nat i \<ge> tot \<or> unat (of_nat i :: u8) \<ge> REASM_MAX_FRAGS)"
    using i i8 ui by (auto simp: word_le_nat_alt)
  have cnt: "r_received r' < tot \<longleftrightarrow> card (dom m) < unat tot"
    using received_card [OF r'(2)] r'(3) by (simp add: word_less_nat_alt)
  have frames: "map (reasm_frame r') [0..<unat tot] = map (\<lambda>i. the (m i)) [0..<unat tot]"
    if "\<not> card (dom m) < unat tot"
  proof -
    have "dom m = {..<unat tot}"
      using that dom by (intro card_seteq) simp_all
    then have "\<exists>y. m j = Some y" if "j < unat tot" for j using that by (auto simp: dom_def set_eq_iff)
    then show ?thesis
      using r'(3) by (fastforce simp: reasm_abs_def split: if_splits)
  qed
  have loop: "reasm_deliver ops ws r' 0 (unat tot) st = send_all ops ws 0 st (map (\<lambda>i. the (m i)) [0..<unat tot])"
    if "\<not> card (dom m) < unat tot"
    using reasm_deliver_send_all [OF r'(2), of 0 "unat tot" ops ws st] n by (simp only: frames [OF that] add_0)
  show ?thesis
    using r' act guard ui cnt loop len
    by (intro exI [of _ r']) (auto simp: reasm_push_def option_map_bind)
qed

text \<open>
  The arrivals \<open>order\<close> complete the transfer \<open>chunks\<close> of which the fragments \<open>D\<close> are already in the
  slot.
\<close>

lemma reasm_feed_rest:
  assumes "reasm_inv (reasm_begin r tseq tot)" and "r_total (reasm_begin r tseq tot) = tot"
    and "reasm_abs (reasm_begin r tseq tot) = (\<lambda>i. if i \<in> D then Some (chunks ! i) else None)"
    and "D \<union> set order = {..<unat tot}" and "D \<inter> set order = {}" and "distinct order" and "order \<noteq> []"
    and n: "unat tot = length chunks" and max: "unat tot \<le> REASM_MAX_FRAGS"
    and len: "\<And>c. c \<in> set chunks \<Longrightarrow> length c \<le> REASM_FRAG_LEN"
  shows "reasm_feed ops ws tseq tot r st (map (\<lambda>i. (i, chunks ! i)) order) =
     map_option (\<lambda>st'. (st', replicate (length order - 1) False @ [True])) (send_all ops ws 0 st chunks)"
  using assms(1-7)
proof (induction order arbitrary: r D)
  case Nil
  then show ?case by simp
next
  case (Cons i order)
  let ?m = "\<lambda>j. if j \<in> insert i D then Some (chunks ! j) else None"
  have i: "i < unat tot" and len_i: "length (chunks ! i) \<le> REASM_FRAG_LEN"
    using Cons.prems(4) n len [OF nth_mem] by auto
  have domm: "dom ?m = insert i D" by (auto simp: dom_def)
  have D: "finite (insert i D)" "insert i D \<inter> set order = {}" "insert i D \<union> set order = {..<unat tot}"
    using Cons.prems(4-6) by (auto intro: finite_subset [of _ "{..<unat tot}"])
  then have card: "card (insert i D) + length order = unat tot"
    using Cons.prems(6) card_Un_disjoint [of "insert i D" "set order"] by (simp add: distinct_card)
  have new: "reasm_abs (reasm_begin r tseq tot) i = None" using Cons.prems(3,5) by simp
  have m: "?m = (reasm_abs (reasm_begin r tseq tot))(i \<mapsto> chunks ! i)"
    using Cons.prems(3) by (auto simp: fun_eq_iff)
  have dm: "dom ?m \<subseteq> {..<unat tot}" using domm D(3) by blast
  obtain r' where r': "reasm_inv r'" "reasm_abs r' = ?m" "r_active r'" "r_transfer_seq r' = tseq" "r_total r' = tot"
    and push: "reasm_push ops ws r st tseq (of_nat i) tot (chunks ! i) =
       (if card (dom ?m) < unat tot then Some (r', st, False)
        else map_option (\<lambda>st'. (r'\<lparr>r_active := False\<rparr>, st', True))
               (send_all ops ws 0 st (map (\<lambda>i. the (?m i)) [0..<unat tot])))"
    using reasm_push_abs [OF Cons.prems(1,2) i max len_i new m dm, of ops ws st] by blast
  have begin_r': "reasm_begin r' tseq tot = r'" using r' by (simp add: reasm_begin_def)
  show ?case
  proof (cases "order = []")
    case True
    then have "map (\<lambda>i. the (?m i)) [0..<unat tot] = chunks"
      using D(3) n by (intro nth_equalityI) auto
    with True push card domm show ?thesis
      by (simp add: option_map_bind)
  next
    case False
    have "reasm_feed ops ws tseq tot r' st (map (\<lambda>i. (i, chunks ! i)) order) =
      map_option (\<lambda>st'. (st', replicate (length order - 1) False @ [True])) (send_all ops ws 0 st chunks)"
      using Cons.prems(6) False r' D(2,3) by (intro Cons.IH [of r' "insert i D"]) (simp_all add: begin_r')
    moreover have "card (dom ?m) < unat tot" using False card domm by (cases order) simp_all
    moreover have "length order = Suc (length order - 1)" using False by (cases order) simp_all
    ultimately show ?thesis
      using push by (cases "send_all ops ws 0 st chunks") (simp_all flip: replicate_Suc)
  qed
qed

text \<open>
  A transfer of at most eight fragments is delivered whole whatever the order in which the
  fragments arrive: every call but the last answers \<open>false\<close> and leaves the driver alone, the last one
  answers \<open>true\<close>, and the driver has then been given exactly the fragments in transfer order (up to
  the first one it refuses).
\<close>

lemma reasm_feed_order:
  assumes "reasm_inv r" and "\<not> r_active r \<or> r_transfer_seq r \<noteq> tseq"
    and "distinct order" and "set order = {..<length chunks}"
    and "chunks \<noteq> []" and "length chunks \<le> REASM_MAX_FRAGS"
    and "\<And>c. c \<in> set chunks \<Longrightarrow> length c \<le> REASM_FRAG_LEN"
  shows "reasm_feed ops ws tseq (of_nat (length chunks)) r st (map (\<lambda>i. (i, chunks ! i)) order) =
     map_option (\<lambda>st'. (st', replicate (length chunks - 1) False @ [True])) (send_all ops ws 0 st chunks)"
proof -
  let ?tot = "of_nat (length chunks) :: u8"
  have n: "unat ?tot = length chunks"
    using assms(6) by (intro unat_of_nat_8) (simp add: REASM_MAX_FRAGS_def)
  have zero: "reasm_begin r tseq ?tot = reasm_zero\<lparr>r_active := True, r_transfer_seq := tseq, r_total := ?tot\<rparr>"
    using assms(2) by (simp add: reasm_begin_def)
  have len: "length order = length chunks"
    using assms(3,4) distinct_card by fastforce
  then have "order \<noteq> []" using assms(5) by auto
  moreover have "reasm_inv (reasm_begin r tseq ?tot)" by (rule reasm_inv_begin [OF assms(1)])
  ultimately show ?thesis
    using assms n len reasm_feed_rest [of r tseq ?tot "{}" chunks order ops ws st]
    by (auto simp: zero reasm_abs_zero)
qed

end
