(* ===== verification/Usbip_Proto.thy ===== *)
theory Usbip_Proto
  imports Prelude
begin

text \<open>
  The USB/IP wire structures of the firmware (\<open>esp-codes/main/usbip_proto.h\<close>). The C code copies
  the 48 bytes into a struct on a little-endian machine, so a field holds the byte-swapped value
  until \<open>USBIP_U32\<close> is applied; the records here hold the raw field, as the struct does.
\<close>

section \<open>Byte swapping\<close>

definition USBIP_U32 :: "u32 \<Rightarrow> u32" where
  "USBIP_U32 x =
     le32_of (ucast (drop_bit 24 x)) (ucast (drop_bit 16 x)) (ucast (drop_bit 8 x)) (ucast x)"

lemma USBIP_U32_involution [simp]: "USBIP_U32 (USBIP_U32 x) = x"
  by (simp add: USBIP_U32_def)

lemma USBIP_U32_eq_iff: "USBIP_U32 x = y \<longleftrightarrow> x = USBIP_U32 y"
  by (metis USBIP_U32_involution)

lemma USBIP_U32_bytes: "le32_bytes (USBIP_U32 x) = rev (le32_bytes x)"
  by (simp add: USBIP_U32_def le32_bytes_def)

section \<open>Codes\<close>

definition USBIP_CMD_SUBMIT :: u32 where [const_defs]: "USBIP_CMD_SUBMIT = 1"
definition USBIP_CMD_UNLINK :: u32 where [const_defs]: "USBIP_CMD_UNLINK = 2"
definition USBIP_RET_SUBMIT :: u32 where [const_defs]: "USBIP_RET_SUBMIT = 3"
definition USBIP_RET_UNLINK :: u32 where [const_defs]: "USBIP_RET_UNLINK = 4"
definition USBIP_DIR_OUT :: u32 where [const_defs]: "USBIP_DIR_OUT = 0"
definition USBIP_DIR_IN :: u32 where [const_defs]: "USBIP_DIR_IN = 1"

section \<open>Structures\<close>

text \<open>The eight-byte arrays \<open>setup[8]\<close> and \<open>padding[8]\<close>; \<open>padding[24]\<close> is three of them.\<close>

datatype arr8 = Arr8 byte byte byte byte byte byte byte byte

fun arr8_bytes :: "arr8 \<Rightarrow> byte list" where
  "arr8_bytes (Arr8 a b c d e f g h) = [a, b, c, d, e, f, g, h]"

definition arr8_zero :: arr8 where
  "arr8_zero = Arr8 0 0 0 0 0 0 0 0"

lemma length_arr8_bytes [simp]: "length (arr8_bytes a) = 8"
  by (cases a) simp

record usbip_cmd_submit =
  cs_command :: u32
  cs_seqnum :: u32
  cs_devid :: u32
  cs_direction :: u32
  cs_ep :: u32
  cs_transfer_flags :: u32
  cs_transfer_buffer_length :: u32
  cs_start_frame :: u32
  cs_number_of_packets :: u32
  cs_interval :: u32
  cs_setup :: arr8

record usbip_ret_submit =
  rs_command :: u32
  rs_seqnum :: u32
  rs_devid :: u32
  rs_direction :: u32
  rs_ep :: u32
  rs_status :: u32
  rs_actual_length :: u32
  rs_start_frame :: u32
  rs_number_of_packets :: u32
  rs_error_count :: u32
  rs_padding :: arr8

record usbip_cmd_unlink =
  cu_command :: u32
  cu_seqnum :: u32
  cu_devid :: u32
  cu_direction :: u32
  cu_ep :: u32
  cu_unlink_seqnum :: u32
  cu_padding :: "arr8 \<times> arr8 \<times> arr8"

record usbip_ret_unlink =
  ru_command :: u32
  ru_seqnum :: u32
  ru_devid :: u32
  ru_direction :: u32
  ru_ep :: u32
  ru_status :: u32
  ru_padding :: "arr8 \<times> arr8 \<times> arr8"

definition sizeof_usbip :: nat where [wire_size]: "sizeof_usbip = 48"

text \<open>Reading a field at its offset, in a buffer known to be long enough.\<close>

definition u32_at :: "byte list \<Rightarrow> nat \<Rightarrow> u32" where
  "u32_at bs i = le32_of (bs ! i) (bs ! (i + 1)) (bs ! (i + 2)) (bs ! (i + 3))"

definition arr8_at :: "byte list \<Rightarrow> nat \<Rightarrow> arr8" where
  "arr8_at bs i = Arr8 (bs ! i) (bs ! (i + 1)) (bs ! (i + 2)) (bs ! (i + 3))
                       (bs ! (i + 4)) (bs ! (i + 5)) (bs ! (i + 6)) (bs ! (i + 7))"

definition enc_cmd_submit :: "usbip_cmd_submit \<Rightarrow> byte list" where
  [wire_defs]: "enc_cmd_submit c =
     le32_bytes (cs_command c) @ le32_bytes (cs_seqnum c) @ le32_bytes (cs_devid c)
     @ le32_bytes (cs_direction c) @ le32_bytes (cs_ep c) @ le32_bytes (cs_transfer_flags c)
     @ le32_bytes (cs_transfer_buffer_length c) @ le32_bytes (cs_start_frame c)
     @ le32_bytes (cs_number_of_packets c) @ le32_bytes (cs_interval c) @ arr8_bytes (cs_setup c)"

definition dec_cmd_submit :: "byte list \<Rightarrow> usbip_cmd_submit option" where
  [wire_defs]: "dec_cmd_submit bs = (if length bs < sizeof_usbip then None else Some
     \<lparr>cs_command = u32_at bs 0, cs_seqnum = u32_at bs 4, cs_devid = u32_at bs 8,
      cs_direction = u32_at bs 12, cs_ep = u32_at bs 16, cs_transfer_flags = u32_at bs 20,
      cs_transfer_buffer_length = u32_at bs 24, cs_start_frame = u32_at bs 28,
      cs_number_of_packets = u32_at bs 32, cs_interval = u32_at bs 36, cs_setup = arr8_at bs 40\<rparr>)"

definition enc_ret_submit :: "usbip_ret_submit \<Rightarrow> byte list" where
  [wire_defs]: "enc_ret_submit r =
     le32_bytes (rs_command r) @ le32_bytes (rs_seqnum r) @ le32_bytes (rs_devid r)
     @ le32_bytes (rs_direction r) @ le32_bytes (rs_ep r) @ le32_bytes (rs_status r)
     @ le32_bytes (rs_actual_length r) @ le32_bytes (rs_start_frame r)
     @ le32_bytes (rs_number_of_packets r) @ le32_bytes (rs_error_count r)
     @ arr8_bytes (rs_padding r)"

definition dec_ret_submit :: "byte list \<Rightarrow> usbip_ret_submit option" where
  [wire_defs]: "dec_ret_submit bs = (if length bs < sizeof_usbip then None else Some
     \<lparr>rs_command = u32_at bs 0, rs_seqnum = u32_at bs 4, rs_devid = u32_at bs 8,
      rs_direction = u32_at bs 12, rs_ep = u32_at bs 16, rs_status = u32_at bs 20,
      rs_actual_length = u32_at bs 24, rs_start_frame = u32_at bs 28,
      rs_number_of_packets = u32_at bs 32, rs_error_count = u32_at bs 36,
      rs_padding = arr8_at bs 40\<rparr>)"

definition enc_cmd_unlink :: "usbip_cmd_unlink \<Rightarrow> byte list" where
  [wire_defs]: "enc_cmd_unlink c =
     le32_bytes (cu_command c) @ le32_bytes (cu_seqnum c) @ le32_bytes (cu_devid c)
     @ le32_bytes (cu_direction c) @ le32_bytes (cu_ep c) @ le32_bytes (cu_unlink_seqnum c)
     @ arr8_bytes (fst (cu_padding c)) @ arr8_bytes (fst (snd (cu_padding c)))
     @ arr8_bytes (snd (snd (cu_padding c)))"

definition dec_cmd_unlink :: "byte list \<Rightarrow> usbip_cmd_unlink option" where
  [wire_defs]: "dec_cmd_unlink bs = (if length bs < sizeof_usbip then None else Some
     \<lparr>cu_command = u32_at bs 0, cu_seqnum = u32_at bs 4, cu_devid = u32_at bs 8,
      cu_direction = u32_at bs 12, cu_ep = u32_at bs 16, cu_unlink_seqnum = u32_at bs 20,
      cu_padding = (arr8_at bs 24, arr8_at bs 32, arr8_at bs 40)\<rparr>)"

definition enc_ret_unlink :: "usbip_ret_unlink \<Rightarrow> byte list" where
  [wire_defs]: "enc_ret_unlink r =
     le32_bytes (ru_command r) @ le32_bytes (ru_seqnum r) @ le32_bytes (ru_devid r)
     @ le32_bytes (ru_direction r) @ le32_bytes (ru_ep r) @ le32_bytes (ru_status r)
     @ arr8_bytes (fst (ru_padding r)) @ arr8_bytes (fst (snd (ru_padding r)))
     @ arr8_bytes (snd (snd (ru_padding r)))"

definition dec_ret_unlink :: "byte list \<Rightarrow> usbip_ret_unlink option" where
  [wire_defs]: "dec_ret_unlink bs = (if length bs < sizeof_usbip then None else Some
     \<lparr>ru_command = u32_at bs 0, ru_seqnum = u32_at bs 4, ru_devid = u32_at bs 8,
      ru_direction = u32_at bs 12, ru_ep = u32_at bs 16, ru_status = u32_at bs 20,
      ru_padding = (arr8_at bs 24, arr8_at bs 32, arr8_at bs 40)\<rparr>)"

section \<open>Field offsets\<close>

text \<open>
  A field at offset \<open>i\<close> of a buffer is found again when the bytes before it are dropped; the
  four interpretations below only chain these facts.
\<close>

lemma u32_at_0: "u32_at (le32_bytes w @ r) 0 = w"
  by (simp add: u32_at_def le32_bytes_def)

lemma u32_at_drop: "n \<le> length bs \<Longrightarrow> u32_at (drop n bs) i = u32_at bs (n + i)"
  by (simp add: u32_at_def add.assoc)

lemma u32_at_skip: "length x \<le> i \<Longrightarrow> u32_at (x @ r) i = u32_at r (i - length x)"
  using u32_at_drop [of "length x" "x @ r" "i - length x"] by simp

lemma arr8_at_0: "arr8_at (arr8_bytes a @ r) 0 = a"
  by (cases a) (simp add: arr8_at_def)

lemma arr8_at_skip: "length x \<le> i \<Longrightarrow> arr8_at (x @ r) i = arr8_at r (i - length x)"
  by (simp add: arr8_at_def nth_append Suc_diff_le)

lemma take_Suc_drop:
  "i < length bs \<Longrightarrow> take (Suc n) (drop i bs) = bs ! i # take n (drop (Suc i) bs)"
  by (simp add: Cons_nth_drop_Suc [symmetric])

lemma le32_bytes_at:
  "i + 4 \<le> length bs \<Longrightarrow> le32_bytes (u32_at bs i) = take 4 (drop i bs)"
  by (simp add: u32_at_def take_Suc_drop eval_nat_numeral)

lemma arr8_bytes_at:
  "i + 8 \<le> length bs \<Longrightarrow> arr8_bytes (arr8_at bs i) = take 8 (drop i bs)"
  by (simp add: arr8_at_def take_Suc_drop eval_nat_numeral)

lemma take_drop_join: "take n bs @ take m (drop n bs) = take (n + m) bs"
  by (simp add: take_add)

text \<open>Folding adjacent fields back into one slice of the buffer.\<close>

lemmas field_at_simps = u32_at_0 u32_at_skip arr8_at_0 arr8_at_skip sizeof_usbip_def
lemmas field_join_simps = le32_bytes_at arr8_bytes_at take_drop_join sizeof_usbip_def

section \<open>Every structure is a codec\<close>

interpretation cmd_submit: codec enc_cmd_submit dec_cmd_submit sizeof_usbip
proof
  show "length (enc_cmd_submit a) = sizeof_usbip" for a
    by (simp add: enc_cmd_submit_def sizeof_usbip_def)
  show "dec_cmd_submit (enc_cmd_submit a @ r) = Some a" for a r
    by (simp add: enc_cmd_submit_def dec_cmd_submit_def field_at_simps)
  show "enc_cmd_submit a = take sizeof_usbip bs" if "dec_cmd_submit bs = Some a" for a bs
    using that
    by (auto simp: enc_cmd_submit_def dec_cmd_submit_def field_join_simps append_assoc [symmetric]
        split: if_splits simp del: append_assoc)
  show "dec_cmd_submit bs = None \<longleftrightarrow> length bs < sizeof_usbip" for bs
    by (simp add: dec_cmd_submit_def)
qed

interpretation ret_submit: codec enc_ret_submit dec_ret_submit sizeof_usbip
proof
  show "length (enc_ret_submit a) = sizeof_usbip" for a
    by (simp add: enc_ret_submit_def sizeof_usbip_def)
  show "dec_ret_submit (enc_ret_submit a @ r) = Some a" for a r
    by (simp add: enc_ret_submit_def dec_ret_submit_def field_at_simps)
  show "enc_ret_submit a = take sizeof_usbip bs" if "dec_ret_submit bs = Some a" for a bs
    using that
    by (auto simp: enc_ret_submit_def dec_ret_submit_def field_join_simps append_assoc [symmetric]
        split: if_splits simp del: append_assoc)
  show "dec_ret_submit bs = None \<longleftrightarrow> length bs < sizeof_usbip" for bs
    by (simp add: dec_ret_submit_def)
qed

interpretation cmd_unlink: codec enc_cmd_unlink dec_cmd_unlink sizeof_usbip
proof
  show "length (enc_cmd_unlink a) = sizeof_usbip" for a
    by (simp add: enc_cmd_unlink_def sizeof_usbip_def)
  show "dec_cmd_unlink (enc_cmd_unlink a @ r) = Some a" for a r
    by (simp add: enc_cmd_unlink_def dec_cmd_unlink_def field_at_simps)
  show "enc_cmd_unlink a = take sizeof_usbip bs" if "dec_cmd_unlink bs = Some a" for a bs
    using that
    by (auto simp: enc_cmd_unlink_def dec_cmd_unlink_def field_join_simps append_assoc [symmetric]
        split: if_splits simp del: append_assoc)
  show "dec_cmd_unlink bs = None \<longleftrightarrow> length bs < sizeof_usbip" for bs
    by (simp add: dec_cmd_unlink_def)
qed

interpretation ret_unlink: codec enc_ret_unlink dec_ret_unlink sizeof_usbip
proof
  show "length (enc_ret_unlink a) = sizeof_usbip" for a
    by (simp add: enc_ret_unlink_def sizeof_usbip_def)
  show "dec_ret_unlink (enc_ret_unlink a @ r) = Some a" for a r
    by (simp add: enc_ret_unlink_def dec_ret_unlink_def field_at_simps)
  show "enc_ret_unlink a = take sizeof_usbip bs" if "dec_ret_unlink bs = Some a" for a bs
    using that
    by (auto simp: enc_ret_unlink_def dec_ret_unlink_def field_join_simps append_assoc [symmetric]
        split: if_splits simp del: append_assoc)
  show "dec_ret_unlink bs = None \<longleftrightarrow> length bs < sizeof_usbip" for bs
    by (simp add: dec_ret_unlink_def)
qed

lemmas usbip_lengths [simp] =
  cmd_submit.enc_length [unfolded sizeof_usbip_def]
  ret_submit.enc_length [unfolded sizeof_usbip_def]
  cmd_unlink.enc_length [unfolded sizeof_usbip_def]
  ret_unlink.enc_length [unfolded sizeof_usbip_def]

lemmas usbip_dec_encs [simp] =
  cmd_submit.dec_enc ret_submit.dec_enc cmd_unlink.dec_enc ret_unlink.dec_enc
  cmd_submit.dec_exact ret_submit.dec_exact cmd_unlink.dec_exact ret_unlink.dec_exact

text \<open>
  The firmware reads every request through the \<open>CMD_SUBMIT\<close> layout first; the five leading
  fields are at the same place in \<open>CMD_UNLINK\<close>.
\<close>

lemma cmd_unlink_as_submit:
  "dec_cmd_unlink bs = Some u \<Longrightarrow>
     \<exists>c. dec_cmd_submit bs = Some c \<and> cs_command c = cu_command u \<and> cs_seqnum c = cu_seqnum u
       \<and> cs_devid c = cu_devid u \<and> cs_direction c = cu_direction u \<and> cs_ep c = cu_ep u"
  by (auto simp: dec_cmd_unlink_def dec_cmd_submit_def split: if_splits)

end
