(* ===== verification/Usb_Driver.thy ===== *)
theory Usb_Driver
  imports Device_Ops
begin

text \<open>
  The USB host driver of the firmware (\<open>esp-codes/main/usb_driver.c\<close>): the file's static
  variables as the record \<open>usb_state\<close>, the transfer callbacks, the endpoint enumeration
  \<open>open_pipes\<close>, the client event callback, and the operations it offers to the session layer.

  What the ESP-IDF USB host library and FreeRTOS answer is an argument of each operation: the
  outcome of a submit, the frame taken from the queue, the completion that released a semaphore,
  the memory an allocation returned. A result \<open>None\<close> is an access outside a buffer or through a
  null pointer.
\<close>

section \<open>State\<close>

definition USB_FRAME_MAX :: nat where [const_defs]: "USB_FRAME_MAX = 512"
definition CTRL_DATA_MAX :: nat where [const_defs]: "CTRL_DATA_MAX = 1024"
definition ESP_ERR_TIMEOUT :: int where [const_defs]: "ESP_ERR_TIMEOUT = 263"

text \<open>A received frame: \<open>fr_data\<close> holds the bytes that were written, \<open>fr_len\<close> the length field.\<close>

record usb_frame =
  fr_data :: "byte list"
  fr_len :: u16

record usb_xfer =
  data_buffer :: "byte list"
  device_handle :: nat
  bEndpointAddress :: u8
  num_bytes :: nat

record usb_state =
  s_dev :: "nat option"
  s_in_xfer :: "usb_xfer option"
  s_out_xfer :: "usb_xfer option"
  s_ctrl_xfer :: "usb_xfer option"
  s_in_ep :: u8
  s_out_ep :: u8
  s_in_mps :: u16
  s_out_mps :: u16
  s_intf_num :: u8
  s_hub_connected :: bool
  s_hub_dev :: "nat option"
  s_out_status :: int
  s_ctrl_status :: int
  s_ctrl_actual :: int

definition usb_initial :: usb_state where
  "usb_initial =
     \<lparr>s_dev = None, s_in_xfer = None, s_out_xfer = None, s_ctrl_xfer = None,
      s_in_ep = 0, s_out_ep = 0, s_in_mps = 64, s_out_mps = 64, s_intf_num = 0,
      s_hub_connected = False, s_hub_dev = None,
      s_out_status = 0, s_ctrl_status = 0, s_ctrl_actual = 0\<rparr>"

section \<open>Transfer callbacks\<close>

text \<open>
  A finished transfer: its status (\<open>0\<close> is \<open>USB_TRANSFER_STATUS_COMPLETED\<close>), the number of bytes
  moved and the contents of its data buffer. \<open>no_device\<close> is the library's status for a vanished
  device.
\<close>

definition in_transfer_cb :: "int \<Rightarrow> int \<Rightarrow> nat \<Rightarrow> byte list \<Rightarrow> usb_frame option option" where
  "in_transfer_cb no_device status actual_num_bytes buffer =
     (if status = 0 then
        let copy = (if actual_num_bytes < USB_FRAME_MAX then actual_num_bytes else USB_FRAME_MAX)
        in (case mem_read buffer 0 copy of
              None \<Rightarrow> None
            | Some bs \<Rightarrow> Some (Some \<lparr>fr_data = bs, fr_len = of_nat copy\<rparr>))
      else if status \<noteq> no_device then
        Some (Some \<lparr>fr_data = replicate USB_FRAME_MAX 0, fr_len = 0xFFFF\<rparr>)
      else Some None)"

definition out_transfer_cb :: "int \<Rightarrow> usb_state \<Rightarrow> usb_state" where
  "out_transfer_cb status st = st\<lparr>s_out_status := status\<rparr>"

definition ctrl_transfer_cb :: "int \<Rightarrow> nat \<Rightarrow> usb_state \<Rightarrow> usb_state" where
  "ctrl_transfer_cb status actual_num_bytes st =
     st\<lparr>s_ctrl_status := status,
        s_ctrl_actual := (if actual_num_bytes > 8 then int actual_num_bytes - 8 else 0)\<rparr>"

section \<open>Endpoint enumeration\<close>

record usb_ep_desc =
  ed_bEndpointAddress :: u8
  ed_bmAttributes :: u8
  ed_wMaxPacketSize :: u16

text \<open>
  What the library's descriptor parser finds in the active configuration: the number of the
  first interface, if there is one, and the endpoint descriptors in the order of the walk.
\<close>

record usb_config =
  first_intf :: "u8 option"
  ep_descs :: "usb_ep_desc list"

definition USB_BM_ATTRIBUTES_XFER_BULK :: u8 where [const_defs]: "USB_BM_ATTRIBUTES_XFER_BULK = 2"
definition USB_BM_ATTRIBUTES_XFER_INT :: u8 where [const_defs]: "USB_BM_ATTRIBUTES_XFER_INT = 3"

definition ep_is_in :: "usb_ep_desc \<Rightarrow> bool" where
  "ep_is_in ep \<longleftrightarrow> ed_bEndpointAddress ep AND 0x80 \<noteq> 0"

definition ep_int_or_bulk :: "usb_ep_desc \<Rightarrow> bool" where
  "ep_int_or_bulk ep \<longleftrightarrow>
     (let type = ed_bmAttributes ep AND 0x03
      in type = USB_BM_ATTRIBUTES_XFER_INT \<or> type = USB_BM_ATTRIBUTES_XFER_BULK)"

definition walk_ep :: "usb_ep_desc \<Rightarrow> usb_state \<Rightarrow> usb_state" where
  "walk_ep ep st =
     (let st1 = (if s_in_ep st = 0 \<and> ep_is_in ep \<and> ep_int_or_bulk ep
                 then st\<lparr>s_in_ep := ed_bEndpointAddress ep, s_in_mps := ed_wMaxPacketSize ep\<rparr>
                 else st)
      in if s_out_ep st1 = 0 \<and> \<not> ep_is_in ep \<and> ep_int_or_bulk ep
         then st1\<lparr>s_out_ep := ed_bEndpointAddress ep, s_out_mps := ed_wMaxPacketSize ep\<rparr>
         else st1)"

text \<open>The calls into the USB host library that release or claim something.\<close>

datatype usb_call =
    DeviceClose nat
  | InterfaceClaim nat u8
  | InterfaceRelease nat u8
  | EndpointHalt nat u8
  | EndpointFlush nat u8
  | TransferFree usb_xfer

text \<open>
  \<open>open_pipes\<close>, called with \<open>s_dev\<close> set to \<open>dev\<close>. \<open>alloc n\<close> is the buffer of the transfer that
  \<open>usb_host_transfer_alloc\<close> returned for size \<open>n\<close>; the code does not look at the return value, so
  a failed allocation is a null dereference.
\<close>

definition alloc_in :: "(nat \<Rightarrow> byte list option) \<Rightarrow> nat \<Rightarrow> usb_state \<Rightarrow> usb_state option" where
  "alloc_in alloc dev st = do {
     b \<leftarrow> alloc (unat (s_in_mps st));
     Some (st\<lparr>s_in_xfer := Some \<lparr>data_buffer = b, device_handle = dev,
             bEndpointAddress = s_in_ep st, num_bytes = unat (s_in_mps st)\<rparr>\<rparr>) }"

definition alloc_out :: "(nat \<Rightarrow> byte list option) \<Rightarrow> nat \<Rightarrow> usb_state \<Rightarrow> usb_state option" where
  "alloc_out alloc dev st =
     (if s_out_ep st = 0 then Some st
      else do {
        b \<leftarrow> alloc (unat (s_out_mps st));
        Some (st\<lparr>s_out_xfer := Some \<lparr>data_buffer = b, device_handle = dev,
                bEndpointAddress = s_out_ep st, num_bytes = 0\<rparr>\<rparr>) })"

definition alloc_ctrl :: "(nat \<Rightarrow> byte list option) \<Rightarrow> nat \<Rightarrow> usb_state \<Rightarrow> usb_state option" where
  "alloc_ctrl alloc dev st = do {
     b \<leftarrow> alloc (8 + CTRL_DATA_MAX);
     Some (st\<lparr>s_ctrl_xfer := Some \<lparr>data_buffer = b, device_handle = dev,
             bEndpointAddress = 0, num_bytes = 0\<rparr>\<rparr>) }"

definition open_pipes ::
  "(nat \<Rightarrow> byte list option) \<Rightarrow> usb_config \<Rightarrow> nat \<Rightarrow> usb_state \<Rightarrow> (usb_state \<times> usb_call list) option" where
  "open_pipes alloc cfg dev st =
     (case first_intf cfg of
        None \<Rightarrow> Some (st\<lparr>s_dev := None\<rparr>, [DeviceClose dev])
      | Some n \<Rightarrow>
          let st1 = fold walk_ep (ep_descs cfg) (st\<lparr>s_intf_num := n\<rparr>) in
          if s_in_ep st1 = 0 then Some (st1, [])
          else do {
            st2 \<leftarrow> alloc_in alloc dev st1;
            st3 \<leftarrow> alloc_out alloc dev st2;
            st4 \<leftarrow> alloc_ctrl alloc dev st3;
            Some (st4, [InterfaceClaim dev n]) })"

section \<open>Client events\<close>

text \<open>
  \<open>NEW_DEV h cls cfg\<close>: \<open>h\<close> is the handle that \<open>usb_host_device_open\<close> returned (\<open>None\<close> on error),
  \<open>cls\<close> the device class, \<open>cfg\<close> its active configuration.
\<close>

datatype client_event = NEW_DEV "nat option" u8 usb_config | DEV_GONE

definition teardown_calls :: "usb_state \<Rightarrow> nat \<Rightarrow> usb_call list" where
  "teardown_calls st dev =
     (case s_in_xfer st of None \<Rightarrow> []
      | Some x \<Rightarrow> [EndpointHalt dev (s_in_ep st), EndpointFlush dev (s_in_ep st), TransferFree x])
     @ (case s_out_xfer st of None \<Rightarrow> [] | Some x \<Rightarrow> [TransferFree x])
     @ (case s_ctrl_xfer st of None \<Rightarrow> [] | Some x \<Rightarrow> [TransferFree x])
     @ [InterfaceRelease dev (s_intf_num st), DeviceClose dev]"

fun client_event_cb ::
  "(nat \<Rightarrow> byte list option) \<Rightarrow> client_event \<Rightarrow> usb_state \<Rightarrow> (usb_state \<times> usb_call list) option" where
  "client_event_cb alloc (NEW_DEV None cls cfg) st = Some (st, [])"
| "client_event_cb alloc (NEW_DEV (Some h) cls cfg) st =
     (if cls = 0x09 then Some (st\<lparr>s_hub_dev := Some h, s_hub_connected := True\<rparr>, [])
      else open_pipes alloc cfg h (st\<lparr>s_dev := Some h\<rparr>))"
| "client_event_cb alloc DEV_GONE st =
     (case s_dev st of
        Some dev \<Rightarrow>
          Some (st\<lparr>s_in_xfer := None, s_out_xfer := None, s_ctrl_xfer := None,
                   s_dev := None, s_in_ep := 0, s_out_ep := 0\<rparr>, teardown_calls st dev)
      | None \<Rightarrow>
          (case s_hub_dev st of
             Some hub \<Rightarrow> Some (st\<lparr>s_hub_dev := None, s_hub_connected := False\<rparr>, [DeviceClose hub])
           | None \<Rightarrow> Some (st, [])))"

section \<open>Operations for the session layer\<close>

text \<open>
  \<open>usb_drv_recv st (ok, f) max_len\<close>: \<open>ok\<close> is whether the submit succeeded, \<open>f\<close> the frame that
  \<open>xQueueReceive\<close> delivered within its second (\<open>None\<close>: timeout). The result is the returned
  \<open>ssize_t\<close> and the bytes written to the caller's buffer.
\<close>

definition usb_drv_recv ::
  "usb_state \<Rightarrow> bool \<times> usb_frame option \<Rightarrow> nat \<Rightarrow> (int \<times> byte list) option" where
  "usb_drv_recv st env max_len =
     (if s_dev st = None \<or> s_in_xfer st = None then Some (-1, [])
      else if \<not> fst env then Some (-1, [])
      else (case snd env of
              None \<Rightarrow> Some (-1, [])
            | Some frame \<Rightarrow>
                if fr_len frame = 0xFFFF then Some (-1, [])
                else
                  let copy = (if unat (fr_len frame) < max_len then unat (fr_len frame) else max_len)
                  in (case mem_read (fr_data frame) 0 copy of
                        None \<Rightarrow> None
                      | Some bs \<Rightarrow> Some (int copy, bs))))"

definition out_len_capped :: "usb_state \<Rightarrow> nat \<Rightarrow> nat" where
  "out_len_capped st len = (if len > unat (s_out_mps st) then unat (s_out_mps st) else len)"

text \<open>Filling the OUT transfer: the capped prefix of \<open>buf\<close>, copied to the start of its buffer.\<close>

definition fill_out_xfer :: "usb_state \<Rightarrow> usb_xfer \<Rightarrow> byte list \<Rightarrow> nat \<Rightarrow> usb_state option" where
  "fill_out_xfer st x buf len =
     (let n = out_len_capped st len in
      case mem_read buf 0 n of
        None \<Rightarrow> None
      | Some bs \<Rightarrow>
          (case memcpy_at (data_buffer x) 0 bs of
             None \<Rightarrow> None
           | Some b' \<Rightarrow> Some (st\<lparr>s_out_xfer := Some (x\<lparr>data_buffer := b', num_bytes := n\<rparr>)\<rparr>)))"

text \<open>Without an OUT pipe or a device the frame is dropped and \<open>true\<close> returned.\<close>

definition usb_drv_send ::
  "usb_state \<Rightarrow> bool \<Rightarrow> byte list \<Rightarrow> nat \<Rightarrow> (usb_state \<times> bool) option" where
  "usb_drv_send st submit_ok buf len =
     (case (s_out_xfer st, s_dev st) of
        (Some x, Some _) \<Rightarrow>
          (case fill_out_xfer st x buf len of None \<Rightarrow> None | Some st' \<Rightarrow> Some (st', submit_ok))
      | _ \<Rightarrow> Some (st, True))"

definition usb_drv_is_device_ready :: "usb_state \<Rightarrow> bool" where
  "usb_drv_is_device_ready st \<longleftrightarrow> s_dev st \<noteq> None"

text \<open>
  \<open>done\<close> is the status with which \<open>out_transfer_cb\<close> released the semaphore, \<open>None\<close> when the
  second passed without it.
\<close>

definition usb_drv_send_blocking ::
  "usb_state \<Rightarrow> bool \<Rightarrow> int option \<Rightarrow> byte list \<Rightarrow> nat \<Rightarrow> (usb_state \<times> int) option" where
  "usb_drv_send_blocking st submit_ok done_status buf len =
     (case s_dev st of
        None \<Rightarrow> Some (st, 0)
      | Some _ \<Rightarrow>
          (case s_out_xfer st of
             None \<Rightarrow> Some (st, 0)
           | Some x \<Rightarrow>
               (case fill_out_xfer st x buf len of
                  None \<Rightarrow> None
                | Some st' \<Rightarrow>
                    if \<not> submit_ok then Some (st', -1)
                    else (case done_status of
                            None \<Rightarrow> Some (st', ESP_ERR_TIMEOUT)
                          | Some s \<Rightarrow> let st2 = out_transfer_cb s st'
                                       in Some (st2, s_out_status st2)))))"

text \<open>
  A completed control transfer: status, byte count (with the 8 setup bytes) and the buffer as
  the device left it.
\<close>

record ctrl_completion =
  cc_status :: int
  cc_actual :: nat
  cc_buffer :: "byte list"

definition ctrl_finish ::
  "usb_state \<Rightarrow> usb_xfer \<Rightarrow> ctrl_completion \<Rightarrow> bool \<Rightarrow> int \<Rightarrow> (usb_state \<times> int \<times> byte list) option" where
  "ctrl_finish st x c has_in_buf max_in =
     (let st1 = ctrl_transfer_cb (cc_status c) (cc_actual c)
                  (st\<lparr>s_ctrl_xfer := Some (x\<lparr>data_buffer := cc_buffer c\<rparr>)\<rparr>)
      in if s_ctrl_status st1 \<noteq> 0 then Some (st1, - s_ctrl_status st1, [])
         else if has_in_buf \<and> max_in > 0 \<and> s_ctrl_actual st1 > 0 then
           let copy = (if s_ctrl_actual st1 < max_in then s_ctrl_actual st1 else max_in)
           in (case mem_read (cc_buffer c) 8 (nat copy) of
                 None \<Rightarrow> None
               | Some bs \<Rightarrow> Some (st1, copy, bs))
         else Some (st1, s_ctrl_actual st1, []))"

text \<open>
  \<open>out_data\<close> is the pointer for the OUT stage (\<open>None\<close> is \<open>NULL\<close>); \<open>has_in_buf\<close> whether \<open>in_buf\<close>
  is not \<open>NULL\<close>. The result is the returned \<open>int\<close> and the bytes written to \<open>in_buf\<close>. The casts to
  \<open>size_t\<close> (32 bits on the ESP32) are written out.
\<close>

definition ctrl_stage_out :: "byte list \<Rightarrow> byte list option \<Rightarrow> int \<Rightarrow> byte list option" where
  "ctrl_stage_out b out_data out_len =
     (case out_data of
        Some d \<Rightarrow> if out_len > 0 then do { bs \<leftarrow> mem_read d 0 (nat out_len); memcpy_at b 8 bs }
                  else Some b
      | None \<Rightarrow> Some b)"

definition ctrl_data_len :: "byte list option \<Rightarrow> int \<Rightarrow> int \<Rightarrow> nat" where
  "ctrl_data_len out_data out_len max_in =
     (if out_data \<noteq> None then nat (out_len mod 2 ^ 32) else nat (if max_in > 0 then max_in else 0))"

definition usb_drv_control ::
  "usb_state \<Rightarrow> bool \<Rightarrow> ctrl_completion option \<Rightarrow> byte list \<Rightarrow> byte list option \<Rightarrow> int \<Rightarrow> bool \<Rightarrow> int
     \<Rightarrow> (usb_state \<times> int \<times> byte list) option" where
  "usb_drv_control st submit_ok completion setup8 out_data out_len has_in_buf max_in =
     (case (s_dev st, s_ctrl_xfer st) of
        (Some _, Some x) \<Rightarrow> do {
          b1 \<leftarrow> memcpy_at (data_buffer x) 0 setup8;
          if out_data \<noteq> None \<and> out_len > 0 \<and> out_len > 1024
          then Some (st\<lparr>s_ctrl_xfer := Some (x\<lparr>data_buffer := b1\<rparr>)\<rparr>, -1, [])
          else do {
            b2 \<leftarrow> ctrl_stage_out b1 out_data out_len;
            let n = ctrl_data_len out_data out_len max_in;
            if n > 1024 then Some (st\<lparr>s_ctrl_xfer := Some (x\<lparr>data_buffer := b2\<rparr>)\<rparr>, -1, [])
            else
              let x' = x\<lparr>data_buffer := b2, num_bytes := 8 + n\<rparr>;
                  st' = st\<lparr>s_ctrl_xfer := Some x'\<rparr>
              in if \<not> submit_ok then Some (st', -1, [])
                 else (case completion of
                         None \<Rightarrow> Some (st', -1, [])
                       | Some c \<Rightarrow> ctrl_finish st' x' c has_in_buf max_in) } }
      | _ \<Rightarrow> Some (st, -1, []))"

text \<open>
  \<open>usb_drv_init\<close>: each fallible call's outcome is an argument, in the order of the calls; the
  result is what it returns and the calls that start or undo something.
\<close>

datatype init_call =
    NewPhy | HostInstall | ClientRegister | HostUninstall
  | CreateLibTask | CreateClientTask | CreateWatchdogTask

definition usb_drv_init ::
  "bool \<Rightarrow> bool \<Rightarrow> bool \<Rightarrow> bool \<Rightarrow> bool \<Rightarrow> bool \<Rightarrow> bool \<times> init_call list" where
  "usb_drv_init queue_ok out_sem_ok ctrl_sem_ok phy_ok install_ok register_ok =
     (if \<not> queue_ok then (False, [])
      else if \<not> out_sem_ok \<or> \<not> ctrl_sem_ok then (False, [])
      else if \<not> phy_ok then (False, [NewPhy])
      else if \<not> install_ok then (False, [NewPhy, HostInstall])
      else if \<not> register_ok then (False, [NewPhy, HostInstall, ClientRegister, HostUninstall])
      else (True, [NewPhy, HostInstall, ClientRegister,
                   CreateLibTask, CreateClientTask, CreateWatchdogTask]))"

text \<open>One round of \<open>usb_lib_task\<close>: whether \<open>usb_host_device_free_all\<close> is called.\<close>

definition usb_lib_task_round :: "u32 \<Rightarrow> u32 \<Rightarrow> bool" where
  "usb_lib_task_round no_clients_flag event_flags \<longleftrightarrow>
     event_flags \<noteq> 0 \<and> event_flags AND no_clients_flag \<noteq> 0"

definition USB_DRIVER_OPS :: "(usb_state, bool \<times> usb_frame option, bool) device_ops" where
  "USB_DRIVER_OPS =
     \<lparr>ops_recv = usb_drv_recv, ops_send = (\<lambda>st ok buf. usb_drv_send st ok buf (length buf))\<rparr>"

section \<open>Invariant\<close>

text \<open>
  The transfers exist only while a device is open, every buffer has the size the code assumes
  when it copies into it, and the endpoints are cleared with the device.
\<close>

definition xfer_ok :: "usb_state \<Rightarrow> nat \<Rightarrow> u8 \<Rightarrow> usb_xfer \<Rightarrow> bool" where
  "xfer_ok st n ep x \<longleftrightarrow>
     length (data_buffer x) = n \<and> bEndpointAddress x = ep \<and> s_dev st = Some (device_handle x)"

definition usb_inv :: "usb_state \<Rightarrow> bool" where
  "usb_inv st \<longleftrightarrow>
     (s_dev st = None \<longrightarrow> s_in_ep st = 0 \<and> s_out_ep st = 0) \<and>
     (\<forall>x. s_in_xfer st = Some x \<longrightarrow> xfer_ok st (unat (s_in_mps st)) (s_in_ep st) x \<and> s_in_ep st \<noteq> 0) \<and>
     (\<forall>x. s_out_xfer st = Some x \<longrightarrow> xfer_ok st (unat (s_out_mps st)) (s_out_ep st) x \<and> s_out_ep st \<noteq> 0) \<and>
     (\<forall>x. s_ctrl_xfer st = Some x \<longrightarrow> xfer_ok st (8 + CTRL_DATA_MAX) 0 x)"

text \<open>What the library promises of an allocated transfer and of a finished control transfer.\<close>

definition alloc_spec :: "(nat \<Rightarrow> byte list option) \<Rightarrow> bool" where
  "alloc_spec alloc \<longleftrightarrow> (\<forall>n b. alloc n = Some b \<longrightarrow> length b = n)"

definition completion_ok :: "nat \<Rightarrow> ctrl_completion \<Rightarrow> bool" where
  "completion_ok data_len c \<longleftrightarrow>
     length (cc_buffer c) = 8 + CTRL_DATA_MAX \<and> cc_actual c \<le> 8 + data_len \<and> 0 \<le> cc_status c"

lemma usb_inv_initial: "usb_inv usb_initial"
  by (simp add: usb_inv_def usb_initial_def)

text \<open>The walk changes only endpoints and packet sizes, and only while no transfer exists.\<close>

lemma walk_ep_frame [simp]:
  "s_dev (walk_ep ep st) = s_dev st" "s_in_xfer (walk_ep ep st) = s_in_xfer st"
  "s_out_xfer (walk_ep ep st) = s_out_xfer st" "s_ctrl_xfer (walk_ep ep st) = s_ctrl_xfer st"
  by (simp_all add: walk_ep_def Let_def)

lemma fold_walk_frame [simp]:
  "s_dev (fold walk_ep eps st) = s_dev st" "s_in_xfer (fold walk_ep eps st) = s_in_xfer st"
  "s_out_xfer (fold walk_ep eps st) = s_out_xfer st" "s_ctrl_xfer (fold walk_ep eps st) = s_ctrl_xfer st"
  by (induction eps arbitrary: st) simp_all

text \<open>Each allocation adds one well-formed transfer.\<close>

lemma alloc_in_inv:
  "alloc_spec alloc \<Longrightarrow> usb_inv st \<Longrightarrow> s_dev st = Some dev \<Longrightarrow> s_in_ep st \<noteq> 0 \<Longrightarrow>
   alloc_in alloc dev st = Some st' \<Longrightarrow> usb_inv st' \<and> s_dev st' = Some dev"
  unfolding alloc_in_def bind_eq_Some_conv
  by (elim exE conjE) (auto simp: usb_inv_def xfer_ok_def alloc_spec_def)

lemma alloc_out_inv:
  "alloc_spec alloc \<Longrightarrow> usb_inv st \<Longrightarrow> s_dev st = Some dev \<Longrightarrow>
   alloc_out alloc dev st = Some st' \<Longrightarrow> usb_inv st' \<and> s_dev st' = Some dev"
  unfolding alloc_out_def
  by (auto simp: usb_inv_def xfer_ok_def alloc_spec_def bind_eq_Some_conv split: if_splits)

lemma alloc_ctrl_inv:
  "alloc_spec alloc \<Longrightarrow> usb_inv st \<Longrightarrow> s_dev st = Some dev \<Longrightarrow>
   alloc_ctrl alloc dev st = Some st' \<Longrightarrow> usb_inv st' \<and> s_dev st' = Some dev"
  unfolding alloc_ctrl_def bind_eq_Some_conv
  by (elim exE conjE) (auto simp: usb_inv_def xfer_ok_def alloc_spec_def)

text \<open>Opening the pipes of a device when none is open.\<close>

lemma open_pipes_inv:
  assumes alloc: "alloc_spec alloc" and inv: "usb_inv st" and closed: "s_dev st = None"
    and run: "open_pipes alloc cfg h (st\<lparr>s_dev := Some h\<rparr>) = Some (st', calls)"
  shows "usb_inv st'"
proof -
  have none: "s_in_xfer st = None" "s_out_xfer st = None" "s_ctrl_xfer st = None"
    and eps: "s_in_ep st = 0" "s_out_ep st = 0"
    using inv closed by (auto simp: usb_inv_def xfer_ok_def)
  show ?thesis
  proof (cases "first_intf cfg")
    case None
    with run have "st' = st\<lparr>s_dev := None\<rparr>" by (simp add: open_pipes_def)
    with none eps show ?thesis by (simp add: usb_inv_def)
  next
    case (Some n)
    define st1 where "st1 = fold walk_ep (ep_descs cfg) (st\<lparr>s_dev := Some h, s_intf_num := n\<rparr>)"
    have st1: "usb_inv st1" "s_dev st1 = Some h"
      by (simp_all add: st1_def usb_inv_def none)
    show ?thesis
    proof (cases "s_in_ep st1 = 0")
      case True
      with run Some st1 show ?thesis by (simp add: open_pipes_def st1_def [symmetric])
    next
      case False
      with run Some obtain st2 st3 where
        "alloc_in alloc h st1 = Some st2" "alloc_out alloc h st2 = Some st3"
        "alloc_ctrl alloc h st3 = Some st'"
        by (auto simp: open_pipes_def st1_def [symmetric] bind_eq_Some_conv)
      with alloc st1 False show ?thesis
        using alloc_in_inv alloc_out_inv alloc_ctrl_inv by blast
    qed
  qed
qed

lemma client_event_cb_inv:
  assumes "alloc_spec alloc" and "usb_inv st"
    and "client_event_cb alloc e st = Some (st', calls)"
    and "\<And>h cls cfg. e = NEW_DEV (Some h) cls cfg \<Longrightarrow> cls \<noteq> 0x09 \<Longrightarrow> s_dev st = None"
  shows "usb_inv st'"
  using assms(1,3) assms(2,4)
proof (induction alloc e st rule: client_event_cb.induct)
  case (1 alloc cls cfg st)
  then show ?case by simp
next
  case (2 alloc h cls cfg st)
  show ?case
  proof (cases "cls = 0x09")
    case True
    with 2 show ?thesis by (auto simp: usb_inv_def xfer_ok_def)
  next
    case False
    with 2 show ?thesis by (auto intro: open_pipes_inv)
  qed
next
  case (3 alloc st)
  then show ?case by (auto simp: usb_inv_def xfer_ok_def split: option.splits)
qed

section \<open>Memory safety and results of the operations\<close>

lemma fill_out_xfer_safe:
  assumes "usb_inv st" and "s_out_xfer st = Some x" and "len \<le> length buf"
  shows "\<exists>b'. fill_out_xfer st x buf len =
           Some (st\<lparr>s_out_xfer := Some (x\<lparr>data_buffer := b', num_bytes := out_len_capped st len\<rparr>)\<rparr>)
         \<and> length b' = length (data_buffer x)
         \<and> take (out_len_capped st len) b' = take (out_len_capped st len) buf"
proof -
  let ?n = "out_len_capped st len"
  have n: "?n \<le> length buf" and m: "?n \<le> length (data_buffer x)"
    using assms by (auto simp: out_len_capped_def usb_inv_def xfer_ok_def)
  show ?thesis
    by (rule exI [of _ "take ?n buf @ drop ?n (data_buffer x)"])
      (use n m in \<open>simp add: fill_out_xfer_def Let_def mem_read_def memcpy_at_def\<close>)
qed

lemma fill_out_xfer_inv:
  "usb_inv st \<Longrightarrow> s_out_xfer st = Some x \<Longrightarrow> fill_out_xfer st x buf len = Some st' \<Longrightarrow> usb_inv st'"
  by (auto simp: fill_out_xfer_def Let_def usb_inv_def xfer_ok_def
      split: option.splits dest!: length_memcpy_at)

lemma usb_drv_send_inv:
  "usb_inv st \<Longrightarrow> usb_drv_send st ok buf len = Some (st', r) \<Longrightarrow> usb_inv st'"
  by (auto simp: usb_drv_send_def intro: fill_out_xfer_inv split: option.splits)

lemma callbacks_inv [simp]:
  "usb_inv (out_transfer_cb c st) = usb_inv st" "usb_inv (ctrl_transfer_cb c n st) = usb_inv st"
  by (simp_all add: out_transfer_cb_def ctrl_transfer_cb_def usb_inv_def xfer_ok_def)

lemma usb_drv_send_blocking_inv:
  assumes inv: "usb_inv st" and run: "usb_drv_send_blocking st ok d buf len = Some (st', r)"
  shows "usb_inv st'"
proof (cases "s_dev st = None \<or> s_out_xfer st = None")
  case True
  with inv run show ?thesis by (auto simp: usb_drv_send_blocking_def split: option.splits)
next
  case False
  then obtain h x where "s_dev st = Some h" and x: "s_out_xfer st = Some x" by auto
  with run obtain st1 where fill: "fill_out_xfer st x buf len = Some st1"
    and st': "st' = st1 \<or> (\<exists>s. st' = out_transfer_cb s st1)"
    by (auto simp: usb_drv_send_blocking_def Let_def split: option.splits if_splits)
  from inv x fill have "usb_inv st1" by (rule fill_out_xfer_inv)
  with st' show ?thesis by auto
qed

lemma usb_drv_send_blocking_safe:
  assumes "usb_inv st" and "len \<le> length buf"
  shows "\<exists>st' r. usb_drv_send_blocking st ok d buf len = Some (st', r)"
  using assms fill_out_xfer_safe [OF assms(1) _ assms(2)]
  by (fastforce simp: usb_drv_send_blocking_def Let_def split: option.split)

text \<open>Replacing the control transfer by one of the same shape keeps the invariant.\<close>

lemma ctrl_xfer_inv:
  "usb_inv st \<Longrightarrow> s_ctrl_xfer st = Some x \<Longrightarrow> length (data_buffer x') = length (data_buffer x) \<Longrightarrow>
   device_handle x' = device_handle x \<Longrightarrow> bEndpointAddress x' = bEndpointAddress x \<Longrightarrow>
   usb_inv (st\<lparr>s_ctrl_xfer := Some x'\<rparr>)"
  by (auto simp: usb_inv_def xfer_ok_def)

text \<open>The argument of \<open>usb_drv_control\<close> that the session layer passes for an OUT stage.\<close>

definition out_stage_ok :: "byte list option \<Rightarrow> int \<Rightarrow> bool" where
  "out_stage_ok out_data out_len \<longleftrightarrow>
     (case out_data of None \<Rightarrow> True | Some d \<Rightarrow> 0 \<le> out_len \<and> out_len \<le> int (length d))"

lemma ctrl_stage_out_safe:
  assumes "out_stage_ok out_data out_len" and "length b = 8 + CTRL_DATA_MAX"
    and "out_data = None \<or> out_len \<le> 1024"
  shows "\<exists>b'. ctrl_stage_out b out_data out_len = Some b' \<and> length b' = length b"
  using assms
  by (cases out_data)
    (auto simp: ctrl_stage_out_def out_stage_ok_def mem_read_def memcpy_at_def CTRL_DATA_MAX_def)

text \<open>
  The outcome of a control transfer: no memory fault, the invariant kept, and either a byte count
  together with exactly that many bytes within \<open>max_in\<close>, or no bytes.
\<close>

definition ctrl_outcome_ok :: "bool \<Rightarrow> int \<Rightarrow> (usb_state \<times> int \<times> byte list) option \<Rightarrow> bool" where
  "ctrl_outcome_ok has_in_buf max_in res \<longleftrightarrow>
     (case res of
        None \<Rightarrow> False
      | Some (st', r, bs) \<Rightarrow> usb_inv st' \<and>
          (if has_in_buf \<and> max_in > 0 \<and> r > 0 then r \<le> max_in \<and> length bs = nat r else bs = []))"

lemma ctrl_outcome_error [simp]: "ctrl_outcome_ok b m (Some (st, -1, [])) = usb_inv st"
  by (simp add: ctrl_outcome_ok_def)

lemma ctrl_finish_safe:
  assumes "usb_inv st" and "s_ctrl_xfer st = Some x" and "completion_ok n c" and "n \<le> 1024"
  shows "ctrl_outcome_ok has_in_buf max_in (ctrl_finish st x c has_in_buf max_in)"
proof -
  have "length (data_buffer x) = 8 + CTRL_DATA_MAX"
    using assms(1,2) by (auto simp: usb_inv_def xfer_ok_def)
  then have "usb_inv (st\<lparr>s_ctrl_xfer := Some (x\<lparr>data_buffer := cc_buffer c\<rparr>)\<rparr>)"
    using assms by (intro ctrl_xfer_inv) (auto simp: completion_ok_def)
  moreover define st1 where "st1 = ctrl_transfer_cb (cc_status c) (cc_actual c)
    (st\<lparr>s_ctrl_xfer := Some (x\<lparr>data_buffer := cc_buffer c\<rparr>)\<rparr>)"
  ultimately have inv: "usb_inv st1" by simp
  have actual: "s_ctrl_actual st1 \<le> 1024" "length (cc_buffer c) = 1032" "s_ctrl_status st1 = cc_status c"
    using assms(3,4)
    by (auto simp: st1_def ctrl_transfer_cb_def completion_ok_def CTRL_DATA_MAX_def)
  have "0 \<le> cc_status c" using assms(3) by (simp add: completion_ok_def)
  with actual inv show ?thesis
    unfolding ctrl_finish_def st1_def [symmetric] Let_def
    by (auto simp: ctrl_outcome_ok_def mem_read_def)
qed

lemma usb_drv_control_safe:
  assumes inv: "usb_inv st" and len: "length setup8 = 8" and out: "out_stage_ok out_data out_len"
    and c: "\<And>c. completion = Some c \<Longrightarrow> completion_ok (ctrl_data_len out_data out_len max_in) c"
  shows "ctrl_outcome_ok has_in_buf max_in
           (usb_drv_control st ok completion setup8 out_data out_len has_in_buf max_in)"
proof (cases "s_dev st = None \<or> s_ctrl_xfer st = None")
  case True
  then have "usb_drv_control st ok completion setup8 out_data out_len has_in_buf max_in
    = Some (st, -1, [])" by (auto simp: usb_drv_control_def split: option.splits)
  with inv show ?thesis by simp
next
  case False
  then obtain h x where h: "s_dev st = Some h" and x: "s_ctrl_xfer st = Some x" by auto
  have lx: "length (data_buffer x) = 8 + CTRL_DATA_MAX"
    using inv x by (auto simp: usb_inv_def xfer_ok_def)
  then obtain b1 where b1: "memcpy_at (data_buffer x) 0 setup8 = Some b1"
    and lb1: "length b1 = 8 + CTRL_DATA_MAX"
    using len by (auto simp: memcpy_at_def CTRL_DATA_MAX_def)
  have put: "usb_inv (st\<lparr>s_ctrl_xfer := Some (x\<lparr>data_buffer := b, num_bytes := k\<rparr>)\<rparr>)"
    "usb_inv (st\<lparr>s_ctrl_xfer := Some (x\<lparr>data_buffer := b\<rparr>)\<rparr>)"
    if "length b = 8 + CTRL_DATA_MAX" for b k
    using that inv x lx by (auto intro!: ctrl_xfer_inv)
  show ?thesis
  proof (cases "out_data \<noteq> None \<and> out_len > 1024")
    case True
    with h x b1 put(2) [OF lb1] show ?thesis by (simp add: usb_drv_control_def)
  next
    case small: False
    then obtain b2 where b2: "ctrl_stage_out b1 out_data out_len = Some b2"
      and lb2: "length b2 = 8 + CTRL_DATA_MAX"
      using ctrl_stage_out_safe [OF out lb1] lb1 by fastforce
    from small have nif: "\<not> (out_data \<noteq> None \<and> out_len > 0 \<and> out_len > 1024)" by simp
    let ?n = "ctrl_data_len out_data out_len max_in"
    let ?x = "x\<lparr>data_buffer := b2, num_bytes := 8 + ?n\<rparr>"
    show ?thesis
    proof (cases completion)
      case None
      then show ?thesis
        unfolding usb_drv_control_def h x prod.case option.case b1 bind.bind_lunit if_not_P [OF nif] b2
        by (simp add: Let_def put [OF lb2])
    next
      case (Some cc)
      have "?n \<le> 1024 \<Longrightarrow> ctrl_outcome_ok has_in_buf max_in
          (ctrl_finish (st\<lparr>s_ctrl_xfer := Some ?x\<rparr>) ?x cc has_in_buf max_in)"
        by (rule ctrl_finish_safe [OF put(1) [OF lb2] _ c [OF Some]]) simp_all
      then show ?thesis
        unfolding usb_drv_control_def h x prod.case option.case b1 bind.bind_lunit if_not_P [OF nif] b2
        by (simp add: Let_def put [OF lb2] Some)
    qed
  qed
qed

text \<open>The returned byte count is within the data stage; a data stage over 1024 bytes is refused.\<close>

lemma ctrl_finish_actual:
  "completion_ok n c \<Longrightarrow> ctrl_finish st x c has_in_buf max_in = Some (st', r, bs) \<Longrightarrow> r \<le> int n"
  by (auto simp: ctrl_finish_def ctrl_transfer_cb_def completion_ok_def Let_def split: if_splits option.splits)

lemma usb_drv_control_result:
  assumes "usb_drv_control st ok completion setup8 out_data out_len has_in_buf max_in = Some (st', r, bs)"
  shows "r = -1 \<or> (\<exists>c st1 x1. completion = Some c \<and> ctrl_finish st1 x1 c has_in_buf max_in = Some (st', r, bs))"
  using assms unfolding usb_drv_control_def Let_def
  by (auto simp: bind_eq_Some_conv split: option.split_asm if_split_asm)

lemma usb_drv_control_actual:
  assumes "\<And>c. completion = Some c \<Longrightarrow> completion_ok (ctrl_data_len out_data out_len max_in) c"
    and "usb_drv_control st ok completion setup8 out_data out_len has_in_buf max_in = Some (st', r, bs)"
  shows "r \<le> int (ctrl_data_len out_data out_len max_in)"
  using usb_drv_control_result [OF assms(2)] assms(1) ctrl_finish_actual by fastforce

lemma usb_drv_control_in_too_long:
  assumes inv: "usb_inv st" and "length setup8 = 8" and "max_in > 1024"
  shows "\<exists>st'. usb_drv_control st ok completion setup8 None 0 has_in_buf max_in = Some (st', -1, []) \<and> usb_inv st'"
proof (cases "s_dev st = None \<or> s_ctrl_xfer st = None")
  case True
  with inv show ?thesis by (auto simp: usb_drv_control_def split: option.splits)
next
  case False
  then obtain h x where h: "s_dev st = Some h" and x: "s_ctrl_xfer st = Some x" by auto
  then obtain b where b: "memcpy_at (data_buffer x) 0 setup8 = Some b" and "length b = length (data_buffer x)"
    using inv assms(2) by (auto simp: usb_inv_def xfer_ok_def CTRL_DATA_MAX_def memcpy_at_def)
  then have "usb_inv (st\<lparr>s_ctrl_xfer := Some (x\<lparr>data_buffer := b\<rparr>)\<rparr>)"
    using inv x by (intro ctrl_xfer_inv) auto
  moreover have "1024 < nat max_in" and "0 < max_in" using assms(3) by simp_all
  ultimately show ?thesis
    using h x b by (simp add: usb_drv_control_def ctrl_stage_out_def ctrl_data_len_def Let_def)
qed

section \<open>The driver fulfils the session layer's contract\<close>

text \<open>A frame the driver's own callback can have queued: the marker, or a length within its data.\<close>

definition frame_ok :: "usb_frame \<Rightarrow> bool" where
  "frame_ok f \<longleftrightarrow> fr_len f = 0xFFFF \<or> unat (fr_len f) = length (fr_data f)"

lemma USB_FRAME_MAX_marker: "n \<le> USB_FRAME_MAX \<Longrightarrow> (of_nat n :: u16) \<noteq> 0xFFFF \<and> unat (of_nat n :: u16) = n"
proof -
  assume "n \<le> USB_FRAME_MAX"
  then have n: "n \<le> 512" by (simp add: USB_FRAME_MAX_def)
  then have u: "unat (of_nat n :: u16) = n" by (intro unat_of_nat_16) simp
  have "(of_nat n :: u16) \<noteq> 0xFFFF"
  proof
    assume "(of_nat n :: u16) = 0xFFFF"
    then have "n = unat (0xFFFF :: u16)" using u by simp
    with n show False by simp
  qed
  with u show ?thesis by simp
qed

lemma in_transfer_cb_frame_ok:
  "in_transfer_cb nd status n buf = Some (Some f) \<Longrightarrow> frame_ok f"
  by (auto simp: in_transfer_cb_def Let_def mem_read_def frame_ok_def USB_FRAME_MAX_marker
      split: if_splits option.splits)

lemma usb_drv_recv_contract:
  assumes "\<forall>f. snd env = Some f \<longrightarrow> frame_ok f"
  shows "\<exists>n bs. usb_drv_recv st env max_len = Some (n, bs)
     \<and> (n < 0 \<and> bs = [] \<or> n = int (length bs) \<and> length bs \<le> max_len)"
  using assms
  by (auto simp: usb_drv_recv_def Let_def mem_read_def frame_ok_def split: option.splits)

lemma usb_drv_send_contract:
  assumes "usb_inv st"
  shows "\<exists>st' b. usb_drv_send st ok buf (length buf) = Some (st', b) \<and> usb_inv st'"
proof (cases "s_out_xfer st = None \<or> s_dev st = None")
  case True
  then show ?thesis using assms by (auto simp: usb_drv_send_def split: option.splits)
next
  case False
  then obtain x h where "s_out_xfer st = Some x" "s_dev st = Some h" by auto
  with fill_out_xfer_safe [OF assms, of x "length buf" buf] obtain st'
    where "usb_drv_send st ok buf (length buf) = Some (st', ok)"
    by (auto simp: usb_drv_send_def)
  with usb_drv_send_inv [OF assms] show ?thesis by blast
qed

interpretation usb_ops: device_driver USB_DRIVER_OPS usb_inv "\<lambda>env. \<forall>f. snd env = Some f \<longrightarrow> frame_ok f"
  unfolding device_driver_def USB_DRIVER_OPS_def device_ops.simps
  using usb_drv_recv_contract usb_drv_send_contract by blast

section \<open>Which endpoints are chosen\<close>

definition in_candidate :: "usb_ep_desc \<Rightarrow> bool" where
  "in_candidate ep \<longleftrightarrow> ep_is_in ep \<and> ep_int_or_bulk ep"

definition out_candidate :: "usb_ep_desc \<Rightarrow> bool" where
  "out_candidate ep \<longleftrightarrow> \<not> ep_is_in ep \<and> ep_int_or_bulk ep \<and> ed_bEndpointAddress ep \<noteq> 0"

lemma in_candidate_nonzero: "in_candidate ep \<Longrightarrow> ed_bEndpointAddress ep \<noteq> 0"
  by (auto simp: in_candidate_def ep_is_in_def)

lemma fold_walk_in_fixed:
  "s_in_ep st \<noteq> 0 \<Longrightarrow>
     s_in_ep (fold walk_ep eps st) = s_in_ep st \<and> s_in_mps (fold walk_ep eps st) = s_in_mps st"
  by (induction eps arbitrary: st) (simp_all add: walk_ep_def Let_def)

lemma fold_walk_out_fixed:
  "s_out_ep st \<noteq> 0 \<Longrightarrow>
     s_out_ep (fold walk_ep eps st) = s_out_ep st \<and> s_out_mps (fold walk_ep eps st) = s_out_mps st"
  by (induction eps arbitrary: st) (simp_all add: walk_ep_def Let_def)

lemma fold_walk_in:
  "s_in_ep st = 0 \<Longrightarrow>
     (s_in_ep (fold walk_ep eps st), s_in_mps (fold walk_ep eps st)) =
     (case find in_candidate eps of
        None \<Rightarrow> (0, s_in_mps st)
      | Some ep \<Rightarrow> (ed_bEndpointAddress ep, ed_wMaxPacketSize ep))"
proof (induction eps arbitrary: st)
  case Nil
  then show ?case by simp
next
  case (Cons ep eps)
  show ?case
  proof (cases "in_candidate ep")
    case True
    then have "s_in_ep (walk_ep ep st) = ed_bEndpointAddress ep"
      and "s_in_mps (walk_ep ep st) = ed_wMaxPacketSize ep"
      using Cons.prems by (auto simp: walk_ep_def Let_def in_candidate_def)
    with True in_candidate_nonzero [OF True] show ?thesis by (simp add: fold_walk_in_fixed)
  next
    case False
    then have "s_in_ep (walk_ep ep st) = 0" and "s_in_mps (walk_ep ep st) = s_in_mps st"
      using Cons.prems by (auto simp: walk_ep_def Let_def in_candidate_def)
    with False Cons.IH [of "walk_ep ep st"] show ?thesis by (simp split: option.splits)
  qed
qed

lemma fold_walk_out:
  "s_out_ep st = 0 \<Longrightarrow>
     s_out_ep (fold walk_ep eps st) =
     (case find out_candidate eps of None \<Rightarrow> 0 | Some ep \<Rightarrow> ed_bEndpointAddress ep)"
proof (induction eps arbitrary: st)
  case Nil
  then show ?case by simp
next
  case (Cons ep eps)
  show ?case
  proof (cases "out_candidate ep")
    case True
    then have "s_out_ep (walk_ep ep st) = ed_bEndpointAddress ep"
      using Cons.prems by (auto simp: walk_ep_def Let_def out_candidate_def)
    moreover from True have "ed_bEndpointAddress ep \<noteq> 0" by (simp add: out_candidate_def)
    ultimately show ?thesis using True by (simp add: fold_walk_out_fixed)
  next
    case False
    then have "s_out_ep (walk_ep ep st) = 0"
      using Cons.prems by (auto simp: walk_ep_def Let_def out_candidate_def)
    with False Cons.IH [of "walk_ep ep st"] show ?thesis by simp
  qed
qed

section \<open>Runs of the driver\<close>

text \<open>
  Any interleaving of bus events and session-layer calls. One downstream device is served at a
  time: a further one is reported only after \<open>DEV_GONE\<close>. The arguments of a control transfer are
  those its caller passes, and the library keeps its promises about the completion.
\<close>

inductive usb_step :: "(nat \<Rightarrow> byte list option) \<Rightarrow> usb_state \<Rightarrow> usb_state \<Rightarrow> bool"
  for alloc :: "nat \<Rightarrow> byte list option" where
  bus_event:
    "client_event_cb alloc e st = Some (st', calls) \<Longrightarrow>
     (\<And>h cls cfg. e = NEW_DEV (Some h) cls cfg \<Longrightarrow> cls \<noteq> 0x09 \<Longrightarrow> s_dev st = None) \<Longrightarrow>
     usb_step alloc st st'"
| send: "usb_drv_send st ok buf len = Some (st', r) \<Longrightarrow> usb_step alloc st st'"
| send_blocking: "usb_drv_send_blocking st ok d buf len = Some (st', r) \<Longrightarrow> usb_step alloc st st'"
| control:
    "usb_drv_control st ok completion setup8 out_data out_len has_in_buf max_in = Some (st', r, bs) \<Longrightarrow>
     length setup8 = 8 \<Longrightarrow> out_stage_ok out_data out_len \<Longrightarrow>
     (\<And>c. completion = Some c \<Longrightarrow> completion_ok (ctrl_data_len out_data out_len max_in) c) \<Longrightarrow>
     usb_step alloc st st'"

definition usb_start :: "usb_state \<Rightarrow> bool" where
  "usb_start st \<longleftrightarrow> st = usb_initial"

lemma usb_step_inv: "usb_step alloc st st' \<Longrightarrow> alloc_spec alloc \<Longrightarrow> usb_inv st \<Longrightarrow> usb_inv st'"
proof (induction rule: usb_step.induct)
  case (bus_event e st st' calls)
  then show ?case using client_event_cb_inv by blast
next
  case (send st ok buf len st' r)
  then show ?case using usb_drv_send_inv by blast
next
  case (send_blocking st ok d buf len st' r)
  then show ?case using usb_drv_send_blocking_inv by blast
next
  case (control st ok completion setup8 out_data out_len has_in_buf max_in st' r bs)
  then have "ctrl_outcome_ok has_in_buf max_in
    (usb_drv_control st ok completion setup8 out_data out_len has_in_buf max_in)"
    by (intro usb_drv_control_safe)
  with control show ?case by (simp add: ctrl_outcome_ok_def)
qed

interpretation usb_run: inductive_invariant usb_start "usb_step alloc"
  "\<lambda>st. alloc_spec alloc \<longrightarrow> usb_inv st" for alloc
  by unfold_locales (auto simp: usb_start_def usb_inv_initial intro: usb_step_inv)

section \<open>Properties\<close>

text \<open>
  In every state the driver can reach, no operation of the session layer reads or writes
  outside a buffer or through a null pointer: neither a receive of a frame that the driver's own
  callback queued, nor an OUT transfer of any length, nor a control transfer, whose byte count
  moreover never exceeds the caller's buffer.
\<close>

lemma usb_reachable_memory_safe:
  assumes "alloc_spec alloc" and "reach usb_start (usb_step alloc) st"
    and "in_transfer_cb nd status n ibuf = Some (Some frame)"
    and "length setup8 = 8" and "out_stage_ok out_data out_len"
    and "\<And>c. completion = Some c \<Longrightarrow> completion_ok (ctrl_data_len out_data out_len max_in) c"
  shows "usb_drv_recv st (ok, Some frame) max_len \<noteq> None
    \<and> usb_drv_send st ok buf (length buf) \<noteq> None
    \<and> usb_drv_send_blocking st ok d buf (length buf) \<noteq> None
    \<and> ctrl_outcome_ok has_in_buf max_in
         (usb_drv_control st ok completion setup8 out_data out_len has_in_buf max_in)"
proof (intro conjI)
  have inv: "usb_inv st" using usb_run.reach_inv [OF assms(2)] assms(1) by simp
  show "usb_drv_recv st (ok, Some frame) max_len \<noteq> None"
    using usb_drv_recv_contract [of "(ok, Some frame)" st max_len] in_transfer_cb_frame_ok [OF assms(3)]
    by auto
  show "usb_drv_send st ok buf (length buf) \<noteq> None"
    using usb_drv_send_contract [OF inv, of ok buf] by auto
  show "usb_drv_send_blocking st ok d buf (length buf) \<noteq> None"
    using fill_out_xfer_safe [OF inv, of _ "length buf" buf]
    by (fastforce simp: usb_drv_send_blocking_def Let_def split: option.splits)
  show "ctrl_outcome_ok has_in_buf max_in
      (usb_drv_control st ok completion setup8 out_data out_len has_in_buf max_in)"
    by (rule usb_drv_control_safe [OF inv assms(4-6)])
qed

text \<open>A HID mouse: one interrupt IN endpoint 0x81 of four bytes.\<close>

definition mouse_config :: usb_config where
  "mouse_config = \<lparr>first_intf = Some 0,
     ep_descs = [\<lparr>ed_bEndpointAddress = 0x81, ed_bmAttributes = 3, ed_wMaxPacketSize = 4\<rparr>]\<rparr>"

definition zero_alloc :: "nat \<Rightarrow> byte list option" where
  "zero_alloc n = Some (replicate n 0)"

lemma zero_alloc_spec: "alloc_spec zero_alloc"
  by (simp add: alloc_spec_def zero_alloc_def)

definition mouse_state :: usb_state where
  "mouse_state = usb_initial\<lparr>s_dev := Some 5,
     s_in_xfer := Some \<lparr>data_buffer = replicate 4 0, device_handle = 5, bEndpointAddress = 0x81,
                         num_bytes = 4\<rparr>,
     s_ctrl_xfer := Some \<lparr>data_buffer = replicate 1032 0, device_handle = 5, bEndpointAddress = 0,
                           num_bytes = 0\<rparr>,
     s_in_ep := 0x81, s_in_mps := 4\<rparr>"

lemma mouse_event:
  "client_event_cb zero_alloc (NEW_DEV (Some 5) 0 mouse_config) usb_initial
     = Some (mouse_state, [InterfaceClaim 5 0])"
  by (simp add: mouse_config_def mouse_state_def usb_initial_def open_pipes_def walk_ep_def
      ep_is_in_def ep_int_or_bulk_def alloc_in_def alloc_out_def alloc_ctrl_def zero_alloc_def
      const_defs)

lemma mouse_reachable: "reach usb_start (usb_step zero_alloc) mouse_state"
proof -
  have "usb_step zero_alloc usb_initial mouse_state"
    by (rule bus_event [OF mouse_event]) (simp add: usb_initial_def)
  moreover have "reach usb_start (usb_step zero_alloc) usb_initial"
    by (rule reach_start) (simp add: usb_start_def)
  ultimately show ?thesis by (rule reach_step [rotated])
qed

text \<open>
  What \<open>usb_drv_recv\<close> hands out is what the device sent: the frame queued for a completed
  IN transfer of \<open>n\<close> bytes is returned as its first \<open>n\<close> bytes, cut to 512 and to the caller's
  buffer, and a failed transfer (any status but completed and no-device) is returned as \<open>-1\<close>; the
  marker length is never mistaken for data.
\<close>

lemma recv_delivers_transfer:
  assumes "s_dev st \<noteq> None" and "s_in_xfer st \<noteq> None"
    and "in_transfer_cb nd status n ibuf = Some (Some frame)"
  shows "usb_drv_recv st (True, Some frame) max_len =
           (if status = 0
            then Some (int (min (min n USB_FRAME_MAX) max_len),
                       take (min (min n USB_FRAME_MAX) max_len) ibuf)
            else Some (-1, []))"
proof (cases "status = 0")
  case True
  let ?k = "min n USB_FRAME_MAX"
  have frame: "frame = \<lparr>fr_data = take ?k ibuf, fr_len = of_nat ?k\<rparr>" and k: "?k \<le> length ibuf"
    using assms(3) True
    by (auto simp: in_transfer_cb_def Let_def mem_read_def min_def split: if_splits)
  have m: "(of_nat ?k :: u16) \<noteq> 0xFFFF" and u: "unat (of_nat ?k :: u16) = ?k"
    using USB_FRAME_MAX_marker [of ?k] by simp_all
  have copy: "(if ?k < max_len then ?k else max_len) = min ?k max_len" by (rule if_less_min)
  have "mem_read (take ?k ibuf) 0 (min ?k max_len) = Some (take (min ?k max_len) ibuf)"
    using k unfolding mem_read_def by (auto simp: min_absorb1 min_le_iff_disj)
  with assms(1,2) True show ?thesis
    unfolding usb_drv_recv_def frame usb_frame.simps fst_conv snd_conv option.case Let_def u copy
    using m by simp
next
  case False
  then have "fr_len frame = 0xFFFF"
    using assms(3) by (auto simp: in_transfer_cb_def split: if_splits)
  with False assms(1,2) show ?thesis by (simp add: usb_drv_recv_def)
qed

text \<open>
  When a device is opened on an idle driver, the pipes are built on the first interrupt or
  bulk IN endpoint of the configuration and on the first such OUT endpoint with a non-zero
  address, whatever other endpoints come before, between or after them.
\<close>

lemma open_pipes_first_endpoints:
  assumes "usb_inv st" and "s_dev st = None" and "cls \<noteq> 0x09" and "first_intf cfg = Some n"
    and "client_event_cb alloc (NEW_DEV (Some h) cls cfg) st = Some (st', calls)"
  shows "s_in_ep st' = (case find in_candidate (ep_descs cfg) of
                          None \<Rightarrow> 0 | Some ep \<Rightarrow> ed_bEndpointAddress ep)
    \<and> s_out_ep st' = (case find out_candidate (ep_descs cfg) of
                          None \<Rightarrow> 0 | Some ep \<Rightarrow> ed_bEndpointAddress ep)
    \<and> (s_in_xfer st' \<noteq> None \<longleftrightarrow> find in_candidate (ep_descs cfg) \<noteq> None)"
proof -
  define st1 where "st1 = fold walk_ep (ep_descs cfg) (st\<lparr>s_dev := Some h, s_intf_num := n\<rparr>)"
  have z: "s_in_ep st = 0" "s_out_ep st = 0" "s_in_xfer st = None"
    using assms(1,2) by (auto simp: usb_inv_def xfer_ok_def)
  have i: "s_in_ep st1 = (case find in_candidate (ep_descs cfg) of
      None \<Rightarrow> 0 | Some ep \<Rightarrow> ed_bEndpointAddress ep)"
    using fold_walk_in [of "st\<lparr>s_dev := Some h, s_intf_num := n\<rparr>" "ep_descs cfg"] z
    by (auto simp: st1_def split: option.splits)
  have o: "s_out_ep st1 = (case find out_candidate (ep_descs cfg) of
      None \<Rightarrow> 0 | Some ep \<Rightarrow> ed_bEndpointAddress ep)"
    using fold_walk_out [of "st\<lparr>s_dev := Some h, s_intf_num := n\<rparr>" "ep_descs cfg"] z
    by (simp add: st1_def)
  have zero: "s_in_ep st1 = 0 \<longleftrightarrow> find in_candidate (ep_descs cfg) = None"
  proof (cases "find in_candidate (ep_descs cfg)")
    case None
    with i show ?thesis by simp
  next
    case (Some ep)
    then have "in_candidate ep" by (auto simp: find_Some_iff)
    with Some i in_candidate_nonzero show ?thesis by simp
  qed
  from assms(3,4,5) have run: "s_in_ep st1 = 0 \<and> st' = st1 \<or> s_in_ep st1 \<noteq> 0 \<and>
      s_in_ep st' = s_in_ep st1 \<and> s_out_ep st' = s_out_ep st1 \<and> s_in_xfer st' \<noteq> None"
    by (auto simp: open_pipes_def st1_def [symmetric] bind_eq_Some_conv alloc_in_def alloc_out_def
        alloc_ctrl_def split: if_splits)
  have "s_in_xfer st1 = None" using z by (simp add: st1_def)
  with run i o zero show ?thesis by auto
qed

text \<open>
  A device whose configuration has no interrupt or bulk IN endpoint is reported as ready, so
  the session announces it to the daemon, yet no transfer buffer exists: every control transfer
  fails with \<open>-1\<close>, every read with \<open>-1\<close>, and every blocking write claims success without writing.
\<close>

lemma ready_without_pipes:
  assumes "usb_inv st" and "s_dev st = None" and "cls \<noteq> 0x09" and "first_intf cfg = Some n"
    and "find in_candidate (ep_descs cfg) = None"
    and "client_event_cb alloc (NEW_DEV (Some h) cls cfg) st = Some (st', calls)"
  shows "usb_drv_is_device_ready st'
    \<and> usb_drv_control st' ok completion setup8 out_data out_len has_in_buf max_in = Some (st', -1, [])
    \<and> usb_drv_recv st' env max_len = Some (-1, [])
    \<and> usb_drv_send_blocking st' ok d buf len = Some (st', 0)"
proof -
  define st1 where "st1 = fold walk_ep (ep_descs cfg) (st\<lparr>s_dev := Some h, s_intf_num := n\<rparr>)"
  have "s_in_ep st1 = 0"
    using fold_walk_in [of "st\<lparr>s_dev := Some h, s_intf_num := n\<rparr>" "ep_descs cfg"] assms(1,2,5)
    by (auto simp: st1_def usb_inv_def)
  with assms(3,4,6) have "st' = st1" by (simp add: open_pipes_def st1_def [symmetric])
  then have "s_dev st' = Some h" "s_in_xfer st' = None" "s_out_xfer st' = None" "s_ctrl_xfer st' = None"
    using assms(1,2) by (auto simp: st1_def usb_inv_def xfer_ok_def)
  then show ?thesis
    by (simp add: usb_drv_is_device_ready_def usb_drv_control_def usb_drv_recv_def
        usb_drv_send_blocking_def)
qed

text \<open>
  A second downstream device that reports no interface, while a first one is open, makes the
  driver forget the first: its handle is lost though its transfers stay allocated, and the later
  \<open>DEV_GONE\<close> neither frees a transfer nor closes the first device.
\<close>

lemma second_device_orphans_transfers:
  assumes "s_dev st = Some h1" and "s_in_xfer st = Some x" and "cls \<noteq> 0x09"
    and "first_intf cfg = None" and "h1 \<noteq> h2" and "s_hub_dev st \<noteq> Some h1"
  shows "\<exists>st' st'' calls. client_event_cb alloc (NEW_DEV (Some h2) cls cfg) st = Some (st', [DeviceClose h2])
     \<and> s_dev st' = None \<and> s_in_xfer st' = Some x
     \<and> client_event_cb alloc DEV_GONE st' = Some (st'', calls)
     \<and> DeviceClose h1 \<notin> set calls \<and> (\<forall>y. TransferFree y \<notin> set calls) \<and> s_in_xfer st'' = Some x"
  using assms by (cases "s_hub_dev st") (auto simp: open_pipes_def)

end
