(* ===== verification/Device_Session.thy ===== *)
theory Device_Session
  imports Reassembly Usbip_Proto Usb_Driver
begin

text \<open>
  The session layer of the firmware (\<open>esp-codes/main/device_session.c\<close>) up to its tasks: the session
  record, the TCP connection for device events, sending raw data in one datagram or in fragments,
  and the USB/IP request handler. What sockets and the USB library answer are arguments; datagrams
  and socket calls are results.
\<close>

definition SESSION_MAX_ID :: u8 where [const_defs]: "SESSION_MAX_ID = 5"

definition SESSION_ACTIVE_BIT :: u32 where [const_defs]: "SESSION_ACTIVE_BIT = BITn 0"
definition SESSION_LOST_BIT :: u32 where [const_defs]: "SESSION_LOST_BIT = BITn 1"

record 'g session =
  ss_cfg :: device_session_cfg
  ss_eg :: 'g
  ss_sock :: int
  ss_daemon_ip :: u32
  ss_seq :: u8
  ss_out_transfer_seq :: u16
  ss_reasm :: reasm_state

section \<open>Device events over TCP\<close>

text \<open>The statics \<open>s_event_sock\<close> and \<open>s_event_connected\<close>, and the socket calls made on them.\<close>

record event_conn =
  s_event_sock :: int
  s_event_connected :: bool

definition event_conn_initial :: event_conn where
  "event_conn_initial = \<lparr>s_event_sock = -1, s_event_connected = False\<rparr>"

datatype ev_call = EvSocket int | EvConnect int u32 u16 | EvSend int "byte list" | EvClose int

text \<open>The answers of \<open>socket\<close>, \<open>connect\<close> and \<open>send\<close>.\<close>

record ev_io =
  io_socket :: int
  io_connect :: int
  io_send :: int

definition ensure_event_tcp_connected :: "u32 \<Rightarrow> event_conn \<Rightarrow> ev_io \<Rightarrow> event_conn \<times> ev_call list" where
  "ensure_event_tcp_connected ip ec io =
     (if s_event_sock ec \<ge> 0 \<and> s_event_connected ec then (ec, [])
      else
        let closing = (if s_event_sock ec \<ge> 0 then [EvClose (s_event_sock ec)] else []);
            fd = io_socket io
        in if fd < 0 then (\<lparr>s_event_sock = fd, s_event_connected = False\<rparr>, closing @ [EvSocket fd])
           else if io_connect io < 0
             then (\<lparr>s_event_sock = -1, s_event_connected = False\<rparr>,
                   closing @ [EvSocket fd, EvConnect fd ip DAEMON_PORT, EvClose fd])
             else (\<lparr>s_event_sock = fd, s_event_connected = True\<rparr>,
                   closing @ [EvSocket fd, EvConnect fd ip DAEMON_PORT]))"

definition event_packet :: "'g session \<Rightarrow> u8 \<Rightarrow> byte list" where
  "event_packet s ev =
     enc_Header \<lparr>cmd_type = CMD_DEVICE_EVENT, device_id = cfg_device_id (ss_cfg s), endpoint = 0,
                 seq = ss_seq s, payload_len = of_nat sizeof_DeviceEvent\<rparr>
     @ enc_DeviceEvent \<lparr>dep_device_id = cfg_device_id (ss_cfg s), event = ev, speed = cfg_speed (ss_cfg s),
          usb_class = cfg_usb_class (ss_cfg s), sub_class = cfg_subclass (ss_cfg s),
          protocol = cfg_protocol (ss_cfg s),
          reply_port = DEVICE_BASE_PORT + ucast (cfg_device_id (ss_cfg s))\<rparr>"

definition send_device_event ::
  "'g session \<Rightarrow> event_conn \<Rightarrow> ev_io \<Rightarrow> u8 \<Rightarrow> 'g session \<times> event_conn \<times> ev_call list" where
  "send_device_event s ec io ev =
     (let (ec1, calls) = ensure_event_tcp_connected (ss_daemon_ip s) ec io
      in if s_event_sock ec1 < 0 \<or> \<not> s_event_connected ec1 then (s, ec1, calls)
         else
           let pkt = event_packet s ev;
               s' = s\<lparr>ss_seq := ss_seq s + 1\<rparr>;
               calls' = calls @ [EvSend (s_event_sock ec1) pkt]
           in if io_send io \<noteq> int (length pkt)
              then (s', \<lparr>s_event_sock = -1, s_event_connected = False\<rparr>,
                    calls' @ [EvClose (s_event_sock ec1)])
              else (s', ec1, calls'))"

section \<open>Raw data\<close>

text \<open>
  \<open>pkt_of cap parts\<close> is a stack buffer of \<open>cap\<close> bytes filled by consecutive \<open>memcpy\<close>s, up to the
  bytes written; \<open>None\<close> when they overrun it.
\<close>

definition pkt_of :: "nat \<Rightarrow> byte list list \<Rightarrow> byte list option" where
  "pkt_of cap parts = (if length (concat parts) \<le> cap then Some (concat parts) else None)"

definition raw_header :: "'g session \<Rightarrow> u8 \<Rightarrow> nat \<Rightarrow> Header" where
  "raw_header s cmd n = \<lparr>cmd_type = cmd, device_id = cfg_device_id (ss_cfg s), endpoint = 0,
     seq = ss_seq s, payload_len = of_nat n\<rparr>"

text \<open>The body of the fragment loop for fragment \<open>i\<close>.\<close>

definition send_frag ::
  "'g session \<Rightarrow> byte list \<Rightarrow> u16 \<Rightarrow> nat \<Rightarrow> nat \<Rightarrow> ('g session \<times> byte list) option" where
  "send_frag s data tseq total_frags i =
     (let offset = i * MTU_PAYLOAD;
          chunk_len = (if offset + MTU_PAYLOAD \<le> length data then MTU_PAYLOAD else length data - offset)
      in do {
        chunk \<leftarrow> mem_read data offset chunk_len;
        pkt \<leftarrow> pkt_of (sizeof_Header + sizeof_FragHeader + MTU_PAYLOAD)
                 [enc_Header (raw_header s CMD_RAW_FRAG (sizeof_FragHeader + chunk_len)),
                  enc_FragHeader \<lparr>transfer_seq = tseq, frag_idx = of_nat i, frag_total = of_nat total_frags\<rparr>,
                  chunk];
        Some (s\<lparr>ss_seq := ss_seq s + 1\<rparr>, pkt) })"

fun send_frags ::
  "'g session \<Rightarrow> byte list \<Rightarrow> u16 \<Rightarrow> nat \<Rightarrow> nat list \<Rightarrow> ('g session \<times> byte list list) option" where
  "send_frags s data tseq total_frags [] = Some (s, [])"
| "send_frags s data tseq total_frags (i # is) =
     do { (s1, pkt) \<leftarrow> send_frag s data tseq total_frags i;
          (s2, pkts) \<leftarrow> send_frags s1 data tseq total_frags is;
          Some (s2, pkt # pkts) }"

text \<open>The datagrams go to the daemon's address at \<open>DAEMON_PORT\<close>; what \<open>sendto\<close> returns is only logged.\<close>

definition send_raw :: "'g session \<Rightarrow> byte list \<Rightarrow> ('g session \<times> byte list list) option" where
  "send_raw s data =
     (if ss_sock s < 0 then Some (s, [])
      else if length data \<le> MTU_PAYLOAD then do {
        pkt \<leftarrow> pkt_of (sizeof_Header + MTU_PAYLOAD)
                 [enc_Header (raw_header s CMD_RAW_DATA (length data)), data];
        Some (s\<lparr>ss_seq := ss_seq s + 1\<rparr>, [pkt]) }
      else
        let total_frags = (length data + MTU_PAYLOAD - 1) div MTU_PAYLOAD;
            tseq = ss_out_transfer_seq s;
            s' = s\<lparr>ss_out_transfer_seq := ss_out_transfer_seq s + 1\<rparr>
        in if total_frags > 255 then Some (s', [])
           else send_frags s' data tseq total_frags [0..<total_frags])"

section \<open>USB/IP requests\<close>

text \<open>
  What the USB side answers while one request is handled: the control transfer's submission and
  completion, the read's answer, the write's submission and completion, and whether \<open>malloc\<close> gives
  the reply buffer.
\<close>

record 'r submit_io =
  sio_ctrl_ok :: bool
  sio_ctrl :: "ctrl_completion option"
  sio_recv :: 'r
  sio_out_ok :: bool
  sio_out :: "int option"
  sio_malloc :: bool

definition IN_BUF_SIZE :: nat where [const_defs]: "IN_BUF_SIZE = 1280"

text \<open>
  The transfer a request asks for: the driver's state, the static \<open>in_buf\<close>, and the variables
  \<open>status\<close> and \<open>actual\<close> after it.
\<close>

definition submit_transfer ::
  "(usb_state, 'r, 'w) device_ops \<Rightarrow> 'r submit_io \<Rightarrow> usb_state \<Rightarrow> byte list \<Rightarrow> usbip_cmd_submit \<Rightarrow> byte list
     \<Rightarrow> (usb_state \<times> byte list \<times> int \<times> int) option" where
  "submit_transfer ops io st in_buf cmd data_buf =
     (let ep = USBIP_U32 (cs_ep cmd);
          direction = USBIP_U32 (cs_direction cmd);
          len = unat (USBIP_U32 (cs_transfer_buffer_length cmd));
          max_in = (if len < IN_BUF_SIZE then len else IN_BUF_SIZE);
          out_len = (if len < length data_buf then len else length data_buf)
      in if ep = 0 then
           if direction = USBIP_DIR_IN then do {
             (st', r, bs) \<leftarrow> usb_drv_control st (sio_ctrl_ok io) (sio_ctrl io) (arr8_bytes (cs_setup cmd))
                               None 0 True (int max_in);
             in_buf' \<leftarrow> memcpy_at in_buf 0 bs;
             Some (st', in_buf', if r < 0 then 1 else 0, if r < 0 then 0 else r) }
           else do {
             (st', r, _) \<leftarrow> usb_drv_control st (sio_ctrl_ok io) (sio_ctrl io) (arr8_bytes (cs_setup cmd))
                              (Some data_buf) (int out_len) False 0;
             Some (st', in_buf, if r < 0 then 1 else 0, 0) }
         else
           if direction = USBIP_DIR_IN then do {
             (n, bs) \<leftarrow> ops_recv ops st (sio_recv io) max_in;
             in_buf' \<leftarrow> memcpy_at in_buf 0 bs;
             Some (st, in_buf', if n < 0 then 1 else 0, if n < 0 then 0 else n) }
           else do {
             (st', r) \<leftarrow> usb_drv_send_blocking st (sio_out_ok io) (sio_out io) data_buf out_len;
             Some (st', in_buf, if r \<noteq> 0 then 1 else 0, 0) })"

definition ret_submit_of :: "usbip_cmd_submit \<Rightarrow> int \<Rightarrow> int \<Rightarrow> usbip_ret_submit" where
  "ret_submit_of cmd status actual =
     \<lparr>rs_command = USBIP_U32 USBIP_RET_SUBMIT, rs_seqnum = cs_seqnum cmd, rs_devid = 0,
      rs_direction = cs_direction cmd, rs_ep = cs_ep cmd, rs_status = USBIP_U32 (of_int status),
      rs_actual_length = USBIP_U32 (of_int actual), rs_start_frame = 0,
      rs_number_of_packets = USBIP_U32 0xFFFFFFFF, rs_error_count = 0, rs_padding = arr8_zero\<rparr>"

definition ret_unlink_of :: "usbip_cmd_unlink \<Rightarrow> usbip_ret_unlink" where
  "ret_unlink_of u =
     \<lparr>ru_command = USBIP_U32 USBIP_RET_UNLINK, ru_seqnum = cu_seqnum u, ru_devid = 0, ru_direction = 0,
      ru_ep = 0, ru_status = 0, ru_padding = (arr8_zero, arr8_zero, arr8_zero)\<rparr>"

definition usb_handle_submit ::
  "(usb_state, 'r, 'w) device_ops \<Rightarrow> 'r submit_io \<Rightarrow> 'g session \<Rightarrow> usb_state \<Rightarrow> byte list \<Rightarrow> byte list
     \<Rightarrow> ('g session \<times> usb_state \<times> byte list \<times> byte list list) option" where
  "usb_handle_submit ops io s st in_buf raw =
     (if length raw < sizeof_usbip then Some (s, st, in_buf, [])
      else do {
        cmd \<leftarrow> dec_cmd_submit raw;
        let command = USBIP_U32 (cs_command cmd);
        if command = USBIP_CMD_UNLINK then do {
          u \<leftarrow> dec_cmd_unlink raw;
          (s', pkts) \<leftarrow> send_raw s (enc_ret_unlink (ret_unlink_of u));
          Some (s', st, in_buf, pkts) }
        else if command \<noteq> USBIP_CMD_SUBMIT then Some (s, st, in_buf, [])
        else do {
          (st', in_buf', status, actual) \<leftarrow> submit_transfer ops io st in_buf cmd (drop sizeof_usbip raw);
          let in_data_len = (if USBIP_U32 (cs_direction cmd) = USBIP_DIR_IN \<and> actual > 0 then nat actual else 0);
          if \<not> sio_malloc io then Some (s, st', in_buf', [])
          else do {
            in_data \<leftarrow> mem_read in_buf' 0 in_data_len;
            (s', pkts) \<leftarrow> send_raw s (enc_ret_submit (ret_submit_of cmd status actual) @ in_data);
            Some (s', st', in_buf', pkts) } } })"

section \<open>The event connection\<close>

text \<open>
  Socket discipline: running the calls against the set of descriptors the module owns. Closing,
  connecting or sending on a descriptor that is not owned is a failure.
\<close>

fun run_ev :: "int set \<Rightarrow> ev_call list \<Rightarrow> int set option" where
  "run_ev own [] = Some own"
| "run_ev own (EvSocket fd # cs) = run_ev (if fd < 0 then own else insert fd own) cs"
| "run_ev own (EvConnect fd ip port # cs) = (if fd \<in> own then run_ev own cs else None)"
| "run_ev own (EvSend fd bs # cs) = (if fd \<in> own then run_ev own cs else None)"
| "run_ev own (EvClose fd # cs) = (if fd \<in> own then run_ev (own - {fd}) cs else None)"

definition ev_owned :: "event_conn \<Rightarrow> int set" where
  "ev_owned ec = (if s_event_sock ec < 0 then {} else {s_event_sock ec})"

definition ev_inv :: "event_conn \<Rightarrow> bool" where
  "ev_inv ec \<longleftrightarrow> (s_event_connected ec \<longleftrightarrow> 0 \<le> s_event_sock ec)"

lemma ev_inv_initial: "ev_inv event_conn_initial"
  by (simp add: ev_inv_def event_conn_initial_def)

lemma run_ev_append [simp]: "run_ev own (xs @ ys) = run_ev own xs \<bind> (\<lambda>own'. run_ev own' ys)"
  by (induction own xs rule: run_ev.induct) simp_all

lemma ensure_event_ok:
  assumes "ensure_event_tcp_connected ip ec io = (ec', calls)"
  shows "run_ev (ev_owned ec) calls = Some (ev_owned ec') \<and> (ev_inv ec \<longrightarrow> ev_inv ec')"
  using assms by (auto simp: ensure_event_tcp_connected_def ev_owned_def ev_inv_def Let_def split: if_splits)

lemma length_event_packet [simp]: "length (event_packet s ev) = 14"
  by (simp add: event_packet_def wire_size)

fun ev_sends :: "ev_call list \<Rightarrow> byte list list" where
  "ev_sends [] = []"
| "ev_sends (EvSend fd bs # cs) = bs # ev_sends cs"
| "ev_sends (_ # cs) = ev_sends cs"

lemma ev_sends_append [simp]: "ev_sends (xs @ ys) = ev_sends xs @ ev_sends ys"
  by (induction xs rule: ev_sends.induct) simp_all

lemma ensure_event_sends: "ensure_event_tcp_connected ip ec io = (ec', calls) \<Longrightarrow> ev_sends calls = []"
  by (auto simp: ensure_event_tcp_connected_def Let_def split: if_splits)

lemma send_device_event_ok:
  assumes "ev_inv ec" and "send_device_event s ec io ev = (s', ec', calls)"
  shows "run_ev (ev_owned ec) calls = Some (ev_owned ec') \<and> ev_inv ec' \<and>
     (ev_sends calls = [] \<and> s' = s \<and> \<not> s_event_connected ec'
      \<or> ev_sends calls = [event_packet s ev] \<and> s' = s\<lparr>ss_seq := ss_seq s + 1\<rparr>
        \<and> (s_event_connected ec' \<longleftrightarrow> io_send io = 14))"
proof -
  obtain ec1 calls1 where e: "ensure_event_tcp_connected (ss_daemon_ip s) ec io = (ec1, calls1)" by force
  with ensure_event_ok [OF e] ensure_event_sends [OF e] assms show ?thesis
    by (auto simp: send_device_event_def Let_def ev_inv_def ev_owned_def split: if_splits)
qed

text \<open>
  Reporting a device event keeps the socket discipline: no descriptor is used or closed that is
  not open, none is leaked, the module afterwards owns exactly the descriptor it remembers, and it
  is remembered as connected exactly when it is valid. At most one packet is sent, the one
  announcing the event, and the sequence number moves exactly then; after a short or failed send the
  connection is dropped.
\<close>

lemma event_socket_discipline:
  assumes "ev_inv ec" and "send_device_event s ec io ev = (s', ec', calls)"
  shows "run_ev (ev_owned ec) calls = Some (ev_owned ec') \<and> ev_inv ec' \<and>
     (ev_sends calls = [] \<and> s' = s \<and> \<not> s_event_connected ec'
      \<or> ev_sends calls = [event_packet s ev] \<and> s' = s\<lparr>ss_seq := ss_seq s + 1\<rparr>
        \<and> (s_event_connected ec' \<longleftrightarrow> io_send io = 14))"
  using assms by (rule send_device_event_ok)

definition mouse_cfg :: device_session_cfg where
  "mouse_cfg = \<lparr>cfg_device_id = DEVICE_ID_USB0, cfg_speed = USB_SPEED_FULL, cfg_usb_class = 3,
     cfg_subclass = 1, cfg_protocol = 2, cfg_usbip_mode = True\<rparr>"

definition mouse_session :: "u32 session" where
  "mouse_session = \<lparr>ss_cfg = mouse_cfg, ss_eg = 0, ss_sock = 5, ss_daemon_ip = 0x0100007F, ss_seq = 7,
     ss_out_transfer_seq = 0, ss_reasm = reasm_zero\<rparr>"

section \<open>What is sent\<close>

text \<open>The fragments of a transfer, the \<open>k\<close>-th with the \<open>k\<close>-th following sequence number.\<close>

definition frag_packet :: "'g session \<Rightarrow> u16 \<Rightarrow> nat \<Rightarrow> byte list list \<Rightarrow> nat \<Rightarrow> byte list" where
  "frag_packet s tseq total_frags chunks i =
     enc_Header (raw_header (s\<lparr>ss_seq := ss_seq s + of_nat i\<rparr>) CMD_RAW_FRAG (sizeof_FragHeader + length (chunks ! i)))
     @ enc_FragHeader \<lparr>transfer_seq = tseq, frag_idx = of_nat i, frag_total = of_nat total_frags\<rparr>
     @ chunks ! i"

lemma MTU_pos [simp]: "0 < MTU_PAYLOAD"
  by (simp add: MTU_PAYLOAD_def)

lemma send_frag_packet:
  assumes i: "i < length (chunks_of MTU_PAYLOAD data)"
  shows "send_frag (s\<lparr>ss_seq := ss_seq s + of_nat i\<rparr>) data tseq n i =
     Some (s\<lparr>ss_seq := ss_seq s + of_nat (Suc i)\<rparr>, frag_packet s tseq n (chunks_of MTU_PAYLOAD data) i)"
proof -
  have c: "chunks_of MTU_PAYLOAD data ! i = take MTU_PAYLOAD (drop (i * MTU_PAYLOAD) data)"
    using i by (intro nth_chunks_of) simp_all
  have off: "i * MTU_PAYLOAD < length data"
    using chunks_of_bound [OF nth_mem [OF i]] c by (metis drop_all linorder_not_less take_Nil)
  have len: "(if i * MTU_PAYLOAD + MTU_PAYLOAD \<le> length data then MTU_PAYLOAD
       else length data - i * MTU_PAYLOAD) = length (chunks_of MTU_PAYLOAD data ! i)"
    using off by (simp add: c)
  have read: "mem_read data (i * MTU_PAYLOAD) (length (chunks_of MTU_PAYLOAD data ! i))
       = Some (chunks_of MTU_PAYLOAD data ! i)"
    using off by (auto simp: mem_read_def c min_def)
  show ?thesis
    unfolding send_frag_def Let_def len read
    using chunks_of_bound [OF nth_mem [OF i]]
    by (simp add: pkt_of_def frag_packet_def raw_header_def wire_size add_ac)
qed

lemma send_frags_packets:
  assumes "i + k \<le> length (chunks_of MTU_PAYLOAD data)"
  shows "send_frags (s\<lparr>ss_seq := ss_seq s + of_nat i\<rparr>) data tseq n [i..<i + k] =
     Some (s\<lparr>ss_seq := ss_seq s + of_nat (i + k)\<rparr>,
           map (frag_packet s tseq n (chunks_of MTU_PAYLOAD data)) [i..<i + k])"
  using assms
proof (induction k arbitrary: i)
  case 0
  then show ?case by simp
next
  case (Suc k)
  then have "[i..<i + Suc k] = i # [Suc i..<Suc i + k]" by (simp add: upt_rec)
  moreover have "send_frag (s\<lparr>ss_seq := ss_seq s + of_nat i\<rparr>) data tseq n i =
     Some (s\<lparr>ss_seq := ss_seq s + of_nat (Suc i)\<rparr>, frag_packet s tseq n (chunks_of MTU_PAYLOAD data) i)"
    using Suc.prems by (intro send_frag_packet) simp
  ultimately show ?case
    using Suc.IH [of "Suc i"] Suc.prems by (simp del: of_nat_Suc)
qed

lemma send_raw_single:
  assumes "0 \<le> ss_sock s" and "length data \<le> MTU_PAYLOAD"
  shows "send_raw s data = Some (s\<lparr>ss_seq := ss_seq s + 1\<rparr>,
           [enc_Header (raw_header s CMD_RAW_DATA (length data)) @ data])"
  using assms by (simp add: send_raw_def pkt_of_def wire_size)

lemma send_raw_many:
  assumes "0 \<le> ss_sock s" and "MTU_PAYLOAD < length data"
  shows "send_raw s data =
     (let chunks = chunks_of MTU_PAYLOAD data;
          n = length chunks;
          s' = s\<lparr>ss_out_transfer_seq := ss_out_transfer_seq s + 1\<rparr>
      in if n > 255 then Some (s', [])
         else Some (s'\<lparr>ss_seq := ss_seq s + of_nat n\<rparr>,
                    map (frag_packet s (ss_out_transfer_seq s) n chunks) [0..<n]))"
proof -
  let ?s = "s\<lparr>ss_out_transfer_seq := ss_out_transfer_seq s + 1\<rparr>"
  let ?n = "length (chunks_of MTU_PAYLOAD data)"
  have n: "(length data + MTU_PAYLOAD - 1) div MTU_PAYLOAD = ?n"
    by (simp add: length_chunks_of)
  have hdr: "frag_packet ?s t = frag_packet s t" for t
    by (simp add: frag_packet_def raw_header_def fun_eq_iff)
  have "?s\<lparr>ss_seq := ss_seq ?s + of_nat 0\<rparr> = ?s" by simp
  then show ?thesis
    using assms send_frags_packets [of 0 ?n data ?s "ss_out_transfer_seq s" ?n]
    by (simp add: send_raw_def Let_def n [simplified] hdr)
qed

lemma send_raw_safe: "\<exists>s' pkts. send_raw s data = Some (s', pkts) \<and> ss_reasm s' = ss_reasm s \<and>
    ss_sock s' = ss_sock s \<and> ss_eg s' = ss_eg s \<and> ss_cfg s' = ss_cfg s \<and> ss_daemon_ip s' = ss_daemon_ip s"
proof (cases "0 \<le> ss_sock s")
  case False
  then show ?thesis by (simp add: send_raw_def)
next
  case True
  then show ?thesis
    using send_raw_single [OF True, of data] send_raw_many [OF True, of data]
    by (cases "length data \<le> MTU_PAYLOAD") (simp_all add: Let_def)
qed

text \<open>A fragment packet read back.\<close>

lemma frag_packet_parts:
  "drop 10 (frag_packet s t n chunks i) = chunks ! i"
  "length (frag_packet s t n chunks i) = 10 + length (chunks ! i)"
  "dec_Header (frag_packet s t n chunks i) =
     Some (raw_header (s\<lparr>ss_seq := ss_seq s + of_nat i\<rparr>) CMD_RAW_FRAG (4 + length (chunks ! i)))"
  "dec_FragHeader (drop 6 (frag_packet s t n chunks i)) =
     Some \<lparr>transfer_seq = t, frag_idx = of_nat i, frag_total = of_nat n\<rparr>"
  by (simp_all add: frag_packet_def wire_size)

text \<open>
  Data of more than 1400 and at most 255 * 1400 bytes is sent as \<open>\<lceil>len / 1400\<rceil>\<close> \<open>CMD_RAW_FRAG\<close>
  datagrams of at most 1410 bytes: the \<open>i\<close>-th one carries the sequence number \<open>i\<close> after the session's,
  the transfer number, its own index and the total, and the payloads put together are the data. The
  sequence number then moves by the number of datagrams and the transfer number by one, both
  wrapping around at their width.
\<close>

lemma send_raw_fragments:
  assumes "0 \<le> ss_sock s" and "MTU_PAYLOAD < length data" and "length data \<le> 255 * MTU_PAYLOAD"
  shows "\<exists>s' pkts. send_raw s data = Some (s', pkts) \<and>
     length pkts = (length data + MTU_PAYLOAD - 1) div MTU_PAYLOAD \<and>
     concat (map (drop 10) pkts) = data \<and>
     (\<forall>i < length pkts. length (pkts ! i) \<le> 1410 \<and>
        dec_Header (pkts ! i) = Some (raw_header (s\<lparr>ss_seq := ss_seq s + of_nat i\<rparr>) CMD_RAW_FRAG (length (pkts ! i) - 6)) \<and>
        dec_FragHeader (drop 6 (pkts ! i)) =
          Some \<lparr>transfer_seq = ss_out_transfer_seq s, frag_idx = of_nat i, frag_total = of_nat (length pkts)\<rparr>) \<and>
     s' = s\<lparr>ss_seq := ss_seq s + of_nat (length pkts), ss_out_transfer_seq := ss_out_transfer_seq s + 1\<rparr>"
proof -
  let ?c = "chunks_of MTU_PAYLOAD data"
  have len: "length ?c = (length data + MTU_PAYLOAD - 1) div MTU_PAYLOAD"
    by (simp add: length_chunks_of)
  also have "\<dots> < 256"
    using assms(3) by (intro less_mult_imp_div_less) (simp add: MTU_PAYLOAD_def)
  finally have n: "\<not> length ?c > 255" by simp
  have "map (drop 10) (map (frag_packet s t k ?c) [0..<length ?c]) = ?c" for t k
    by (simp add: frag_packet_parts comp_def map_nth)
  then have cat: "concat (map (drop 10) (map (frag_packet s t k ?c) [0..<length ?c])) = data" for t k
    by (simp only: concat_chunks_of MTU_pos)
  have bound: "length (?c ! i) \<le> 1400" if "i < length ?c" for i
    using chunks_of_bound [OF nth_mem [OF that]] by (simp add: MTU_PAYLOAD_def)
  show ?thesis
    unfolding send_raw_many [OF assms(1,2)] Let_def if_not_P [OF n]
    using cat bound len by (simp add: frag_packet_parts)
qed

section \<open>The USB/IP request handler\<close>

text \<open>
  The length of the data stage of a request, and what is relied on of the USB library's answers: the
  frame read is one the driver queued, and a completed control transfer stays within its buffer and
  its data stage.
\<close>

definition submit_stage_len :: "usbip_cmd_submit \<Rightarrow> byte list \<Rightarrow> nat" where
  "submit_stage_len cmd data_buf =
     min (unat (USBIP_U32 (cs_transfer_buffer_length cmd)))
         (if USBIP_U32 (cs_direction cmd) = USBIP_DIR_IN then IN_BUF_SIZE else length data_buf)"

definition submit_io_ok :: "(bool \<times> usb_frame option) submit_io \<Rightarrow> usbip_cmd_submit \<Rightarrow> byte list \<Rightarrow> bool" where
  "submit_io_ok io cmd data_buf \<longleftrightarrow>
     (\<forall>f. snd (sio_recv io) = Some f \<longrightarrow> frame_ok f) \<and>
     (\<forall>c. sio_ctrl io = Some c \<longrightarrow> completion_ok (submit_stage_len cmd data_buf) c)"

text \<open>
  The outcome of the transfer: no fault, the invariants kept, and \<open>status\<close> and \<open>actual\<close> as the reply
  needs them.
\<close>

definition transfer_ok :: "usbip_cmd_submit \<Rightarrow> byte list \<Rightarrow> (usb_state \<times> byte list \<times> int \<times> int) option \<Rightarrow> bool" where
  "transfer_ok cmd data_buf res \<longleftrightarrow>
     (case res of
        None \<Rightarrow> False
      | Some (st', in_buf', status, actual) \<Rightarrow>
          usb_inv st' \<and> length in_buf' = IN_BUF_SIZE \<and> (status = 0 \<or> status = 1 \<and> actual = 0) \<and>
          0 \<le> actual \<and> actual \<le> int (submit_stage_len cmd data_buf) \<and>
          (USBIP_U32 (cs_direction cmd) \<noteq> USBIP_DIR_IN \<longrightarrow> actual = 0))"

lemma memcpy_in_buf:
  "length in_buf = IN_BUF_SIZE \<Longrightarrow> length bs \<le> IN_BUF_SIZE \<Longrightarrow>
     memcpy_at in_buf 0 bs = Some (bs @ drop (length bs) in_buf)"
  by (simp add: memcpy_at_def)

lemma ctrl_in_ok:
  assumes inv: "usb_inv st" and buf: "length in_buf = IN_BUF_SIZE" and m: "m \<le> IN_BUF_SIZE"
    and c: "\<And>c. completion = Some c \<Longrightarrow> completion_ok m c" and l8: "length setup8 = 8"
  shows "\<exists>st' r bs in_buf'. usb_drv_control st ok completion setup8 None 0 True (int m) = Some (st', r, bs) \<and>
     memcpy_at in_buf 0 bs = Some in_buf' \<and> length in_buf' = IN_BUF_SIZE \<and> usb_inv st' \<and> r \<le> int m"
proof -
  have n: "ctrl_data_len None 0 (int m) = m" by (simp add: ctrl_data_len_def)
  have "out_stage_ok None 0" by (simp add: out_stage_ok_def)
  from usb_drv_control_safe [OF inv l8 this, of completion "int m"] c
  have out: "ctrl_outcome_ok True (int m) (usb_drv_control st ok completion setup8 None 0 True (int m))"
    by (simp add: n)
  then obtain st' r bs where run: "usb_drv_control st ok completion setup8 None 0 True (int m) = Some (st', r, bs)"
    and st': "usb_inv st'" and bs: "length bs \<le> m"
    by (auto simp: ctrl_outcome_ok_def split: option.splits if_splits)
  moreover have "r \<le> int m"
    using usb_drv_control_actual [OF _ run] c by (simp add: n)
  ultimately show ?thesis
    using memcpy_in_buf [OF buf, of bs] buf m by auto
qed

lemma ctrl_out_ok:
  assumes inv: "usb_inv st" and n: "n \<le> length d" "n < 2 ^ 32"
    and c: "\<And>c. completion = Some c \<Longrightarrow> completion_ok n c" and l8: "length setup8 = 8"
  shows "\<exists>st' r bs. usb_drv_control st ok completion setup8 (Some d) (int n) False 0 = Some (st', r, bs) \<and> usb_inv st'"
proof -
  have len: "ctrl_data_len (Some d) (int n) 0 = n" using n by (simp add: ctrl_data_len_def)
  have "out_stage_ok (Some d) (int n)" using n by (simp add: out_stage_ok_def)
  from usb_drv_control_safe [OF inv l8 this, of completion 0 False ok] c
  show ?thesis by (auto simp: len ctrl_outcome_ok_def split: option.splits)
qed

lemma length_arr8_setup: "length (arr8_bytes (cs_setup cmd)) = 8"
  by simp

lemma submit_transfer_ok:
  assumes inv: "usb_inv st" and buf: "length in_buf = IN_BUF_SIZE" and io: "submit_io_ok io cmd data_buf"
  shows "transfer_ok cmd data_buf (submit_transfer USB_DRIVER_OPS io st in_buf cmd data_buf)"
proof -
  let ?len = "unat (USBIP_U32 (cs_transfer_buffer_length cmd))"
  let ?m = "submit_stage_len cmd data_buf"
  have comp: "completion_ok ?m c" if "sio_ctrl io = Some c" for c
    using io that by (simp add: submit_io_ok_def)
  have max_in: "(if ?len < IN_BUF_SIZE then ?len else IN_BUF_SIZE) = ?m" and m: "?m \<le> IN_BUF_SIZE"
    if "USBIP_U32 (cs_direction cmd) = USBIP_DIR_IN"
    using that by (simp_all add: submit_stage_len_def min_def)
  have out_len: "(if ?len < length data_buf then ?len else length data_buf) = ?m"
    and o: "?m \<le> length data_buf" "?m < 2 ^ 32"
    if "USBIP_U32 (cs_direction cmd) \<noteq> USBIP_DIR_IN"
    using that unsigned_less [of "USBIP_U32 (cs_transfer_buffer_length cmd)"]
    by (auto simp: submit_stage_len_def min_def)
  show ?thesis
  proof (cases "USBIP_U32 (cs_direction cmd) = USBIP_DIR_IN")
    case dir: True
    obtain st' r bs in_buf' where c: "usb_drv_control st (sio_ctrl_ok io) (sio_ctrl io) (arr8_bytes (cs_setup cmd))
        None 0 True (int ?m) = Some (st', r, bs)" "memcpy_at in_buf 0 bs = Some in_buf'"
        "length in_buf' = IN_BUF_SIZE" "usb_inv st'" "r \<le> int ?m"
      using ctrl_in_ok [OF inv buf m [OF dir] comp length_arr8_setup] by blast
    obtain n bs2 where r: "ops_recv USB_DRIVER_OPS st (sio_recv io) ?m = Some (n, bs2)"
      and n: "n < 0 \<and> bs2 = [] \<or> n = int (length bs2) \<and> length bs2 \<le> ?m"
      using usb_ops.recv_contract [OF inv, of "sio_recv io" ?m] io by (auto simp: submit_io_ok_def)
    have "memcpy_at in_buf 0 bs2 = Some (bs2 @ drop (length bs2) in_buf)"
      using n m [OF dir] by (intro memcpy_in_buf [OF buf]) auto
    with c r n inv dir buf m [OF dir] show ?thesis
      unfolding submit_transfer_def Let_def max_in [OF dir] transfer_ok_def by auto
  next
    case dir: False
    obtain st' r bs where c: "usb_drv_control st (sio_ctrl_ok io) (sio_ctrl io) (arr8_bytes (cs_setup cmd))
        (Some data_buf) (int ?m) False 0 = Some (st', r, bs)" "usb_inv st'"
      using ctrl_out_ok [OF inv o [OF dir] comp length_arr8_setup] by blast
    obtain st2 r2 where b: "usb_drv_send_blocking st (sio_out_ok io) (sio_out io) data_buf ?m = Some (st2, r2)"
      using usb_drv_send_blocking_safe [OF inv o(1) [OF dir]] by blast
    with c inv dir buf usb_drv_send_blocking_inv [OF inv b] show ?thesis
      unfolding submit_transfer_def Let_def out_len [OF dir] transfer_ok_def by auto
  qed
qed

text \<open>One request, in terms of its transfer.\<close>

lemma usb_handle_submit_reply:
  assumes "submit_transfer ops io st in_buf cmd data_buf = Some (st', in_buf', status, actual)"
    and "transfer_ok cmd data_buf (Some (st', in_buf', status, actual))"
    and "USBIP_U32 (cs_command cmd) = USBIP_CMD_SUBMIT" and "sio_malloc io" and "0 \<le> ss_sock s"
  shows "usb_handle_submit ops io s st in_buf (enc_cmd_submit cmd @ data_buf) =
     Some (s\<lparr>ss_seq := ss_seq s + 1\<rparr>, st', in_buf',
           [enc_Header (raw_header s CMD_RAW_DATA (48 + nat actual))
            @ enc_ret_submit (ret_submit_of cmd status actual) @ take (nat actual) in_buf'])"
proof -
  let ?n = "if USBIP_U32 (cs_direction cmd) = USBIP_DIR_IN \<and> actual > 0 then nat actual else 0"
  have n: "?n = nat actual" and act: "nat actual \<le> IN_BUF_SIZE" and len: "length in_buf' = IN_BUF_SIZE"
    using assms(2) by (auto simp: transfer_ok_def submit_stage_len_def)
  have read: "mem_read in_buf' 0 (nat actual) = Some (take (nat actual) in_buf')"
    using act len by (simp add: mem_read_def)
  have "send_raw s (enc_ret_submit (ret_submit_of cmd status actual) @ take (nat actual) in_buf') =
    Some (s\<lparr>ss_seq := ss_seq s + 1\<rparr>, [enc_Header (raw_header s CMD_RAW_DATA (48 + nat actual))
            @ enc_ret_submit (ret_submit_of cmd status actual) @ take (nat actual) in_buf'])"
    using send_raw_single [OF assms(5), of "enc_ret_submit (ret_submit_of cmd status actual) @ take (nat actual) in_buf'"]
      act len by (simp add: sizeof_usbip_def MTU_PAYLOAD_def IN_BUF_SIZE_def)
  moreover have "USBIP_CMD_SUBMIT \<noteq> USBIP_CMD_UNLINK" by (simp add: const_defs)
  ultimately show ?thesis
    using assms(1,3,4) read by (simp add: usb_handle_submit_def n sizeof_usbip_def)
qed


definition mouse_read :: usbip_cmd_submit where
  "mouse_read = \<lparr>cs_command = USBIP_U32 1, cs_seqnum = USBIP_U32 77, cs_devid = 0, cs_direction = USBIP_U32 1,
     cs_ep = USBIP_U32 1, cs_transfer_flags = 0, cs_transfer_buffer_length = USBIP_U32 8, cs_start_frame = 0,
     cs_number_of_packets = 0, cs_interval = 0, cs_setup = arr8_zero\<rparr>"

definition mouse_io :: "(bool \<times> usb_frame option) submit_io" where
  "mouse_io = \<lparr>sio_ctrl_ok = True, sio_ctrl = None,
     sio_recv = (True, Some \<lparr>fr_data = [1, 2, 3, 4], fr_len = 4\<rparr>),
     sio_out_ok = True, sio_out = None, sio_malloc = True\<rparr>"

lemma mouse_state_inv: "usb_inv mouse_state"
  using usb_run.reach_inv [OF mouse_reachable] by (simp add: alloc_spec_def zero_alloc_def)

lemma mouse_io_ok: "submit_io_ok mouse_io cmd d"
  by (simp add: submit_io_ok_def mouse_io_def frame_ok_def)


text \<open>
  A read request for an interrupt or bulk endpoint is answered with the bytes the device sent:
  when a frame is in the driver's queue, the reply has status 0 and carries the frame, cut to the
  length asked for.
\<close>

lemma submit_read_delivers_frame:
  assumes "s_dev st \<noteq> None" and "s_in_xfer st \<noteq> None" and "length in_buf = IN_BUF_SIZE"
    and "sio_recv io = (True, Some f)" and "fr_len f \<noteq> 0xFFFF" and "unat (fr_len f) = length (fr_data f)"
    and "USBIP_U32 (cs_command cmd) = USBIP_CMD_SUBMIT" and "USBIP_U32 (cs_direction cmd) = USBIP_DIR_IN"
    and "USBIP_U32 (cs_ep cmd) \<noteq> 0" and "sio_malloc io" and "0 \<le> ss_sock s" and "usb_inv st"
  shows "\<exists>in_buf'. usb_handle_submit USB_DRIVER_OPS io s st in_buf (enc_cmd_submit cmd) =
     (let d = take (min (unat (USBIP_U32 (cs_transfer_buffer_length cmd))) IN_BUF_SIZE) (fr_data f)
      in Some (s\<lparr>ss_seq := ss_seq s + 1\<rparr>, st, in_buf',
               [enc_Header (raw_header s CMD_RAW_DATA (48 + length d))
                @ enc_ret_submit (ret_submit_of cmd 0 (int (length d))) @ d]))"
proof -
  let ?m = "min (unat (USBIP_U32 (cs_transfer_buffer_length cmd))) IN_BUF_SIZE"
  define d where "d = take ?m (fr_data f)"
  have recv_m: "ops_recv USB_DRIVER_OPS st (sio_recv io) m = Some (int (length (take m (fr_data f))), take m (fr_data f))"
    for m using assms(1,2,4-6) by (auto simp: USB_DRIVER_OPS_def usb_drv_recv_def mem_read_def min_def)
  note recv = recv_m [of ?m, folded d_def]
  have copy: "memcpy_at in_buf 0 d = Some (d @ drop (length d) in_buf)"
    by (rule memcpy_in_buf [OF assms(3)]) (simp add: d_def)
  have t: "submit_transfer USB_DRIVER_OPS io st in_buf cmd [] =
      Some (st, d @ drop (length d) in_buf, 0, int (length d))"
    unfolding submit_transfer_def Let_def if_less_min if_not_P [OF assms(9)] if_P [OF assms(8)] recv
      bind.bind_lunit prod.case copy by simp
  have ok: "transfer_ok cmd [] (Some (st, d @ drop (length d) in_buf, 0, int (length d)))"
    using assms(3,8,12) by (auto simp: transfer_ok_def submit_stage_len_def d_def)
  show ?thesis
    using usb_handle_submit_reply [OF t ok assms(7,10,11)]
    unfolding Let_def d_def [symmetric] by auto
qed

text \<open>
  A control read of more than 1024 bytes never reaches the device: whatever the library answers,
  the request is answered with status 1 and no data, although the read buffer holds 1280 bytes.
\<close>

lemma control_read_over_1024_fails:
  assumes "usb_inv st" and "length in_buf = IN_BUF_SIZE"
    and "USBIP_U32 (cs_command cmd) = USBIP_CMD_SUBMIT" and "USBIP_U32 (cs_direction cmd) = USBIP_DIR_IN"
    and "USBIP_U32 (cs_ep cmd) = 0" and "1024 < unat (USBIP_U32 (cs_transfer_buffer_length cmd))"
    and "sio_malloc io" and "0 \<le> ss_sock s"
  shows "\<exists>st'. usb_handle_submit USB_DRIVER_OPS io s st in_buf (enc_cmd_submit cmd) =
     Some (s\<lparr>ss_seq := ss_seq s + 1\<rparr>, st', in_buf,
           [enc_Header (raw_header s CMD_RAW_DATA 48) @ enc_ret_submit (ret_submit_of cmd 1 0)])"
proof -
  let ?m = "min (unat (USBIP_U32 (cs_transfer_buffer_length cmd))) IN_BUF_SIZE"
  have m: "1024 < int ?m" using assms(6) by (simp add: IN_BUF_SIZE_def)
  obtain st' where c: "usb_drv_control st (sio_ctrl_ok io) (sio_ctrl io) (arr8_bytes (cs_setup cmd))
      None 0 True (int ?m) = Some (st', -1, [])" "usb_inv st'"
    using usb_drv_control_in_too_long [OF assms(1) length_arr8_setup m] by blast
  have t: "submit_transfer USB_DRIVER_OPS io st in_buf cmd [] = Some (st', in_buf, 1, 0)"
    unfolding submit_transfer_def Let_def if_less_min if_P [OF assms(5)] if_P [OF assms(4)] c(1)
      bind.bind_lunit prod.case by (simp add: memcpy_at_def)
  have ok: "transfer_ok cmd [] (Some (st', in_buf, 1, 0))"
    using assms(2) c(2) by (simp add: transfer_ok_def)
  show ?thesis
    by (rule exI [of _ st']) (use usb_handle_submit_reply [OF t ok assms(3,7,8)] in simp)
qed

text \<open>
  What is not a submit request: an unlink request is acknowledged with a \<open>RET_UNLINK\<close> that echoes
  its sequence number and has status 0, and the driver is not touched; a payload shorter than a
  request and an unknown command are ignored.
\<close>

lemma submit_other_requests:
  "(0 \<le> ss_sock s \<and> USBIP_U32 (cu_command u) = USBIP_CMD_UNLINK \<longrightarrow>
      usb_handle_submit ops io s st in_buf (enc_cmd_unlink u @ rest) =
        Some (s\<lparr>ss_seq := ss_seq s + 1\<rparr>, st, in_buf,
              [enc_Header (raw_header s CMD_RAW_DATA 48) @ enc_ret_unlink (ret_unlink_of u)])) \<and>
   (length raw < 48 \<longrightarrow> usb_handle_submit ops io s st in_buf raw = Some (s, st, in_buf, [])) \<and>
   (USBIP_U32 (cs_command cmd) \<notin> {USBIP_CMD_UNLINK, USBIP_CMD_SUBMIT} \<longrightarrow>
      usb_handle_submit ops io s st in_buf (enc_cmd_submit cmd @ rest) = Some (s, st, in_buf, []))"
proof -
  have "send_raw s (enc_ret_unlink (ret_unlink_of u)) = Some (s\<lparr>ss_seq := ss_seq s + 1\<rparr>,
      [enc_Header (raw_header s CMD_RAW_DATA 48) @ enc_ret_unlink (ret_unlink_of u)])" if "0 \<le> ss_sock s"
    using send_raw_single [OF that, of "enc_ret_unlink (ret_unlink_of u)"]
    by (simp add: sizeof_usbip_def MTU_PAYLOAD_def)
  moreover obtain c where "dec_cmd_submit (enc_cmd_unlink u @ rest) = Some c" "cs_command c = cu_command u"
    using cmd_unlink_as_submit [of "enc_cmd_unlink u @ rest" u] by auto
  ultimately show ?thesis
    by (simp add: usb_handle_submit_def sizeof_usbip_def)
qed

end
