(* ===== verification/Session_Tasks.thy ===== *)
theory Session_Tasks
  imports Device_Session
begin

text \<open>
  The tasks of a session (\<open>esp-codes/main/device_session.c\<close>: \<open>session_ctrl_task\<close>, \<open>session_up_task\<close>,
  \<open>session_down_task\<close>, \<open>device_session_start\<close>) as a system of interleaved steps. The control task
  moves one event-group call or socket call group at a time; the data tasks move one round of their
  loop at a time; the USB driver moves on its own.
\<close>

definition RX_BUF_SIZE :: nat where [const_defs]: "RX_BUF_SIZE = 1418"
definition TX_BUF_SIZE :: nat where [const_defs]: "TX_BUF_SIZE = 1600"

section \<open>The control task\<close>

datatype ctrl_pc =
    Wait_Found | Read_Ip | Open_Reply | Activate int | Check_Usb | Poll_Usb | After_Poll | Announce
  | Clear_Lost | Set_Active | Wait_Lost | Clear_Active | Set_Lost | Close_Reply | Farewell | Clear_Lost_End

datatype udp_call = UdpSocket int | UdpBind int u16 | UdpTimeout int | UdpClose int

text \<open>
  What the control task's environment answers at a step: the daemon bits and address of the hub
  client, the socket calls, and the event connection.
\<close>

record ctrl_io =
  ci_found :: bool
  ci_lost :: bool
  ci_ip :: u32
  ci_socket :: int
  ci_bind :: int
  ci_sockopt :: int
  ci_ev :: ev_io

text \<open>\<open>None\<close> is a step that blocks.\<close>

definition open_reply :: "ctrl_io \<Rightarrow> u16 \<Rightarrow> ctrl_pc \<times> udp_call list" where
  "open_reply io port =
     (let fd = ci_socket io
      in if fd < 0 then (Wait_Found, [UdpSocket fd])
         else if ci_bind io < 0 then (Wait_Found, [UdpSocket fd, UdpBind fd port, UdpClose fd])
         else if ci_sockopt io < 0
           then (Wait_Found, [UdpSocket fd, UdpBind fd port, UdpTimeout fd, UdpClose fd])
         else (Activate fd, [UdpSocket fd, UdpBind fd port, UdpTimeout fd]))"

fun session_ctrl_step ::
  "'g eg_ops \<Rightarrow> ctrl_io \<Rightarrow> usb_state \<Rightarrow> ctrl_pc \<Rightarrow> 'g session \<Rightarrow> event_conn
     \<Rightarrow> (ctrl_pc \<times> 'g session \<times> event_conn \<times> udp_call list) option" where
  "session_ctrl_step E io usb Wait_Found s ec = (if ci_found io then Some (Read_Ip, s, ec, []) else None)"
| "session_ctrl_step E io usb Read_Ip s ec = Some (Open_Reply, s\<lparr>ss_daemon_ip := ci_ip io\<rparr>, ec, [])"
| "session_ctrl_step E io usb Open_Reply s ec =
     (let (pc', calls) = open_reply io (DEVICE_BASE_PORT + ucast (cfg_device_id (ss_cfg s)))
      in Some (pc', s, ec, calls))"
| "session_ctrl_step E io usb (Activate fd) s ec =
     Some (Check_Usb, s\<lparr>ss_sock := fd, ss_reasm := reasm_zero, ss_seq := 0, ss_out_transfer_seq := 0\<rparr>, ec, [])"
| "session_ctrl_step E io usb Check_Usb s ec =
     Some (if cfg_usbip_mode (ss_cfg s) \<and> \<not> usb_drv_is_device_ready usb then Poll_Usb else Announce, s, ec, [])"
| "session_ctrl_step E io usb Poll_Usb s ec =
     Some (if ci_lost io then After_Poll else if usb_drv_is_device_ready usb then After_Poll else Poll_Usb,
           s, ec, [])"
| "session_ctrl_step E io usb After_Poll s ec =
     (if ci_lost io then Some (Wait_Found, s\<lparr>ss_sock := -1\<rparr>, ec, [UdpClose (ss_sock s)])
      else Some (Announce, s, ec, []))"
| "session_ctrl_step E io usb Announce s ec =
     (let (s', ec', _) = send_device_event s ec (ci_ev io) DEVICE_EVENT_CONNECT in Some (Clear_Lost, s', ec', []))"
| "session_ctrl_step E io usb Clear_Lost s ec =
     Some (Set_Active, s\<lparr>ss_eg := eg_clear E (ss_eg s) SESSION_LOST_BIT\<rparr>, ec, [])"
| "session_ctrl_step E io usb Set_Active s ec =
     Some (Wait_Lost, s\<lparr>ss_eg := eg_set E (ss_eg s) SESSION_ACTIVE_BIT\<rparr>, ec, [])"
| "session_ctrl_step E io usb Wait_Lost s ec = (if ci_lost io then Some (Clear_Active, s, ec, []) else None)"
| "session_ctrl_step E io usb Clear_Active s ec =
     Some (Set_Lost, s\<lparr>ss_eg := eg_clear E (ss_eg s) SESSION_ACTIVE_BIT\<rparr>, ec, [])"
| "session_ctrl_step E io usb Set_Lost s ec =
     Some (Close_Reply, s\<lparr>ss_eg := eg_set E (ss_eg s) SESSION_LOST_BIT\<rparr>, ec, [])"
| "session_ctrl_step E io usb Close_Reply s ec =
     Some (Farewell, s\<lparr>ss_sock := -1\<rparr>, ec, [UdpClose (ss_sock s)])"
| "session_ctrl_step E io usb Farewell s ec =
     (let (s', ec', _) = send_device_event s ec (ci_ev io) DEVICE_EVENT_DISCONNECT in Some (Clear_Lost_End, s', ec', []))"
| "session_ctrl_step E io usb Clear_Lost_End s ec =
     Some (Wait_Found, s\<lparr>ss_eg := eg_clear E (ss_eg s) SESSION_LOST_BIT\<rparr>, ec, [])"

section \<open>The data tasks\<close>

text \<open>One round of an inner loop either goes on or leaves the loop.\<close>

datatype flow = Continue | Break

text \<open>
  One round of \<open>session_up_task\<close>'s forwarding loop; \<open>ans\<close> is what the hardware answers to the read.
\<close>

definition session_up_round ::
  "'g eg_ops \<Rightarrow> ('s, 'r, 'w) device_ops \<Rightarrow> 'r \<Rightarrow> 'g session \<Rightarrow> 's \<Rightarrow> byte list
     \<Rightarrow> (flow \<times> 'g session \<times> byte list \<times> byte list list) option" where
  "session_up_round E ops ans s st tx_buf =
     (if eg_has E (ss_eg s) SESSION_LOST_BIT then Some (Break, s, tx_buf, [])
      else do {
        (n, bs) \<leftarrow> ops_recv ops st ans TX_BUF_SIZE;
        tx_buf' \<leftarrow> memcpy_at tx_buf 0 bs;
        if n \<le> 0 then Some (Continue, s, tx_buf', [])
        else if ss_sock s < 0 then Some (Break, s, tx_buf', [])
        else do {
          data \<leftarrow> mem_read tx_buf' 0 (nat n);
          (s', pkts) \<leftarrow> send_raw s data;
          Some (Continue, s', tx_buf', pkts) } })"

text \<open>
  One round of \<open>session_down_task\<close>'s forwarding loop: \<open>dgram\<close> is the datagram that arrived, \<open>None\<close> when
  \<open>recvfrom\<close> failed or timed out.
\<close>

definition session_down_packet ::
  "(usb_state, 'r, 'w) device_ops \<Rightarrow> 'r submit_io \<Rightarrow> (nat \<Rightarrow> 'w) \<Rightarrow> 'g session \<Rightarrow> usb_state \<Rightarrow> byte list \<Rightarrow> byte list
     \<Rightarrow> ('g session \<times> usb_state \<times> byte list \<times> byte list list) option" where
  "session_down_packet ops io ws s st in_buf buf =
     (case dec_Header buf of
        None \<Rightarrow> Some (s, st, in_buf, [])
      | Some hdr \<Rightarrow>
          let payload = drop sizeof_Header buf
          in if cmd_type hdr = CMD_RAW_DATA then
               if cfg_usbip_mode (ss_cfg s) then usb_handle_submit ops io s st in_buf payload
               else do { (st', _) \<leftarrow> ops_send ops st (ws 0) payload; Some (s, st', in_buf, []) }
             else if cmd_type hdr = CMD_RAW_FRAG then
               (case dec_FragHeader payload of
                  None \<Rightarrow> Some (s, st, in_buf, [])
                | Some fhdr \<Rightarrow>
                    if cfg_usbip_mode (ss_cfg s) then Some (s, st, in_buf, [])
                    else do {
                      (r', st', _) \<leftarrow> reasm_push ops ws (ss_reasm s) st (transfer_seq fhdr) (frag_idx fhdr)
                                        (frag_total fhdr) (drop sizeof_FragHeader payload);
                      Some (s\<lparr>ss_reasm := r'\<rparr>, st', in_buf, []) })
             else Some (s, st, in_buf, []))"

definition session_down_round ::
  "'g eg_ops \<Rightarrow> (usb_state, 'r, 'w) device_ops \<Rightarrow> 'r submit_io \<Rightarrow> (nat \<Rightarrow> 'w) \<Rightarrow> byte list option \<Rightarrow> 'g session
     \<Rightarrow> usb_state \<Rightarrow> byte list \<Rightarrow> (flow \<times> 'g session \<times> usb_state \<times> byte list \<times> byte list list) option" where
  "session_down_round E ops io ws dgram s st in_buf =
     (if ss_sock s < 0 then Some (Break, s, st, in_buf, [])
      else case dgram of
        None \<Rightarrow> Some (if eg_has E (ss_eg s) SESSION_LOST_BIT then Break else Continue, s, st, in_buf, [])
      | Some bs \<Rightarrow> map_option (Pair Continue) (session_down_packet ops io ws s st in_buf (take RX_BUF_SIZE bs)))"

section \<open>Starting a session\<close>

datatype task = Ctrl_Task | Up_Task | Down_Task

text \<open>The table \<open>s_sessions\<close>: an entry exists once its event group does.\<close>

definition device_session_start ::
  "'g eg_ops \<Rightarrow> device_session_cfg \<Rightarrow> bool \<Rightarrow> 'g session option list \<Rightarrow> 'g session option list \<times> task list" where
  "device_session_start E cfg init_ok tbl =
     (if cfg_device_id cfg \<ge> SESSION_MAX_ID then (tbl, [])
      else if tbl ! unat (cfg_device_id cfg) \<noteq> None then (tbl, [])
      else
        let s = \<lparr>ss_cfg = cfg, ss_eg = eg_new E, ss_sock = -1, ss_daemon_ip = 0, ss_seq = 0,
                 ss_out_transfer_seq = 0, ss_reasm = reasm_zero\<rparr>;
            tbl' = tbl[unat (cfg_device_id cfg) := Some s]
        in if \<not> init_ok then (tbl', []) else (tbl', [Ctrl_Task, Up_Task, Down_Task]))"

definition device_session_event_group :: "'g session option list \<Rightarrow> u8 \<Rightarrow> 'g option" where
  "device_session_event_group tbl dev =
     (if dev \<ge> SESSION_MAX_ID then None else map_option ss_eg (tbl ! unat dev))"

section \<open>The system\<close>

text \<open>The descriptors of the reply socket, against the set that is open.\<close>

fun run_udp :: "int set \<Rightarrow> udp_call list \<Rightarrow> int set option" where
  "run_udp own [] = Some own"
| "run_udp own (UdpSocket fd # cs) = run_udp (if fd < 0 then own else insert fd own) cs"
| "run_udp own (UdpBind fd port # cs) = (if fd \<in> own then run_udp own cs else None)"
| "run_udp own (UdpTimeout fd # cs) = (if fd \<in> own then run_udp own cs else None)"
| "run_udp own (UdpClose fd # cs) = (if fd \<in> own then run_udp (own - {fd}) cs else None)"

datatype up_pc = Up_Idle | Up_Forward | Up_Wait_Lost

record 'g sess_sys =
  y_pc :: ctrl_pc
  y_s :: "'g session"
  y_ev :: event_conn
  y_usb :: usb_state
  y_in_buf :: "byte list"
  y_tx_buf :: "byte list"
  y_up :: up_pc
  y_down :: bool
  y_fds :: "int set option"

definition sess_start :: "'g eg_ops \<Rightarrow> 'g sess_sys \<Rightarrow> bool" where
  "sess_start E y \<longleftrightarrow>
     y_pc y = Wait_Found \<and>
     (\<exists>cfg. cfg_device_id cfg < SESSION_MAX_ID \<and>
        fst (device_session_start E cfg True (replicate 5 None)) ! unat (cfg_device_id cfg) = Some (y_s y)) \<and>
     y_ev y = event_conn_initial \<and> y_usb y = usb_initial \<and>
     y_in_buf y = replicate IN_BUF_SIZE 0 \<and> y_tx_buf y = replicate TX_BUF_SIZE 0 \<and>
     y_up y = Up_Idle \<and> \<not> y_down y \<and> y_fds y = Some {}"

text \<open>What is relied on of the USB library while a datagram is handled.\<close>

definition down_io_ok :: "(bool \<times> usb_frame option) submit_io \<Rightarrow> byte list \<Rightarrow> bool" where
  "down_io_ok io payload \<longleftrightarrow>
     (\<forall>cmd. dec_cmd_submit payload = Some cmd \<longrightarrow> submit_io_ok io cmd (drop sizeof_usbip payload))"

inductive sess_step :: "'g eg_ops \<Rightarrow> (nat \<Rightarrow> byte list option) \<Rightarrow> 'g sess_sys \<Rightarrow> 'g sess_sys \<Rightarrow> bool"
  for E :: "'g eg_ops" and alloc :: "nat \<Rightarrow> byte list option" where
  ctrl:
    "session_ctrl_step E io (y_usb y) (y_pc y) (y_s y) (y_ev y) = Some (pc', s', ec', calls) \<Longrightarrow>
     sess_step E alloc y (y\<lparr>y_pc := pc', y_s := s', y_ev := ec',
                            y_fds := y_fds y \<bind> (\<lambda>fds. run_udp fds calls)\<rparr>)"
| up_wait:
    "y_up y = Up_Idle \<Longrightarrow> eg_has E (ss_eg (y_s y)) SESSION_ACTIVE_BIT \<Longrightarrow>
     sess_step E alloc y (y\<lparr>y_up := (if cfg_usbip_mode (ss_cfg (y_s y)) then Up_Wait_Lost else Up_Forward)\<rparr>)"
| up_lost:
    "y_up y = Up_Wait_Lost \<Longrightarrow> eg_has E (ss_eg (y_s y)) SESSION_LOST_BIT \<Longrightarrow>
     sess_step E alloc y (y\<lparr>y_up := Up_Idle\<rparr>)"
| up_round:
    "y_up y = Up_Forward \<Longrightarrow> \<forall>f. snd ans = Some f \<longrightarrow> frame_ok f \<Longrightarrow>
     session_up_round E USB_DRIVER_OPS ans (y_s y) (y_usb y) (y_tx_buf y) = Some (fl, s', tx', pkts) \<Longrightarrow>
     sess_step E alloc y (y\<lparr>y_s := s', y_tx_buf := tx', y_up := (if fl = Break then Up_Idle else Up_Forward)\<rparr>)"
| down_wait:
    "\<not> y_down y \<Longrightarrow> eg_has E (ss_eg (y_s y)) SESSION_ACTIVE_BIT \<Longrightarrow> sess_step E alloc y (y\<lparr>y_down := True\<rparr>)"
| down_round:
    "y_down y \<Longrightarrow> (\<And>bs. dgram = Some bs \<Longrightarrow> down_io_ok io (drop sizeof_Header (take RX_BUF_SIZE bs))) \<Longrightarrow>
     session_down_round E USB_DRIVER_OPS io ws dgram (y_s y) (y_usb y) (y_in_buf y) = Some (fl, s', st', in', pkts) \<Longrightarrow>
     sess_step E alloc y (y\<lparr>y_s := s', y_usb := st', y_in_buf := in', y_down := (fl = Continue)\<rparr>)"
| usb: "usb_step alloc (y_usb y) st' \<Longrightarrow> sess_step E alloc y (y\<lparr>y_usb := st'\<rparr>)"

inductive_cases sess_step_cases: "sess_step E alloc y y'"

section \<open>Memory safety of a round\<close>

text \<open>The data tasks only touch the sequence numbers and the reassembly slot of the session.\<close>

definition data_frame :: "'g session \<Rightarrow> 'g session \<Rightarrow> bool" where
  "data_frame s s' \<longleftrightarrow> ss_cfg s' = ss_cfg s \<and> ss_eg s' = ss_eg s \<and> ss_sock s' = ss_sock s \<and>
     ss_daemon_ip s' = ss_daemon_ip s \<and> (reasm_inv (ss_reasm s) \<longrightarrow> reasm_inv (ss_reasm s'))"

lemma data_frame_refl [simp]: "data_frame s s"
  by (simp add: data_frame_def)

lemma send_raw_frame: "\<exists>s' pkts. send_raw s data = Some (s', pkts) \<and> data_frame s s'"
  using send_raw_safe [of s data] by (auto simp: data_frame_def)

lemma usb_handle_submit_safe:
  assumes inv: "usb_inv st" and buf: "length in_buf = IN_BUF_SIZE" and io: "down_io_ok io raw"
  shows "\<exists>s' st' in_buf' pkts. usb_handle_submit USB_DRIVER_OPS io s st in_buf raw = Some (s', st', in_buf', pkts)
     \<and> data_frame s s' \<and> usb_inv st' \<and> length in_buf' = IN_BUF_SIZE"
proof (cases "length raw < sizeof_usbip")
  case True
  with inv buf show ?thesis by (simp add: usb_handle_submit_def)
next
  case False
  then obtain cmd u where cmd: "dec_cmd_submit raw = Some cmd" and u: "dec_cmd_unlink raw = Some u"
    using cmd_submit.dec_None_iff [of raw] cmd_unlink.dec_None_iff [of raw] by fastforce
  let ?data = "drop sizeof_usbip raw"
  have ok: "transfer_ok cmd ?data (submit_transfer USB_DRIVER_OPS io st in_buf cmd ?data)"
    using io cmd by (intro submit_transfer_ok [OF inv buf]) (simp add: down_io_ok_def)
  then obtain st' in' status act where t: "submit_transfer USB_DRIVER_OPS io st in_buf cmd ?data = Some (st', in', status, act)"
    by (auto simp: transfer_ok_def split: option.splits)
  have inv': "usb_inv st'" "length in' = IN_BUF_SIZE" and act: "nat act \<le> IN_BUF_SIZE"
      "USBIP_U32 (cs_direction cmd) \<noteq> USBIP_DIR_IN \<Longrightarrow> act = 0" "0 \<le> act"
    using ok [unfolded t] by (auto simp: transfer_ok_def submit_stage_len_def)
  have n: "(if USBIP_U32 (cs_direction cmd) = USBIP_DIR_IN \<and> act > 0 then nat act else 0) = nat act"
    using act by auto
  have read: "mem_read in' 0 (nat act) = Some (take (nat act) in')" using act inv' by (simp add: mem_read_def)
  obtain s1 p1 where r1: "send_raw s (enc_ret_unlink (ret_unlink_of u)) = Some (s1, p1)" "data_frame s s1"
    using send_raw_frame by blast
  obtain s2 p2 where r2: "send_raw s (enc_ret_submit (ret_submit_of cmd status act) @ take (nat act) in') = Some (s2, p2)"
      "data_frame s s2" using send_raw_frame by blast
  show ?thesis
    using False inv buf inv' r1 r2
    by (simp add: usb_handle_submit_def cmd u t n read Let_def)
qed

lemma usb_reasm_push_safe:
  "reasm_inv r \<Longrightarrow> usb_inv st \<Longrightarrow>
     \<exists>r' st' b. reasm_push USB_DRIVER_OPS ws r st tseq idx tot chunk = Some (r', st', b) \<and> reasm_inv r' \<and> usb_inv st'"
  by (rule device_driver.reasm_push_safe [OF usb_ops.device_driver_axioms])

lemma session_down_packet_safe:
  assumes inv: "usb_inv st" and buf: "length in_buf = IN_BUF_SIZE" and r: "reasm_inv (ss_reasm s)"
    and io: "down_io_ok io (drop sizeof_Header bs)"
  shows "\<exists>s' st' in_buf' pkts. session_down_packet USB_DRIVER_OPS io ws s st in_buf bs = Some (s', st', in_buf', pkts)
     \<and> data_frame s s' \<and> usb_inv st' \<and> length in_buf' = IN_BUF_SIZE"
proof (cases "dec_Header bs")
  case None
  with inv buf show ?thesis by (simp add: session_down_packet_def)
next
  case (Some hdr)
  let ?p = "drop sizeof_Header bs"
  obtain s1 st1 in1 p1 where sub: "usb_handle_submit USB_DRIVER_OPS io s st in_buf ?p = Some (s1, st1, in1, p1)"
      "data_frame s s1" "usb_inv st1" "length in1 = IN_BUF_SIZE"
    using usb_handle_submit_safe [OF inv buf io] by blast
  obtain st2 b2 where snd: "ops_send USB_DRIVER_OPS st (ws 0) ?p = Some (st2, b2)" "usb_inv st2"
    using usb_ops.send_contract [OF inv] by blast
  show ?thesis
  proof (cases "dec_FragHeader ?p")
    case None
    with Some sub snd inv buf show ?thesis by (simp add: session_down_packet_def Let_def)
  next
    case (Some f)
    obtain r' st' b where "reasm_push USB_DRIVER_OPS ws (ss_reasm s) st (transfer_seq f) (frag_idx f) (frag_total f)
        (drop sizeof_FragHeader ?p) = Some (r', st', b)" "reasm_inv r'" "usb_inv st'"
      using usb_reasm_push_safe [OF r inv] by blast
    with Some \<open>dec_Header bs = Some hdr\<close> sub snd inv buf show ?thesis
      by (simp add: session_down_packet_def data_frame_def Let_def)
  qed
qed

lemma session_down_round_safe:
  assumes inv: "usb_inv st" and buf: "length in_buf = IN_BUF_SIZE" and r: "reasm_inv (ss_reasm s)"
    and io: "\<And>bs. dgram = Some bs \<Longrightarrow> down_io_ok io (drop sizeof_Header (take RX_BUF_SIZE bs))"
  shows "\<exists>fl s' st' in_buf' pkts. session_down_round E USB_DRIVER_OPS io ws dgram s st in_buf = Some (fl, s', st', in_buf', pkts)
     \<and> data_frame s s' \<and> usb_inv st' \<and> length in_buf' = IN_BUF_SIZE"
proof (cases dgram)
  case None
  with inv buf show ?thesis by (simp add: session_down_round_def)
next
  case (Some bs)
  obtain s1 st1 in1 p1 where "session_down_packet USB_DRIVER_OPS io ws s st in_buf (take RX_BUF_SIZE bs) = Some (s1, st1, in1, p1)"
      "data_frame s s1" "usb_inv st1" "length in1 = IN_BUF_SIZE"
    using session_down_packet_safe [OF inv buf r io [OF Some]] by blast
  with Some inv buf show ?thesis by (simp add: session_down_round_def)
qed

context device_driver
begin

lemma session_up_round_safe:
  assumes "drv_inv st" and "answer_ok ans" and "length tx_buf = TX_BUF_SIZE"
  shows "\<exists>fl s' tx' pkts. session_up_round E ops ans s st tx_buf = Some (fl, s', tx', pkts)
     \<and> data_frame s s' \<and> length tx' = TX_BUF_SIZE"
proof -
  obtain n bs where recv: "ops_recv ops st ans TX_BUF_SIZE = Some (n, bs)"
    and n: "n < 0 \<and> bs = [] \<or> n = int (length bs) \<and> length bs \<le> TX_BUF_SIZE"
    using recv_contract [OF assms(1,2)] by blast
  have copy: "memcpy_at tx_buf 0 bs = Some (bs @ drop (length bs) tx_buf)"
    using n assms(3) by (auto simp: memcpy_at_def)
  show ?thesis
  proof (cases "n \<le> 0")
    case True
    with recv copy n assms(3) show ?thesis by (auto simp: session_up_round_def)
  next
    case False
    then have "mem_read (bs @ drop (length bs) tx_buf) 0 (nat n) = Some bs"
      using n by (auto simp: mem_read_def)
    moreover obtain s' pkts where "send_raw s bs = Some (s', pkts)" "data_frame s s'"
      using send_raw_frame by blast
    ultimately show ?thesis
      using False recv copy n assms(3) by (auto simp: session_up_round_def)
  qed
qed

end

section \<open>Invariant of the system\<close>

text \<open>Where the control task holds the reply socket, and what it owns.\<close>

definition holds_sock :: "ctrl_pc \<Rightarrow> bool" where
  "holds_sock pc \<longleftrightarrow> pc \<in> {Check_Usb, Poll_Usb, After_Poll, Announce, Clear_Lost, Set_Active, Wait_Lost,
     Clear_Active, Set_Lost, Close_Reply}"

definition ctrl_fds :: "ctrl_pc \<Rightarrow> 'g session \<Rightarrow> int set" where
  "ctrl_fds pc s = (case pc of Activate fd \<Rightarrow> {fd} | _ \<Rightarrow> if holds_sock pc then {ss_sock s} else {})"

definition ctrl_inv :: "'g eg_ops \<Rightarrow> ctrl_pc \<Rightarrow> 'g session \<Rightarrow> bool" where
  "ctrl_inv E pc s \<longleftrightarrow>
     (0 \<le> ss_sock s \<longleftrightarrow> holds_sock pc) \<and>
     (\<forall>fd. pc = Activate fd \<longrightarrow> 0 \<le> fd) \<and>
     (bit (eg_get E (ss_eg s)) 0 \<longleftrightarrow> pc \<in> {Wait_Lost, Clear_Active}) \<and>
     (bit (eg_get E (ss_eg s)) 1 \<longleftrightarrow> pc \<in> {Close_Reply, Farewell, Clear_Lost_End})"

lemmas ctrl_simps = ctrl_inv_def ctrl_fds_def holds_sock_def SESSION_ACTIVE_BIT_def SESSION_LOST_BIT_def

lemma open_reply_inv:
  assumes "open_reply io port = (pc', calls)" and "ctrl_inv E Open_Reply s"
  shows "ctrl_inv E pc' s \<and> run_udp {} calls = Some (ctrl_fds pc' s)"
  using assms by (auto simp: open_reply_def Let_def ctrl_simps split: if_splits)

text \<open>An event report changes only the sequence number of the session.\<close>

lemma send_device_event_frame:
  assumes "ev_inv ec" and "send_device_event s ec io ev = (s', ec', calls)"
  shows "ev_inv ec' \<and> ctrl_inv E pc s' = ctrl_inv E pc s \<and> ss_sock s' = ss_sock s \<and> ss_reasm s' = ss_reasm s"
  using send_device_event_ok [OF assms] by (auto simp: ctrl_inv_def)

lemma session_ctrl_step_ctrl:
  assumes spec: "event_group_spec E" and ev: "ev_inv ec"
    and inv: "ctrl_inv E pc s" and step: "session_ctrl_step E io usb pc s ec = Some (pc', s', ec', calls)"
  shows "ctrl_inv E pc' s' \<and> run_udp (ctrl_fds pc s) calls = Some (ctrl_fds pc' s') \<and> ev_inv ec'"
proof (cases pc)
  case Open_Reply
  then show ?thesis
    using step ev inv open_reply_inv [of io _ pc' calls E s]
    by (auto simp: ctrl_fds_def holds_sock_def split: prod.splits)
next
  case Announce
  obtain s1 ec1 calls1 where e: "send_device_event s ec (ci_ev io) DEVICE_EVENT_CONNECT = (s1, ec1, calls1)"
    by (metis prod_cases3)
  then show ?thesis
    using Announce step inv send_device_event_frame [OF ev e, of E]
    by (auto simp: ctrl_simps)
next
  case Farewell
  obtain s1 ec1 calls1 where e: "send_device_event s ec (ci_ev io) DEVICE_EVENT_DISCONNECT = (s1, ec1, calls1)"
    by (metis prod_cases3)
  then show ?thesis
    using Farewell step inv send_device_event_frame [OF ev e, of E]
    by (auto simp: ctrl_simps)
qed (use step ev inv in \<open>auto simp: ctrl_simps eg_simps spec split: if_splits\<close>)

lemma session_ctrl_step_reasm:
  assumes ev: "ev_inv ec" and r: "reasm_inv (ss_reasm s)"
    and step: "session_ctrl_step E io usb pc s ec = Some (pc', s', ec', calls)"
  shows "reasm_inv (ss_reasm s')"
proof -
  have "send_device_event s ec (ci_ev io) e = (s1, ec1, cs) \<Longrightarrow> ss_reasm s1 = ss_reasm s" for e s1 ec1 cs
    using send_device_event_frame [OF ev] by blast
  with step r reasm_inv_zero show ?thesis
    by (cases pc) (fastforce split: prod.splits if_splits simp: Let_def)+
qed

lemma session_ctrl_step_inv:
  assumes "event_group_spec E" and "ev_inv ec" and "reasm_inv (ss_reasm s)"
    and "ctrl_inv E pc s" and "session_ctrl_step E io usb pc s ec = Some (pc', s', ec', calls)"
  shows "ctrl_inv E pc' s' \<and> run_udp (ctrl_fds pc s) calls = Some (ctrl_fds pc' s') \<and> ev_inv ec' \<and>
     reasm_inv (ss_reasm s')"
  using session_ctrl_step_ctrl [OF assms(1,2,4,5)] session_ctrl_step_reasm [OF assms(2,3,5)] by blast

definition sess_inv :: "'g eg_ops \<Rightarrow> 'g sess_sys \<Rightarrow> bool" where
  "sess_inv E y \<longleftrightarrow>
     ctrl_inv E (y_pc y) (y_s y) \<and> y_fds y = Some (ctrl_fds (y_pc y) (y_s y)) \<and> ev_inv (y_ev y) \<and>
     reasm_inv (ss_reasm (y_s y)) \<and> usb_inv (y_usb y) \<and>
     length (y_in_buf y) = IN_BUF_SIZE \<and> length (y_tx_buf y) = TX_BUF_SIZE"

lemma data_frame_ctrl:
  "data_frame s s' \<Longrightarrow> ctrl_inv E pc s' = ctrl_inv E pc s \<and> ctrl_fds pc s' = ctrl_fds pc s"
  by (simp add: data_frame_def ctrl_inv_def ctrl_fds_def split: ctrl_pc.split)

lemma sess_start_inv:
  assumes spec: "event_group_spec E" and start: "sess_start E y"
  shows "sess_inv E y"
proof -
  obtain cfg where "cfg_device_id cfg < SESSION_MAX_ID" and
    "fst (device_session_start E cfg True (replicate 5 None)) ! unat (cfg_device_id cfg) = Some (y_s y)"
    using start by (auto simp: sess_start_def)
  then have "y_s y = \<lparr>ss_cfg = cfg, ss_eg = eg_new E, ss_sock = -1, ss_daemon_ip = 0, ss_seq = 0,
      ss_out_transfer_seq = 0, ss_reasm = reasm_zero\<rparr>"
    by (simp add: device_session_start_def SESSION_MAX_ID_def word_less_nat_alt word_le_nat_alt Let_def)
  with start show ?thesis
    by (simp add: sess_start_def sess_inv_def ctrl_simps eg_simps spec ev_inv_initial reasm_inv_zero usb_inv_initial)
qed

lemma sess_step_inv:
  assumes spec: "event_group_spec E" and alloc: "alloc_spec alloc"
    and step: "sess_step E alloc y y'" and inv: "sess_inv E y"
  shows "sess_inv E y'"
  using step
proof cases
  case (ctrl io pc' s' ec' calls)
  then show ?thesis
    using inv session_ctrl_step_inv [OF spec _ _ _ ctrl(2)] by (auto simp: sess_inv_def)
next
  case (up_round ans fl s' tx' pkts)
  obtain fl1 s1 tx1 p1 where "session_up_round E USB_DRIVER_OPS ans (y_s y) (y_usb y) (y_tx_buf y) = Some (fl1, s1, tx1, p1)"
      "data_frame (y_s y) s1" "length tx1 = TX_BUF_SIZE"
    using usb_ops.session_up_round_safe [of "y_usb y" ans "y_tx_buf y" E "y_s y"] inv up_round(3)
    by (auto simp: sess_inv_def)
  then show ?thesis
    using inv up_round(1,4) data_frame_ctrl [of "y_s y" s1] by (auto simp: sess_inv_def data_frame_def)
next
  case (down_round dgram io ws fl s' st' in' pkts)
  obtain fl1 s1 st1 in1 p1 where "session_down_round E USB_DRIVER_OPS io ws dgram (y_s y) (y_usb y) (y_in_buf y) = Some (fl1, s1, st1, in1, p1)"
      "data_frame (y_s y) s1" "usb_inv st1" "length in1 = IN_BUF_SIZE"
    using session_down_round_safe [of "y_usb y" "y_in_buf y" "y_s y" dgram io E ws, OF _ _ _ down_round(3)] inv
    by (auto simp: sess_inv_def)
  then show ?thesis
    using inv down_round(1,4) data_frame_ctrl [of "y_s y" s1] by (auto simp: sess_inv_def data_frame_def)
next
  case (usb st')
  then show ?thesis
    using inv usb_step_inv [OF usb(2) alloc] by (auto simp: sess_inv_def)
qed (use inv in \<open>auto simp: sess_inv_def\<close>)

interpretation sess_run: inductive_invariant "sess_start E" "sess_step E alloc"
  "\<lambda>y. event_group_spec E \<and> alloc_spec alloc \<longrightarrow> sess_inv E y" for E alloc
  using sess_start_inv sess_step_inv by unfold_locales blast+

section \<open>Properties\<close>


definition sess_example :: "u32 sess_sys" where
  "sess_example = \<lparr>y_pc = Wait_Found,
     y_s = \<lparr>ss_cfg = mouse_cfg, ss_eg = 0, ss_sock = -1, ss_daemon_ip = 0, ss_seq = 0,
            ss_out_transfer_seq = 0, ss_reasm = reasm_zero\<rparr>,
     y_ev = event_conn_initial, y_usb = usb_initial, y_in_buf = replicate IN_BUF_SIZE 0,
     y_tx_buf = replicate TX_BUF_SIZE 0, y_up = Up_Idle, y_down = False, y_fds = Some {}\<rparr>"

lemma sess_example_reach: "reach (sess_start mask_eg) (sess_step mask_eg zero_alloc) sess_example"
  by (rule reach_start)
    (auto simp: sess_start_def sess_example_def device_session_start_def mouse_cfg_def mask_eg_def const_defs
      intro!: exI [of _ mouse_cfg])




text \<open>A run of the control task alone, with one answer of the environment per step.\<close>

fun ctrl_run ::
  "'g eg_ops \<Rightarrow> usb_state \<Rightarrow> ctrl_pc \<Rightarrow> 'g session \<Rightarrow> event_conn \<Rightarrow> ctrl_io list \<Rightarrow> (ctrl_pc \<times> 'g session \<times> event_conn) option" where
  "ctrl_run E usb pc s ec [] = Some (pc, s, ec)"
| "ctrl_run E usb pc s ec (io # ios) =
     do { (pc', s', ec', _) \<leftarrow> session_ctrl_step E io usb pc s ec; ctrl_run E usb pc' s' ec' ios }"

lemma send_device_event_seq: "\<exists>k ec' calls. send_device_event s ec io ev = (s\<lparr>ss_seq := k\<rparr>, ec', calls)"
  by (cases "ensure_event_tcp_connected (ss_daemon_ip s) ec io")
    (auto simp: send_device_event_def Let_def intro: exI [of _ "ss_seq s"] exI [of _ "ss_seq s + 1"])

text \<open>
  C22. The control task makes progress. With the daemon found, a reply socket that opens, and a USB
  device ready when one is needed, it is at the active state after eight steps, with the daemon's
  address, the new socket and the active bit, whatever becomes of the announcement on the event
  connection. With the daemon lost, six steps later it waits for the daemon again with the socket
  gone and both bits clear.
\<close>

theorem session_control_cycle:
  assumes "event_group_spec E" and "ci_found io" and "0 \<le> ci_socket io" and "0 \<le> ci_bind io" and "0 \<le> ci_sockopt io"
    and "cfg_usbip_mode (ss_cfg s) \<longrightarrow> usb_drv_is_device_ready usb" and "ci_lost io'"
  shows "\<exists>s1 ec1 s2 ec2.
     ctrl_run E usb Wait_Found s ec (replicate 8 io) = Some (Wait_Lost, s1, ec1) \<and>
     eg_has E (ss_eg s1) SESSION_ACTIVE_BIT \<and> ss_sock s1 = ci_socket io \<and> ss_daemon_ip s1 = ci_ip io \<and>
     ctrl_run E usb Wait_Lost s1 ec1 (replicate 6 io') = Some (Wait_Found, s2, ec2) \<and>
     \<not> eg_has E (ss_eg s2) SESSION_ACTIVE_BIT \<and> \<not> eg_has E (ss_eg s2) SESSION_LOST_BIT \<and> ss_sock s2 = -1"
proof -
  let ?a = "s\<lparr>ss_daemon_ip := ci_ip io, ss_sock := ci_socket io, ss_reasm := reasm_zero, ss_seq := 0,
      ss_out_transfer_seq := 0\<rparr>"
  obtain k ec1 c1 where up: "send_device_event ?a ec (ci_ev io) DEVICE_EVENT_CONNECT = (?a\<lparr>ss_seq := k\<rparr>, ec1, c1)"
    using send_device_event_seq by blast
  let ?b = "?a\<lparr>ss_seq := k, ss_eg := eg_set E (eg_clear E (ss_eg s) SESSION_LOST_BIT) SESSION_ACTIVE_BIT\<rparr>"
  let ?c = "?b\<lparr>ss_eg := eg_set E (eg_clear E (ss_eg ?b) SESSION_ACTIVE_BIT) SESSION_LOST_BIT, ss_sock := -1\<rparr>"
  obtain k2 ec2 c2 where down: "send_device_event ?c ec1 (ci_ev io') DEVICE_EVENT_DISCONNECT = (?c\<lparr>ss_seq := k2\<rparr>, ec2, c2)"
    using send_device_event_seq by blast
  have "ctrl_run E usb Wait_Found s ec (replicate 8 io) = Some (Wait_Lost, ?b, ec1)"
    using assms(2-6) up by (simp add: numeral_eq_Suc open_reply_def Let_def)
  moreover have "ctrl_run E usb Wait_Lost ?b ec1 (replicate 6 io') =
      Some (Wait_Found, ?c\<lparr>ss_seq := k2, ss_eg := eg_clear E (ss_eg ?c) SESSION_LOST_BIT\<rparr>, ec2)"
    using assms(7) down by (simp add: numeral_eq_Suc)
  ultimately show ?thesis
    by (auto simp: const_defs eg_simps assms(1))
qed

definition up_io :: ctrl_io where
  "up_io = \<lparr>ci_found = True, ci_lost = False, ci_ip = 0x0100007F, ci_socket = 4, ci_bind = 0, ci_sockopt = 0,
     ci_ev = \<lparr>io_socket = -1, io_connect = -1, io_send = -1\<rparr>\<rparr>"

theorem session_control_cycle_witness:
  "\<exists>s1 ec1. ctrl_run mask_eg mouse_state Wait_Found (y_s sess_example) event_conn_initial (replicate 8 up_io)
     = Some (Wait_Lost, s1, ec1) \<and> eg_has mask_eg (ss_eg s1) SESSION_ACTIVE_BIT \<and> ss_sock s1 = 4"
  using session_control_cycle [OF mask_eg_spec, of up_io "y_s sess_example" mouse_state "up_io\<lparr>ci_lost := True\<rparr>" event_conn_initial]
  by (simp add: up_io_def usb_drv_is_device_ready_def mouse_state_def) blast

text \<open>
  A session is started at most once per device: a call for a device number out of range or for
  one already started changes nothing and starts no task, and a call never touches another device's
  entry. The entry of a first call is there even when the driver's initialisation fails, in which
  case no task is started and no later call starts one.
\<close>

lemma session_start_once:
  assumes "length tbl = unat SESSION_MAX_ID"
    and "device_session_start E cfg ok tbl = (tbl', tasks)"
  shows "(cfg_device_id cfg \<ge> SESSION_MAX_ID \<longrightarrow> tbl' = tbl \<and> tasks = []) \<and>
     (device_session_event_group tbl (cfg_device_id cfg) \<noteq> None \<longrightarrow> tbl' = tbl \<and> tasks = []) \<and>
     (\<forall>dev. dev \<noteq> cfg_device_id cfg \<longrightarrow> device_session_event_group tbl' dev = device_session_event_group tbl dev) \<and>
     (cfg_device_id cfg < SESSION_MAX_ID \<longrightarrow> device_session_event_group tbl' (cfg_device_id cfg) \<noteq> None) \<and>
     (tasks \<noteq> [] \<longleftrightarrow> ok \<and> cfg_device_id cfg < SESSION_MAX_ID
        \<and> device_session_event_group tbl (cfg_device_id cfg) = None)"
proof -
  have "unat (cfg_device_id cfg) < length tbl" if "cfg_device_id cfg < SESSION_MAX_ID"
    using that assms(1) by (simp add: word_less_nat_alt)
  then show ?thesis
    using assms(2)
    by (auto simp: device_session_start_def device_session_event_group_def Let_def nth_list_update not_le word_unat_eq_iff
        split: if_splits)
qed

section \<open>A fragmented transfer, end to end\<close>

text \<open>A sequence of datagrams arriving at a session that forwards to its driver.\<close>

fun down_feed ::
  "(usb_state, 'r, 'w) device_ops \<Rightarrow> 'r submit_io \<Rightarrow> (nat \<Rightarrow> 'w) \<Rightarrow> 'g session \<Rightarrow> usb_state \<Rightarrow> byte list \<Rightarrow> byte list list
     \<Rightarrow> usb_state option" where
  "down_feed ops io ws s st in_buf [] = Some st"
| "down_feed ops io ws s st in_buf (bs # rest) =
     do { (s', st', in', _) \<leftarrow> session_down_packet ops io ws s st in_buf (take RX_BUF_SIZE bs);
          down_feed ops io ws s' st' in' rest }"

lemma session_down_frag:
  assumes "\<not> cfg_usbip_mode (ss_cfg t)" and "length (chunks ! i) \<le> MTU_PAYLOAD"
  shows "session_down_packet ops io ws t st in_buf (take RX_BUF_SIZE (frag_packet s tseq n chunks i)) =
     do { (r', st', _) \<leftarrow> reasm_push ops ws (ss_reasm t) st tseq (of_nat i) (of_nat n) (chunks ! i);
          Some (t\<lparr>ss_reasm := r'\<rparr>, st', in_buf, []) }"
proof -
  have all: "take RX_BUF_SIZE (frag_packet s tseq n chunks i) = frag_packet s tseq n chunks i"
    using assms(2) by (simp add: frag_packet_parts MTU_PAYLOAD_def RX_BUF_SIZE_def)
  have "CMD_RAW_FRAG \<noteq> CMD_RAW_DATA" by (simp add: const_defs)
  then show ?thesis
    unfolding all using assms(1)
    by (simp add: session_down_packet_def frag_packet_parts raw_header_def wire_size Let_def)
qed

lemma down_feed_frags:
  assumes "\<not> cfg_usbip_mode (ss_cfg t)" and "\<And>i. i \<in> set order \<Longrightarrow> length (chunks ! i) \<le> MTU_PAYLOAD"
  shows "down_feed ops io ws t st in_buf (map (frag_packet s tseq n chunks) order) =
     map_option fst (reasm_feed ops ws tseq (of_nat n) (ss_reasm t) st (map (\<lambda>i. (i, chunks ! i)) order))"
  using assms
proof (induction order arbitrary: t st)
  case Nil
  then show ?case by simp
next
  case (Cons i order)
  have IH: "down_feed ops io ws (t\<lparr>ss_reasm := r\<rparr>) st' in_buf (map (frag_packet s tseq n chunks) order) =
     map_option fst (reasm_feed ops ws tseq (of_nat n) r st' (map (\<lambda>i. (i, chunks ! i)) order))" for r st'
    using Cons.IH [of "t\<lparr>ss_reasm := r\<rparr>" st'] Cons.prems by simp
  show ?case
    using Cons.prems
    by (cases "reasm_push ops ws (ss_reasm t) st tseq (of_nat i) (of_nat n) (chunks ! i)")
      (auto simp: session_down_frag IH option_map_bind case_prod_beta split: prod.splits)
qed

text \<open>
  C2. What \<open>send_raw\<close> sends in fragments, up to eight of them, arrives whole: whatever the order in
  which the datagrams reach a forwarding session that is not collecting the same transfer, its
  driver is given exactly the 1400-byte pieces of the data, in order and once each.
\<close>

theorem fragmented_transfer_delivered:
  assumes "0 \<le> ss_sock s" and "MTU_PAYLOAD < length data" and "length data \<le> 8 * MTU_PAYLOAD"
    and "send_raw s data = Some (s', pkts)"
    and "distinct order" and "set order = {..<length pkts}"
    and "\<not> cfg_usbip_mode (ss_cfg t)" and "reasm_inv (ss_reasm t)"
    and "\<not> r_active (ss_reasm t) \<or> r_transfer_seq (ss_reasm t) \<noteq> ss_out_transfer_seq s"
  shows "down_feed ops io ws t st in_buf (map (\<lambda>i. pkts ! i) order) =
     send_all ops ws 0 st (chunks_of MTU_PAYLOAD data) \<and> concat (chunks_of MTU_PAYLOAD data) = data"
proof -
  let ?c = "chunks_of MTU_PAYLOAD data"
  have "length ?c = (length data + MTU_PAYLOAD - 1) div MTU_PAYLOAD"
    by (simp add: length_chunks_of)
  also have "\<dots> < 9"
    using assms(3) by (intro less_mult_imp_div_less) (simp add: MTU_PAYLOAD_def)
  finally have n: "length ?c \<le> REASM_MAX_FRAGS" "\<not> 255 < length ?c" by (simp_all add: REASM_MAX_FRAGS_def)
  have pkts: "pkts = map (frag_packet s (ss_out_transfer_seq s) (length ?c) ?c) [0..<length ?c]"
    using assms(4) unfolding send_raw_many [OF assms(1,2)] Let_def if_not_P [OF n(2)] by simp
  then have order: "set order = {..<length ?c}" using assms(6) by simp
  then have arrivals: "map (\<lambda>i. pkts ! i) order = map (frag_packet s (ss_out_transfer_seq s) (length ?c) ?c) order"
    using pkts by auto
  have bound: "length c \<le> MTU_PAYLOAD" if "c \<in> set ?c" for c
    using chunks_of_bound [OF that] by simp
  then have "length c \<le> REASM_FRAG_LEN" if "c \<in> set ?c" for c
    using that by (fastforce simp: MTU_PAYLOAD_def REASM_FRAG_LEN_def)
  moreover have "?c \<noteq> []" using assms(2) by (metis concat.simps(1) concat_chunks_of MTU_pos list.size(3) not_less0)
  ultimately have feed: "reasm_feed ops ws (ss_out_transfer_seq s) (of_nat (length ?c)) (ss_reasm t) st
      (map (\<lambda>i. (i, ?c ! i)) order) =
      map_option (\<lambda>st'. (st', replicate (length ?c - 1) False @ [True])) (send_all ops ws 0 st ?c)"
    using reasm_feed_order [OF assms(8,9,5) order _ n(1), of ops ws st] by simp
  have "down_feed ops io ws t st in_buf (map (\<lambda>i. pkts ! i) order) = send_all ops ws 0 st ?c"
    unfolding arrivals
    using down_feed_frags [OF assms(7), of order ?c ops io ws st in_buf s "ss_out_transfer_seq s" "length ?c"]
      bound order feed by (simp add: option.map_comp comp_def option.map_ident)
  then show ?thesis by (simp add: concat_chunks_of)
qed

theorem fragmented_transfer_delivered_witness:
  "\<exists>s' pkts. send_raw mouse_session (replicate 1500 7) = Some (s', pkts) \<and>
     down_feed USB_DRIVER_OPS mouse_io (\<lambda>_. True) (mouse_session\<lparr>ss_cfg := mouse_cfg\<lparr>cfg_usbip_mode := False\<rparr>\<rparr>)
       mouse_state [] (map (\<lambda>i. pkts ! i) [1, 0]) =
     send_all USB_DRIVER_OPS (\<lambda>_. True) 0 mouse_state (chunks_of MTU_PAYLOAD (replicate 1500 7))"
proof -
  have h: "0 \<le> ss_sock mouse_session" "MTU_PAYLOAD < length (replicate 1500 (7 :: byte))"
    "length (replicate 1500 (7 :: byte)) \<le> 8 * MTU_PAYLOAD"
    by (simp_all add: mouse_session_def MTU_PAYLOAD_def)
  have two: "length (chunks_of MTU_PAYLOAD (replicate 1500 (7 :: byte))) = 2"
    by (simp add: length_chunks_of) (simp add: MTU_PAYLOAD_def)
  then obtain s' pkts where r: "send_raw mouse_session (replicate 1500 7) = Some (s', pkts)" and "length pkts = 2"
    using send_raw_many [OF h(1,2)] by (simp add: Let_def)
  then have "set [1, 0] = {..<length pkts}" by auto
  with fragmented_transfer_delivered [OF h r, of "[1, 0]" "mouse_session\<lparr>ss_cfg := mouse_cfg\<lparr>cfg_usbip_mode := False\<rparr>\<rparr>"
      USB_DRIVER_OPS mouse_io "\<lambda>_. True" mouse_state "[]"] r reasm_inv_zero
  show ?thesis by (auto simp: mouse_session_def reasm_zero_def)
qed

end
