(* ===== verification/Session_Races.thy ===== *)
theory Session_Races
  imports Session_Tasks
begin

text \<open>
  The tasks of a session once more (\<open>esp-codes/main/device_session.c\<close>), at the granularity of single
  accesses to shared state. \<open>Session_Tasks\<close> lets a data task run a whole round at once; here every
  read of \<open>s->sock\<close>, every event-group call, every \<open>recvfrom\<close>, \<open>sendto\<close> and \<open>close\<close> is a step of its own,
  and a data task can hold a copy of the descriptor while the control task closes it. Other
  components of the firmware open and close descriptors of their own in between.
\<close>

section \<open>Sending, one datagram at a time\<close>

text \<open>
  \<open>send_raw\<close> after it has read \<open>s->sock\<close>: the datagrams it is going to send, each with the data, the
  transfer number, the number of fragments and its own number; then one turn of its loop.
\<close>

datatype send_item = Send_Data "byte list" | Send_Frag "byte list" u16 nat nat

definition send_raw_begin :: "'g session \<Rightarrow> byte list \<Rightarrow> 'g session \<times> send_item list" where
  "send_raw_begin s data =
     (if length data \<le> MTU_PAYLOAD then (s, [Send_Data data])
      else
        let total_frags = (length data + MTU_PAYLOAD - 1) div MTU_PAYLOAD;
            tseq = ss_out_transfer_seq s;
            s' = s\<lparr>ss_out_transfer_seq := ss_out_transfer_seq s + 1\<rparr>
        in if total_frags > 255 then (s', [])
           else (s', map (Send_Frag data tseq total_frags) [0..<total_frags]))"

fun send_raw_turn :: "'g session \<Rightarrow> send_item \<Rightarrow> ('g session \<times> byte list) option" where
  "send_raw_turn s (Send_Data data) = do {
     pkt \<leftarrow> pkt_of (sizeof_Header + MTU_PAYLOAD)
              [enc_Header (raw_header s CMD_RAW_DATA (length data)), data];
     Some (s\<lparr>ss_seq := ss_seq s + 1\<rparr>, pkt) }"
| "send_raw_turn s (Send_Frag data tseq total_frags i) = send_frag s data tseq total_frags i"

fun send_raw_turns :: "'g session \<Rightarrow> send_item list \<Rightarrow> ('g session \<times> byte list list) option" where
  "send_raw_turns s [] = Some (s, [])"
| "send_raw_turns s (i # is) = do {
     (s1, pkt) \<leftarrow> send_raw_turn s i;
     (s2, pkts) \<leftarrow> send_raw_turns s1 is;
     Some (s2, pkt # pkts) }"

text \<open>What the receiving task does with a datagram, up to the reply it is going to send.\<close>

definition submit_answer ::
  "(usb_state, 'r, 'w) device_ops \<Rightarrow> 'r submit_io \<Rightarrow> usb_state \<Rightarrow> byte list \<Rightarrow> byte list
     \<Rightarrow> (usb_state \<times> byte list \<times> byte list option) option" where
  "submit_answer ops io st in_buf raw =
     (if length raw < sizeof_usbip then Some (st, in_buf, None)
      else do {
        cmd \<leftarrow> dec_cmd_submit raw;
        let command = USBIP_U32 (cs_command cmd);
        if command = USBIP_CMD_UNLINK then do {
          u \<leftarrow> dec_cmd_unlink raw;
          Some (st, in_buf, Some (enc_ret_unlink (ret_unlink_of u))) }
        else if command \<noteq> USBIP_CMD_SUBMIT then Some (st, in_buf, None)
        else do {
          (st', in_buf', status, actual) \<leftarrow> submit_transfer ops io st in_buf cmd (drop sizeof_usbip raw);
          let in_data_len = (if USBIP_U32 (cs_direction cmd) = USBIP_DIR_IN \<and> actual > 0 then nat actual else 0);
          if \<not> sio_malloc io then Some (st', in_buf', None)
          else do {
            in_data \<leftarrow> mem_read in_buf' 0 in_data_len;
            Some (st', in_buf', Some (enc_ret_submit (ret_submit_of cmd status actual) @ in_data)) } } })"

definition down_work ::
  "(usb_state, 'r, 'w) device_ops \<Rightarrow> 'r submit_io \<Rightarrow> (nat \<Rightarrow> 'w) \<Rightarrow> 'g session \<Rightarrow> usb_state \<Rightarrow> byte list \<Rightarrow> byte list
     \<Rightarrow> ('g session \<times> usb_state \<times> byte list \<times> byte list option) option" where
  "down_work ops io ws s st in_buf buf =
     (case dec_Header buf of
        None \<Rightarrow> Some (s, st, in_buf, None)
      | Some hdr \<Rightarrow>
          let payload = drop sizeof_Header buf
          in if cmd_type hdr = CMD_RAW_DATA then
               if cfg_usbip_mode (ss_cfg s) then map_option (Pair s) (submit_answer ops io st in_buf payload)
               else do { (st', _) \<leftarrow> ops_send ops st (ws 0) payload; Some (s, st', in_buf, None) }
             else if cmd_type hdr = CMD_RAW_FRAG then
               (case dec_FragHeader payload of
                  None \<Rightarrow> Some (s, st, in_buf, None)
                | Some fhdr \<Rightarrow>
                    if cfg_usbip_mode (ss_cfg s) then Some (s, st, in_buf, None)
                    else do {
                      (r', st', _) \<leftarrow> reasm_push ops ws (ss_reasm s) st (transfer_seq fhdr) (frag_idx fhdr)
                                        (frag_total fhdr) (drop sizeof_FragHeader payload);
                      Some (s\<lparr>ss_reasm := r'\<rparr>, st', in_buf, None) })
             else Some (s, st, in_buf, None))"

section \<open>The data tasks\<close>

text \<open>
  Where a data task is. \<open>'t\<close> marks data with the session in which the task got hold of it. \<open>U_Sock\<close> is
  the test of \<open>s->sock\<close> before \<open>send_raw\<close> is called, \<open>U_Enter\<close> the entry of \<open>send_raw\<close>, \<open>U_Send\<close> its loop
  with the local copy of the descriptor; \<open>D_Recv\<close> is \<open>recvfrom\<close> on the local copy, \<open>D_Failed\<close> the branch
  for a negative result, \<open>D_Work\<close> the handling of a datagram.
\<close>

datatype 't up_at =
    U_Wait | U_Wait_Lost | U_Check | U_Recv
  | U_Sock 't "byte list" | U_Enter 't "byte list" | U_Send 't int "send_item list"

datatype 't down_at =
    D_Wait | D_Load | D_Recv int | D_Failed
  | D_Work 't "byte list" | D_Enter 't "byte list" | D_Send 't int "send_item list"

text \<open>A \<open>sendto\<close>: the mark of the data, the descriptor and the datagram.\<close>

type_synonym 't sent_call = "('t \<times> int \<times> byte list) option"

text \<open>
  One step of the sending task; \<open>frame\<close> is what the driver's \<open>recv\<close> delivered, empty when it returned
  zero or less. \<open>None\<close> is a task that waits.
\<close>

fun session_up_step ::
  "'g eg_ops \<Rightarrow> 't \<Rightarrow> byte list \<Rightarrow> 'g session \<Rightarrow> 't up_at \<Rightarrow> ('t up_at \<times> 'g session \<times> 't sent_call) option" where
  "session_up_step E now frame s U_Wait =
     (if eg_has E (ss_eg s) SESSION_ACTIVE_BIT
      then Some (if cfg_usbip_mode (ss_cfg s) then U_Wait_Lost else U_Check, s, None) else None)"
| "session_up_step E now frame s U_Wait_Lost =
     (if eg_has E (ss_eg s) SESSION_LOST_BIT then Some (U_Wait, s, None) else None)"
| "session_up_step E now frame s U_Check =
     Some (if eg_has E (ss_eg s) SESSION_LOST_BIT then U_Wait else U_Recv, s, None)"
| "session_up_step E now frame s U_Recv = Some (if frame = [] then U_Check else U_Sock now frame, s, None)"
| "session_up_step E now frame s (U_Sock t data) = Some (if ss_sock s < 0 then U_Wait else U_Enter t data, s, None)"
| "session_up_step E now frame s (U_Enter t data) =
     (if ss_sock s < 0 then Some (U_Check, s, None)
      else let (s', items) = send_raw_begin s data in Some (U_Send t (ss_sock s) items, s', None))"
| "session_up_step E now frame s (U_Send t fd []) = Some (U_Check, s, None)"
| "session_up_step E now frame s (U_Send t fd (i # is)) =
     do { (s', pkt) \<leftarrow> send_raw_turn s i; Some (U_Send t fd is, s', Some (t, fd, pkt)) }"

text \<open>
  One step of the receiving task. \<open>dgram\<close> is what \<open>recvfrom\<close> delivered, \<open>None\<close> when it failed or timed
  out, which it does on a descriptor that is not open; \<open>work\<close> is the outcome of handling a datagram:
  the session and the reply.
\<close>

fun session_down_step ::
  "'g eg_ops \<Rightarrow> 't \<Rightarrow> byte list option \<Rightarrow> (byte list \<Rightarrow> ('g session \<times> byte list option) option) \<Rightarrow> 'g session
     \<Rightarrow> 't down_at \<Rightarrow> ('t down_at \<times> 'g session \<times> 't sent_call) option" where
  "session_down_step E now dgram work s D_Wait =
     (if eg_has E (ss_eg s) SESSION_ACTIVE_BIT then Some (D_Load, s, None) else None)"
| "session_down_step E now dgram work s D_Load =
     Some (if ss_sock s < 0 then D_Wait else D_Recv (ss_sock s), s, None)"
| "session_down_step E now dgram work s (D_Recv fd) =
     Some (case dgram of None \<Rightarrow> D_Failed | Some bs \<Rightarrow> D_Work now (take RX_BUF_SIZE bs), s, None)"
| "session_down_step E now dgram work s D_Failed =
     Some (if eg_has E (ss_eg s) SESSION_LOST_BIT then D_Wait else D_Load, s, None)"
| "session_down_step E now dgram work s (D_Work t bs) = do {
     (s', reply) \<leftarrow> work bs;
     Some (case reply of None \<Rightarrow> D_Load | Some data \<Rightarrow> D_Enter t data, s', None) }"
| "session_down_step E now dgram work s (D_Enter t data) =
     (if ss_sock s < 0 then Some (D_Load, s, None)
      else let (s', items) = send_raw_begin s data in Some (D_Send t (ss_sock s) items, s', None))"
| "session_down_step E now dgram work s (D_Send t fd []) = Some (D_Load, s, None)"
| "session_down_step E now dgram work s (D_Send t fd (i # is)) =
     do { (s', pkt) \<leftarrow> send_raw_turn s i; Some (D_Send t fd is, s', Some (t, fd, pkt)) }"

section \<open>The system\<close>

text \<open>
  The control task is at a point of \<open>session_ctrl_step\<close>, or between two statements that it takes
  together: \<open>Closing fd\<close> between \<open>s->sock = -1\<close> and \<open>close(old_sock)\<close>, \<open>Delaying\<close> in the \<open>vTaskDelay\<close> of 1500
  milliseconds after it, \<open>Aborting\<close> between \<open>close(sock)\<close> and \<open>s->sock = -1\<close> of the other exit.
\<close>

datatype ctrl_at = At ctrl_pc | Closing int | Delaying | Aborting

text \<open>What a descriptor is at the moment it is used: open here, open elsewhere, or not open.\<close>

datatype fd_kind = Own | Foreign | Closed

record sent_dgram =
  sd_origin :: nat
  sd_gen :: nat
  sd_kind :: fd_kind
  sd_late :: bool
  sd_pkt :: "byte list"

text \<open>
  \<open>r_open\<close> are the open reply sockets, \<open>r_other\<close> the open descriptors of other components, \<open>r_gen\<close> counts
  the activations of the session and \<open>r_cur\<close> is the socket of the last one; the datagrams sent are
  kept in \<open>r_sent\<close>.
\<close>

record 'g race =
  r_pc :: ctrl_at
  r_s :: "'g session"
  r_ev :: event_conn
  r_up :: "nat up_at"
  r_down :: "nat down_at"
  r_open :: "int set"
  r_other :: "int set"
  r_gen :: nat
  r_cur :: int
  r_sent :: "sent_dgram list"

definition race_start :: "'g eg_ops \<Rightarrow> 'g race \<Rightarrow> bool" where
  "race_start E r \<longleftrightarrow>
     r_pc r = At Wait_Found \<and>
     (\<exists>cfg. cfg_device_id cfg < SESSION_MAX_ID \<and>
        fst (device_session_start E cfg True (replicate 5 None)) ! unat (cfg_device_id cfg) = Some (r_s r)) \<and>
     r_ev r = event_conn_initial \<and> r_up r = U_Wait \<and> r_down r = D_Wait \<and> r_open r = {} \<and> r_gen r = 0 \<and> r_sent r = []"

definition idle :: "'g race \<Rightarrow> bool" where
  "idle r \<longleftrightarrow> r_up r \<in> {U_Wait, U_Wait_Lost} \<and> r_down r = D_Wait"

definition fd_kind_of :: "int \<Rightarrow> 'g race \<Rightarrow> fd_kind" where
  "fd_kind_of fd r = (if fd \<in> r_open r then Own else if fd \<in> r_other r then Foreign else Closed)"

text \<open>
  One step of the control task. With \<open>quiet\<close>, the delay ends only when the data tasks are back at
  their waits, as the comment in the source expects of the 1500 milliseconds.
\<close>

definition race_ctrl :: "'g eg_ops \<Rightarrow> bool \<Rightarrow> ctrl_io \<Rightarrow> usb_state \<Rightarrow> 'g race \<Rightarrow> 'g race option" where
  "race_ctrl E quiet io usb r =
     (let s = r_s r
      in case r_pc r of
           Closing fd \<Rightarrow> do { fds \<leftarrow> run_udp (r_open r) [UdpClose fd]; Some (r\<lparr>r_pc := Delaying, r_open := fds\<rparr>) }
         | Delaying \<Rightarrow> if quiet \<and> \<not> idle r then None else Some (r\<lparr>r_pc := At Farewell\<rparr>)
         | Aborting \<Rightarrow> Some (r\<lparr>r_pc := At Wait_Found, r_s := s\<lparr>ss_sock := -1\<rparr>\<rparr>)
         | At pc \<Rightarrow>
             if pc = Close_Reply then Some (r\<lparr>r_pc := Closing (ss_sock s), r_s := s\<lparr>ss_sock := -1\<rparr>\<rparr>)
             else if pc = After_Poll \<and> ci_lost io then do {
               fds \<leftarrow> run_udp (r_open r) [UdpClose (ss_sock s)];
               Some (r\<lparr>r_pc := Aborting, r_open := fds\<rparr>) }
             else do {
               (pc', s', ev', calls) \<leftarrow> session_ctrl_step E io usb pc s (r_ev r);
               fds \<leftarrow> run_udp (r_open r) calls;
               let r' = r\<lparr>r_pc := At pc', r_s := s', r_ev := ev', r_open := fds\<rparr>;
               Some (case pc of Activate fd \<Rightarrow> r'\<lparr>r_gen := r_gen r + 1, r_cur := fd\<rparr> | _ \<Rightarrow> r') })"

text \<open>Recording what a data task sent.\<close>

definition race_sent :: "nat sent_call \<Rightarrow> 'g race \<Rightarrow> sent_dgram list" where
  "race_sent c r =
     (case c of
        None \<Rightarrow> r_sent r
      | Some (t, fd, pkt) \<Rightarrow>
          r_sent r @ [\<lparr>sd_origin = t, sd_gen = r_gen r, sd_kind = fd_kind_of fd r, sd_late = (r_pc r = Delaying), sd_pkt = pkt\<rparr>])"

datatype race_action =
    Act_Ctrl ctrl_io usb_state
  | Act_Up "byte list"
  | Act_Down "byte list option" "(bool \<times> usb_frame option) submit_io" "nat \<Rightarrow> bool" usb_state "byte list"
  | Act_Open int
  | Act_Close int

text \<open>
  One step of the whole system. The USB driver's state is an argument of the steps that look at it,
  as any state; a socket the system returns is not open, and a closed descriptor delivers nothing.
\<close>

fun race_do :: "'g eg_ops \<Rightarrow> bool \<Rightarrow> race_action \<Rightarrow> 'g race \<Rightarrow> 'g race option" where
  "race_do E quiet (Act_Ctrl io usb) r =
     (if ci_socket io \<in> r_open r \<union> r_other r then None else race_ctrl E quiet io usb r)"
| "race_do E quiet (Act_Up frame) r = do {
     (at, s', c) \<leftarrow> session_up_step E (r_gen r) frame (r_s r) (r_up r);
     Some (r\<lparr>r_up := at, r_s := s', r_sent := race_sent c r\<rparr>) }"
| "race_do E quiet (Act_Down dgram io ws usb in_buf) r =
     (if dgram \<noteq> None \<and> (case r_down r of D_Recv fd \<Rightarrow> fd_kind_of fd r = Closed | _ \<Rightarrow> False) then None
      else do {
        (at, s', c) \<leftarrow> session_down_step E (r_gen r) dgram
           (\<lambda>bs. map_option (\<lambda>(s', _, _, reply). (s', reply)) (down_work USB_DRIVER_OPS io ws (r_s r) usb in_buf bs))
           (r_s r) (r_down r);
        Some (r\<lparr>r_down := at, r_s := s', r_sent := race_sent c r\<rparr>) })"
| "race_do E quiet (Act_Open fd) r =
     (if fd \<in> r_open r \<union> r_other r then None else Some (r\<lparr>r_other := insert fd (r_other r)\<rparr>))"
| "race_do E quiet (Act_Close fd) r = Some (r\<lparr>r_other := r_other r - {fd}\<rparr>)"

definition race_step :: "'g eg_ops \<Rightarrow> bool \<Rightarrow> 'g race \<Rightarrow> 'g race \<Rightarrow> bool" where
  "race_step E quiet r r' \<longleftrightarrow> (\<exists>a. race_do E quiet a r = Some r')"

section \<open>The steps of an undisturbed round\<close>

lemma send_raw_turns_frags:
  "send_raw_turns s (map (Send_Frag data tseq n) is) = send_frags s data tseq n is"
  by (induction "is" arbitrary: s) simp_all

text \<open>Sending datagram by datagram is \<open>send_raw\<close>.\<close>

lemma send_raw_by_turns:
  assumes "0 \<le> ss_sock s"
  shows "send_raw s data = (let (s', items) = send_raw_begin s data in send_raw_turns s' items)"
  using assms by (auto simp: send_raw_def send_raw_begin_def send_raw_turns_frags Let_def bind_eq_Some_conv
      split: bind_splits)

lemma usb_handle_submit_by_answer:
  "usb_handle_submit ops io s st in_buf raw = do {
     (st', in_buf', reply) \<leftarrow> submit_answer ops io st in_buf raw;
     case reply of
       None \<Rightarrow> Some (s, st', in_buf', [])
     | Some data \<Rightarrow> do { (s', pkts) \<leftarrow> send_raw s data; Some (s', st', in_buf', pkts) } }"
  by (auto simp: usb_handle_submit_def submit_answer_def Let_def split: option.splits bind_splits)

lemma session_down_packet_by_work:
  "session_down_packet ops io ws s st in_buf buf = do {
     (s1, st', in_buf', reply) \<leftarrow> down_work ops io ws s st in_buf buf;
     case reply of
       None \<Rightarrow> Some (s1, st', in_buf', [])
     | Some data \<Rightarrow> do { (s', pkts) \<leftarrow> send_raw s1 data; Some (s', st', in_buf', pkts) } }"
  by (auto simp: session_down_packet_def down_work_def usb_handle_submit_by_answer Let_def
      split: option.splits bind_splits)

text \<open>Running one task alone for a number of steps, with the calls it makes.\<close>

fun task_steps ::
  "('s \<Rightarrow> 'a \<Rightarrow> ('a \<times> 's \<times> 'c option) option) \<Rightarrow> nat \<Rightarrow> 's \<times> 'a \<Rightarrow> ('s \<times> 'a \<times> 'c list) option" where
  "task_steps step 0 (s, at) = Some (s, at, [])"
| "task_steps step (Suc k) (s, at) = do {
     (at1, s1, c) \<leftarrow> step s at;
     (s2, at2, cs) \<leftarrow> task_steps step k (s1, at1);
     Some (s2, at2, (case c of None \<Rightarrow> cs | Some d \<Rightarrow> d # cs)) }"

lemma task_steps_add:
  "task_steps step (j + k) (s, at) = do {
     (s1, at1, cs1) \<leftarrow> task_steps step j (s, at);
     (s2, at2, cs2) \<leftarrow> task_steps step k (s1, at1);
     Some (s2, at2, cs1 @ cs2) }"
proof (induction j arbitrary: s at)
  case 0
  show ?case by (cases "task_steps step k (s, at)") auto
next
  case (Suc j)
  show ?case
    by (auto simp: Suc.IH bind_assoc split: bind_splits option.splits)
qed

text \<open>
  A task that calls \<open>send_raw\<close>: its step function has a point at which it enters, the points of the loop
  and one it goes back to.
\<close>

locale sending_task =
  fixes step :: "'g session \<Rightarrow> 'a \<Rightarrow> ('a \<times> 'g session \<times> 't sent_call) option"
    and enter :: "'t \<Rightarrow> byte list \<Rightarrow> 'a" and loop :: "'t \<Rightarrow> int \<Rightarrow> send_item list \<Rightarrow> 'a" and resume :: 'a
  assumes step_enter: "step s (enter t data) =
      (if ss_sock s < 0 then Some (resume, s, None)
       else let (s', items) = send_raw_begin s data in Some (loop t (ss_sock s) items, s', None))"
    and step_end: "step s (loop t fd []) = Some (resume, s, None)"
    and step_turn: "step s (loop t fd (i # is)) =
      do { (s', pkt) \<leftarrow> send_raw_turn s i; Some (loop t fd is, s', Some (t, fd, pkt)) }"
begin

lemma loop_steps:
  "send_raw_turns s items = Some (s', pkts) \<Longrightarrow>
     task_steps step (Suc (length items)) (s, loop t fd items) = Some (s', resume, map (\<lambda>p. (t, fd, p)) pkts)"
proof (induction items arbitrary: s pkts)
  case Nil
  then show ?case by (simp add: step_end)
next
  case (Cons i "is")
  then obtain s1 pkt pkts1 where t: "send_raw_turn s i = Some (s1, pkt)" "send_raw_turns s1 is = Some (s', pkts1)"
      "pkts = pkt # pkts1"
    by (auto simp: bind_eq_Some_conv)
  from t(1) Cons.IH [OF t(2)] show ?case
    unfolding length_Cons task_steps.simps(2) [of step "Suc (length is)"] step_turn t(3)
    by (simp del: task_steps.simps(2))
qed

lemma enter_steps:
  assumes "send_raw s data = Some (s', pkts)"
  shows "\<exists>k. task_steps step k (s, enter t data) = Some (s', resume, map (\<lambda>p. (t, ss_sock s, p)) pkts)"
proof (cases "ss_sock s < 0")
  case True
  with assms show ?thesis by (intro exI [of _ 1]) (simp add: send_raw_def step_enter)
next
  case False
  obtain s1 items where b: "send_raw_begin s data = (s1, items)" by fastforce
  with False assms have "send_raw_turns s1 items = Some (s', pkts)" by (simp add: send_raw_by_turns)
  from loop_steps [OF this, of t "ss_sock s"] b False
  have "task_steps step (Suc (Suc (length items))) (s, enter t data) = Some (s', resume, map (\<lambda>p. (t, ss_sock s, p)) pkts)"
    unfolding task_steps.simps(2) [of step "Suc (length items)"] step_enter
    by (simp del: task_steps.simps(2))
  then show ?thesis ..
qed

end

interpretation up_sends: sending_task "session_up_step E now frame" U_Enter U_Send U_Check for E now frame
  by unfold_locales simp_all

interpretation down_sends: sending_task "session_down_step E now dgram work" D_Enter D_Send D_Load for E now dgram work
  by unfold_locales simp_all

lemma task_steps_Suc:
  "step s at = Some (at1, s1, None) \<Longrightarrow> task_steps step k (s1, at1) = Some r \<Longrightarrow> task_steps step (Suc k) (s, at) = Some r"
  by (cases r) simp

lemma down_work_frame: "down_work ops io ws s st in_buf buf = Some (s', st', in', reply) \<Longrightarrow> ss_sock s' = ss_sock s"
  by (auto simp: down_work_def Let_def bind_eq_Some_conv split: option.splits if_splits)

abbreviation down_outcome where
  "down_outcome ops io ws s st in_buf \<equiv>
     (\<lambda>bs. map_option (\<lambda>(s', _, _, reply). (s', reply)) (down_work ops io ws s st in_buf bs))"

lemma up_round_steps:
  assumes recv: "ops_recv ops st ans TX_BUF_SIZE = Some (n, bs)"
    and n: "n < 0 \<and> bs = [] \<or> n = int (length bs) \<and> length bs \<le> TX_BUF_SIZE" and tx: "length tx_buf = TX_BUF_SIZE"
    and round: "session_up_round E ops ans s st tx_buf = Some (fl, s', tx', pkts)"
  shows "\<exists>k. task_steps (session_up_step E now bs) k (s, U_Check) =
     Some (s', if fl = Break then U_Wait else U_Check, map (\<lambda>p. (now, ss_sock s, p)) pkts) \<and> 0 < k"
proof -
  have copy: "memcpy_at tx_buf 0 bs = Some (bs @ drop (length bs) tx_buf)" using n tx by (auto simp: memcpy_at_def)
  consider (lost) "eg_has E (ss_eg s) SESSION_LOST_BIT" | (none) "\<not> eg_has E (ss_eg s) SESSION_LOST_BIT" "bs = []"
    | (shut) "\<not> eg_has E (ss_eg s) SESSION_LOST_BIT" "bs \<noteq> []" "ss_sock s < 0"
    | (sent) "\<not> eg_has E (ss_eg s) SESSION_LOST_BIT" "bs \<noteq> []" "0 \<le> ss_sock s" by linarith
  then show ?thesis
  proof cases
    case lost
    then show ?thesis using round by (intro exI [of _ 1]) (simp add: session_up_round_def)
  next
    case none
    then show ?thesis using round recv copy n by (intro exI [of _ 2]) (auto simp: session_up_round_def numeral_2_eq_2)
  next
    case shut
    then show ?thesis using round recv copy n by (intro exI [of _ 3]) (auto simp: session_up_round_def numeral_3_eq_3)
  next
    case sent
    have "mem_read (bs @ drop (length bs) tx_buf) 0 (nat n) = Some bs" using n sent by (auto simp: mem_read_def)
    then have "send_raw s bs = Some (s', pkts)" "fl = Continue"
      using sent round recv copy n by (auto simp: session_up_round_def bind_eq_Some_conv)
    with up_sends.enter_steps [of s bs s' pkts E now bs now] sent obtain k
      where "task_steps (session_up_step E now bs) k (s, U_Enter now bs) = Some (s', U_Check, map (\<lambda>p. (now, ss_sock s, p)) pkts)"
      by blast
    then have "task_steps (session_up_step E now bs) (Suc (Suc (Suc k))) (s, U_Check) =
        Some (s', U_Check, map (\<lambda>p. (now, ss_sock s, p)) pkts)"
      using sent by (intro task_steps_Suc) auto
    then show ?thesis
      using \<open>fl = Continue\<close> by (intro exI [of _ "Suc (Suc (Suc k))"]) (simp del: task_steps.simps(2))
  qed
qed

lemma down_round_steps:
  assumes round: "session_down_round E ops io ws dgram s st in_buf = Some (fl, s', st', in', pkts)"
  shows "\<exists>k. task_steps (session_down_step E now dgram (down_outcome ops io ws s st in_buf)) k (s, D_Load) =
     Some (s', if fl = Break then D_Wait else D_Load, map (\<lambda>p. (now, ss_sock s, p)) pkts) \<and> 0 < k"
proof -
  let ?step = "session_down_step E now dgram (down_outcome ops io ws s st in_buf)"
  consider (shut) "ss_sock s < 0" | (none) "0 \<le> ss_sock s" "dgram = None" | (got) bs where "0 \<le> ss_sock s" "dgram = Some bs"
    by fastforce
  then show ?thesis
  proof cases
    case shut
    then show ?thesis using round by (intro exI [of _ 1]) (simp add: session_down_round_def)
  next
    case none
    then show ?thesis using round by (intro exI [of _ 3]) (auto simp: session_down_round_def numeral_3_eq_3)
  next
    case (got bs)
    let ?d = "take RX_BUF_SIZE bs"
    have fl: "fl = Continue" and "session_down_packet ops io ws s st in_buf ?d = Some (s', st', in', pkts)"
      using got round by (auto simp: session_down_round_def)
    then obtain s1 reply where w: "down_work ops io ws s st in_buf ?d = Some (s1, st', in', reply)"
      and r: "case reply of None \<Rightarrow> s' = s1 \<and> pkts = [] | Some data \<Rightarrow> send_raw s1 data = Some (s', pkts)"
      by (auto simp: session_down_packet_by_work bind_eq_Some_conv split: option.splits)
    have "\<exists>k. task_steps ?step k (s1, case reply of None \<Rightarrow> D_Load | Some data \<Rightarrow> D_Enter now data) =
        Some (s', D_Load, map (\<lambda>p. (now, ss_sock s, p)) pkts)"
    proof (cases reply)
      case None
      with r show ?thesis by (intro exI [of _ 0]) simp
    next
      case (Some data)
      with r down_work_frame [OF w] show ?thesis
        using down_sends.enter_steps [of s1 data s' pkts E now dgram _ now] by simp
    qed
    then obtain k where "task_steps ?step k (s1, case reply of None \<Rightarrow> D_Load | Some data \<Rightarrow> D_Enter now data) =
        Some (s', D_Load, map (\<lambda>p. (now, ss_sock s, p)) pkts)" ..
    then have "task_steps ?step (Suc (Suc (Suc k))) (s, D_Load) = Some (s', D_Load, map (\<lambda>p. (now, ss_sock s, p)) pkts)"
      using got w by (intro task_steps_Suc) auto
    then show ?thesis
      using fl by (intro exI [of _ "Suc (Suc (Suc k))"]) (simp del: task_steps.simps(2))
  qed
qed

section \<open>Invariant\<close>

text \<open>The descriptors a data task has a copy of, and the sessions its data comes from.\<close>

fun up_holds :: "'t up_at \<Rightarrow> int set" where
  "up_holds (U_Send t fd items) = {fd}"
| "up_holds _ = {}"

fun down_holds :: "'t down_at \<Rightarrow> int set" where
  "down_holds (D_Recv fd) = {fd}"
| "down_holds (D_Send t fd items) = {fd}"
| "down_holds _ = {}"

fun up_marks :: "'t up_at \<Rightarrow> 't set" where
  "up_marks (U_Sock t data) = {t}"
| "up_marks (U_Enter t data) = {t}"
| "up_marks (U_Send t fd items) = {t}"
| "up_marks _ = {}"

fun down_marks :: "'t down_at \<Rightarrow> 't set" where
  "down_marks (D_Work t bs) = {t}"
| "down_marks (D_Enter t data) = {t}"
| "down_marks (D_Send t fd items) = {t}"
| "down_marks _ = {}"

text \<open>The points of the control task at which data tasks may be at work.\<close>

definition in_session :: "ctrl_at \<Rightarrow> bool" where
  "in_session pc \<longleftrightarrow> pc \<in> {At Wait_Lost, At Clear_Active, At Set_Lost, At Close_Reply, Delaying} \<or> (\<exists>fd. pc = Closing fd)"

definition closing_bits :: "'g eg_ops \<Rightarrow> 'g \<Rightarrow> bool" where
  "closing_bits E g \<longleftrightarrow> \<not> bit (eg_get E g) 0 \<and> bit (eg_get E g) 1"

definition race_ctrl_inv :: "'g eg_ops \<Rightarrow> 'g race \<Rightarrow> bool" where
  "race_ctrl_inv E r \<longleftrightarrow> ev_inv (r_ev r) \<and> r_open r \<inter> r_other r = {} \<and>
     (case r_pc r of
        At pc \<Rightarrow> ctrl_inv E pc (r_s r) \<and> r_open r = ctrl_fds pc (r_s r) \<and> (holds_sock pc \<longrightarrow> ss_sock (r_s r) = r_cur r)
      | Closing fd \<Rightarrow> closing_bits E (ss_eg (r_s r)) \<and> ss_sock (r_s r) < 0 \<and> r_open r = {fd} \<and> fd = r_cur r
      | Delaying \<Rightarrow> closing_bits E (ss_eg (r_s r)) \<and> ss_sock (r_s r) < 0 \<and> r_open r = {}
      | Aborting \<Rightarrow> \<not> bit (eg_get E (ss_eg (r_s r))) 0 \<and> \<not> bit (eg_get E (ss_eg (r_s r))) 1 \<and>
          ss_sock (r_s r) = r_cur r \<and> r_open r = {})"

definition sent_ok :: "sent_dgram \<Rightarrow> bool" where
  "sent_ok d \<longleftrightarrow> sd_origin d = sd_gen d \<and> (sd_kind d = Own \<or> sd_late d)"

definition tasks_inv :: "'g race \<Rightarrow> bool" where
  "tasks_inv r \<longleftrightarrow> (idle r \<or> in_session (r_pc r)) \<and> up_holds (r_up r) \<union> down_holds (r_down r) \<subseteq> {r_cur r} \<and>
     up_marks (r_up r) \<union> down_marks (r_down r) \<subseteq> {r_gen r} \<and> list_all sent_ok (r_sent r)"

definition race_inv :: "'g eg_ops \<Rightarrow> bool \<Rightarrow> 'g race \<Rightarrow> bool" where
  "race_inv E quiet r \<longleftrightarrow> race_ctrl_inv E r \<and> (quiet \<longrightarrow> tasks_inv r)"

lemma race_start_inv:
  assumes spec: "event_group_spec E" and start: "race_start E r"
  shows "race_inv E quiet r"
proof -
  obtain cfg where "cfg_device_id cfg < SESSION_MAX_ID" and
    "fst (device_session_start E cfg True (replicate 5 None)) ! unat (cfg_device_id cfg) = Some (r_s r)"
    using start by (auto simp: race_start_def)
  then have "r_s r = \<lparr>ss_cfg = cfg, ss_eg = eg_new E, ss_sock = -1, ss_daemon_ip = 0, ss_seq = 0,
      ss_out_transfer_seq = 0, ss_reasm = reasm_zero\<rparr>"
    by (simp add: device_session_start_def SESSION_MAX_ID_def word_less_nat_alt word_le_nat_alt Let_def)
  with start show ?thesis
    by (simp add: race_start_def race_inv_def race_ctrl_inv_def tasks_inv_def idle_def ctrl_simps eg_simps spec ev_inv_initial)
qed

text \<open>What a step of a data task can do.\<close>

definition data_step :: "'g eg_ops \<Rightarrow> 't \<Rightarrow> 'g session \<Rightarrow> 'g session \<Rightarrow> int set \<Rightarrow> int set \<Rightarrow> 't set \<Rightarrow> 't set \<Rightarrow> 't sent_call \<Rightarrow> bool" where
  "data_step E now s s' fds fds' marks marks' c \<longleftrightarrow>
     ss_eg s' = ss_eg s \<and> ss_sock s' = ss_sock s \<and> fds' \<subseteq> fds \<union> ({ss_sock s} \<inter> {0..}) \<and> marks' \<subseteq> insert now marks \<and>
     (\<forall>t fd pkt. c = Some (t, fd, pkt) \<longrightarrow> t \<in> marks \<and> fd \<in> fds)"

lemma send_raw_begin_frame:
  "send_raw_begin s data = (s', items) \<Longrightarrow> ss_eg s' = ss_eg s \<and> ss_sock s' = ss_sock s"
  by (auto simp: send_raw_begin_def Let_def split: if_splits)

lemma send_raw_turn_frame:
  "send_raw_turn s i = Some (s', pkt) \<Longrightarrow> ss_eg s' = ss_eg s \<and> ss_sock s' = ss_sock s"
  by (cases i) (auto simp: send_frag_def Let_def bind_eq_Some_conv)

lemma up_data_step:
  "session_up_step E now frame s at = Some (at', s', c) \<Longrightarrow>
     data_step E now s s' (up_holds at) (up_holds at') (up_marks at) (up_marks at') c \<and>
     (at \<in> {U_Wait, U_Wait_Lost} \<longrightarrow> at' \<in> {U_Wait, U_Wait_Lost} \<or> eg_has E (ss_eg s) SESSION_ACTIVE_BIT)"
  by (induction E now frame s at rule: session_up_step.induct)
    (auto simp: data_step_def bind_eq_Some_conv Let_def split: if_splits prod.splits
      dest: send_raw_begin_frame send_raw_turn_frame)

lemma down_work_eg: "down_work ops io ws s st in_buf buf = Some (s', st', in', reply) \<Longrightarrow> ss_eg s' = ss_eg s"
  by (auto simp: down_work_def Let_def bind_eq_Some_conv split: option.splits if_splits)

lemma down_data_step:
  assumes "session_down_step E now dgram work s at = Some (at', s', c)"
    and "\<And>bs s1 reply. work bs = Some (s1, reply) \<Longrightarrow> ss_eg s1 = ss_eg s \<and> ss_sock s1 = ss_sock s"
  shows "data_step E now s s' (down_holds at) (down_holds at') (down_marks at) (down_marks at') c \<and>
     (at = D_Wait \<longrightarrow> eg_has E (ss_eg s) SESSION_ACTIVE_BIT)"
  using assms
  by (induction E now dgram work s at rule: session_down_step.induct)
    (auto simp: data_step_def bind_eq_Some_conv Let_def split: if_splits prod.splits option.splits
      dest: send_raw_begin_frame send_raw_turn_frame)

lemma race_ctrl_inv_sock: "race_ctrl_inv E r \<Longrightarrow> 0 \<le> ss_sock (r_s r) \<Longrightarrow> ss_sock (r_s r) = r_cur r"
  by (auto simp: race_ctrl_inv_def ctrl_inv_def split: ctrl_at.splits)

lemma race_ctrl_inv_active: "race_ctrl_inv E r \<Longrightarrow> eg_has E (ss_eg (r_s r)) SESSION_ACTIVE_BIT \<Longrightarrow> in_session (r_pc r)"
  by (auto simp: race_ctrl_inv_def ctrl_simps eg_simps in_session_def closing_bits_def split: ctrl_at.splits)

text \<open>While a session is on, its socket is open until the delay begins.\<close>

lemma race_ctrl_inv_kind:
  "race_ctrl_inv E r \<Longrightarrow> in_session (r_pc r) \<Longrightarrow> r_pc r = Delaying \<or> fd_kind_of (r_cur r) r = Own"
  by (auto simp: race_ctrl_inv_def ctrl_simps in_session_def fd_kind_of_def split: ctrl_at.splits)

lemma data_step_ctrl_inv:
  "data_step E now (r_s r) s' fds fds' marks marks' c \<Longrightarrow> race_ctrl_inv E r \<Longrightarrow>
     race_ctrl_inv E (r\<lparr>r_up := u, r_s := s', r_sent := x\<rparr>) \<and> race_ctrl_inv E (r\<lparr>r_down := v, r_s := s', r_sent := x\<rparr>)"
  by (auto simp: race_ctrl_inv_def data_step_def ctrl_inv_def ctrl_fds_def split: ctrl_at.splits ctrl_pc.splits)

lemma race_sent_ok:
  assumes "race_ctrl_inv E r" and "tasks_inv r" and "data_step E (r_gen r) (r_s r) s' fds fds' marks marks' c"
    and "fds \<subseteq> {r_cur r}" and "marks \<subseteq> {r_gen r}" and "fds \<noteq> {} \<Longrightarrow> \<not> idle r"
  shows "list_all sent_ok (race_sent c r)"
proof (cases c)
  case None
  with assms(2) show ?thesis by (simp add: race_sent_def tasks_inv_def)
next
  case (Some x)
  obtain t fd pkt where x: "x = (t, fd, pkt)" by (cases x)
  with Some assms(3-5) have "t = r_gen r" "fd = r_cur r" "fds \<noteq> {}" by (auto simp: data_step_def)
  with assms(2,6) have "in_session (r_pc r)" by (auto simp: tasks_inv_def)
  with race_ctrl_inv_kind [OF assms(1)] \<open>t = _\<close> \<open>fd = _\<close> Some x assms(2) show ?thesis
    by (auto simp: race_sent_def sent_ok_def tasks_inv_def)
qed

lemma race_up_inv:
  assumes inv: "race_inv E quiet r" and step: "session_up_step E (r_gen r) frame (r_s r) (r_up r) = Some (at, s', c)"
  shows "race_inv E quiet (r\<lparr>r_up := at, r_s := s', r_sent := race_sent c r\<rparr>)"
proof -
  have ctrl: "race_ctrl_inv E r" using inv by (simp add: race_inv_def)
  note d = up_data_step [OF step]
  have c': "race_ctrl_inv E (r\<lparr>r_up := at, r_s := s', r_sent := race_sent c r\<rparr>)"
    by (rule conjunct1 [OF data_step_ctrl_inv [OF conjunct1 [OF d] ctrl]])
  have "tasks_inv (r\<lparr>r_up := at, r_s := s', r_sent := race_sent c r\<rparr>)" if t: "tasks_inv r"
  proof -
    have "up_holds (r_up r) \<noteq> {} \<Longrightarrow> \<not> idle r" by (cases "r_up r") (simp_all add: idle_def)
    moreover have "up_holds (r_up r) \<subseteq> {r_cur r}" "up_marks (r_up r) \<subseteq> {r_gen r}" using t by (simp_all add: tasks_inv_def)
    ultimately have "list_all sent_ok (race_sent c r)"
      using race_sent_ok [OF ctrl t conjunct1 [OF d]] by blast
    moreover have "up_holds at \<subseteq> {r_cur r}" "up_marks at \<subseteq> {r_gen r}"
      using d t race_ctrl_inv_sock [OF ctrl] by (auto simp: data_step_def tasks_inv_def)
    moreover have "idle (r\<lparr>r_up := at\<rparr>) \<or> in_session (r_pc r)"
      using d t race_ctrl_inv_active [OF ctrl] by (auto simp: tasks_inv_def idle_def)
    ultimately show ?thesis using t by (auto simp: tasks_inv_def idle_def)
  qed
  with c' inv show ?thesis by (simp add: race_inv_def)
qed

lemma race_down_inv:
  assumes inv: "race_inv E quiet r"
    and step: "session_down_step E (r_gen r) dgram (down_outcome USB_DRIVER_OPS io ws (r_s r) usb in_buf) (r_s r) (r_down r) = Some (at, s', c)"
  shows "race_inv E quiet (r\<lparr>r_down := at, r_s := s', r_sent := race_sent c r\<rparr>)"
proof -
  have ctrl: "race_ctrl_inv E r" using inv by (simp add: race_inv_def)
  have d: "data_step E (r_gen r) (r_s r) s' (down_holds (r_down r)) (down_holds at) (down_marks (r_down r)) (down_marks at) c \<and>
     (r_down r = D_Wait \<longrightarrow> eg_has E (ss_eg (r_s r)) SESSION_ACTIVE_BIT)"
    by (rule down_data_step [OF step]) (auto dest: down_work_frame down_work_eg)
  have c': "race_ctrl_inv E (r\<lparr>r_down := at, r_s := s', r_sent := race_sent c r\<rparr>)"
    by (rule conjunct2 [OF data_step_ctrl_inv [OF conjunct1 [OF d] ctrl]])
  have "tasks_inv (r\<lparr>r_down := at, r_s := s', r_sent := race_sent c r\<rparr>)" if t: "tasks_inv r"
  proof -
    have "down_holds (r_down r) \<noteq> {} \<Longrightarrow> \<not> idle r" by (cases "r_down r") (simp_all add: idle_def)
    moreover have "down_holds (r_down r) \<subseteq> {r_cur r}" "down_marks (r_down r) \<subseteq> {r_gen r}" using t by (simp_all add: tasks_inv_def)
    ultimately have "list_all sent_ok (race_sent c r)"
      using race_sent_ok [OF ctrl t conjunct1 [OF d]] by blast
    moreover have "down_holds at \<subseteq> {r_cur r}" "down_marks at \<subseteq> {r_gen r}"
      using d t race_ctrl_inv_sock [OF ctrl] by (auto simp: data_step_def tasks_inv_def)
    moreover have "in_session (r_pc r)"
      using d t race_ctrl_inv_active [OF ctrl] by (auto simp: tasks_inv_def idle_def)
    ultimately show ?thesis using t by (auto simp: tasks_inv_def)
  qed
  with c' inv show ?thesis by (simp add: race_inv_def)
qed

text \<open>A step of \<open>session_ctrl_step\<close> makes no new descriptor but the one \<open>socket\<close> returned.\<close>

lemma ctrl_fds_fresh:
  assumes "session_ctrl_step E io usb pc s ec = Some (pc', s', ec', calls)" and "run_udp fds calls = Some fds'"
  shows "fds' \<subseteq> insert (ci_socket io) fds"
  using assms by (cases pc) (auto simp: open_reply_def Let_def split: if_splits prod.splits)

text \<open>Where the control task goes from a session that is on or off.\<close>

lemma session_ctrl_step_session:
  assumes "session_ctrl_step E io usb pc s ec = Some (pc', s', ec', calls)" and "in_session (At pc)" and "pc \<noteq> Close_Reply"
  shows "in_session (At pc') \<and> (\<forall>fd. pc \<noteq> Activate fd)"
  using assms by (cases pc) (auto simp: in_session_def split: if_splits)

lemma session_ctrl_step_sock:
  assumes "session_ctrl_step E io usb pc s ec = Some (pc', s', ec', calls)" and "ev_inv ec" and "holds_sock pc'"
  shows "(\<exists>fd. pc = Activate fd \<and> ss_sock s' = fd) \<or> holds_sock pc \<and> ss_sock s' = ss_sock s \<and> (\<forall>fd. pc \<noteq> Activate fd)"
proof -
  have "send_device_event s ec (ci_ev io) e = (s1, ec1, cs) \<Longrightarrow> ss_sock s1 = ss_sock s" for e s1 ec1 cs
    using send_device_event_frame [OF assms(2)] by blast
  with assms(1,3) show ?thesis
    by (cases pc) (fastforce simp: holds_sock_def open_reply_def Let_def split: if_splits prod.splits)+
qed

text \<open>The statements that \<open>session_ctrl_step\<close> takes together.\<close>

lemma race_ctrl_split_inv:
  assumes inv: "race_inv E quiet r" and step: "race_ctrl E quiet io usb r = Some r'"
    and split: "\<not> (\<exists>pc. r_pc r = At pc \<and> pc \<noteq> Close_Reply \<and> \<not> (pc = After_Poll \<and> ci_lost io))"
  shows "race_inv E quiet r'"
proof -
  note simps = race_ctrl_def race_inv_def race_ctrl_inv_def tasks_inv_def in_session_def closing_bits_def ctrl_simps
  from split consider (closing) fd where "r_pc r = Closing fd" | (delaying) "r_pc r = Delaying" | (aborting) "r_pc r = Aborting"
    | (close) "r_pc r = At Close_Reply" | (poll) "r_pc r = At After_Poll" "ci_lost io"
    by (cases "r_pc r") auto
  then show ?thesis
  proof cases
    case closing
    then have "r' = r\<lparr>r_pc := Delaying, r_open := {}\<rparr>" using step inv by (auto simp: simps)
    then show ?thesis using closing inv by (auto simp: simps idle_def)
  next
    case delaying
    then have "r' = r\<lparr>r_pc := At Farewell\<rparr>" "quiet \<longrightarrow> idle r" using step by (auto simp: race_ctrl_def split: if_splits)
    then show ?thesis using delaying inv by (auto simp: simps idle_def)
  next
    case aborting
    then have "r' = r\<lparr>r_pc := At Wait_Found, r_s := (r_s r)\<lparr>ss_sock := -1\<rparr>\<rparr>" using step by (simp add: race_ctrl_def Let_def)
    then show ?thesis using aborting inv by (auto simp: simps idle_def)
  next
    case close
    then have "r' = r\<lparr>r_pc := Closing (ss_sock (r_s r)), r_s := (r_s r)\<lparr>ss_sock := -1\<rparr>\<rparr>"
      using step by (simp add: race_ctrl_def Let_def)
    then show ?thesis using close inv by (auto simp: simps idle_def)
  next
    case poll
    then have "r' = r\<lparr>r_pc := Aborting, r_open := {}\<rparr>" using step inv by (auto simp: simps)
    then show ?thesis using poll inv by (auto simp: simps idle_def)
  qed
qed

lemma race_ctrl_inv_step:
  assumes spec: "event_group_spec E" and inv: "race_inv E quiet r" and fresh: "ci_socket io \<notin> r_open r \<union> r_other r"
    and step: "race_ctrl E quiet io usb r = Some r'"
  shows "race_inv E quiet r'"
proof (cases "\<exists>pc. r_pc r = At pc \<and> pc \<noteq> Close_Reply \<and> \<not> (pc = After_Poll \<and> ci_lost io)")
  case False
  then show ?thesis by (rule race_ctrl_split_inv [OF inv step])
next
  case True
  then obtain pc where pc: "r_pc r = At pc" "pc \<noteq> Close_Reply" "\<not> (pc = After_Poll \<and> ci_lost io)" by blast
  then obtain pc' s' ev' calls fds where c: "session_ctrl_step E io usb pc (r_s r) (r_ev r) = Some (pc', s', ev', calls)"
    "run_udp (r_open r) calls = Some fds"
    and r': "r' = (case pc of Activate fd \<Rightarrow> r\<lparr>r_pc := At pc', r_s := s', r_ev := ev', r_open := fds, r_gen := r_gen r + 1, r_cur := fd\<rparr>
              | _ \<Rightarrow> r\<lparr>r_pc := At pc', r_s := s', r_ev := ev', r_open := fds\<rparr>)"
    using step by (auto simp: race_ctrl_def Let_def bind_eq_Some_conv cong: ctrl_pc.case_cong)
  have ctrl: "ev_inv (r_ev r)" "ctrl_inv E pc (r_s r)" "r_open r = ctrl_fds pc (r_s r)" "r_open r \<inter> r_other r = {}"
      "holds_sock pc \<longrightarrow> ss_sock (r_s r) = r_cur r"
    using inv pc(1) by (auto simp: race_inv_def race_ctrl_inv_def)
  have next_inv: "ctrl_inv E pc' s'" "fds = ctrl_fds pc' s'" "ev_inv ev'"
    using session_ctrl_step_ctrl [OF spec ctrl(1,2) c(1)] c(2) ctrl(3) by auto
  have dis: "fds \<inter> r_other r = {}" using ctrl_fds_fresh [OF c] fresh ctrl(4) by auto
  have "holds_sock pc' \<longrightarrow> ss_sock s' = r_cur r'"
    using session_ctrl_step_sock [OF c(1) ctrl(1)] ctrl(5) r' by (auto split: ctrl_pc.splits)
  then have "race_ctrl_inv E r'"
    using next_inv dis r' by (auto simp: race_ctrl_inv_def split: ctrl_pc.splits)
  moreover have "tasks_inv r'" if t: "tasks_inv r"
  proof (cases "in_session (At pc)")
    case True
    then have "in_session (At pc')" "\<forall>fd. pc \<noteq> Activate fd" using session_ctrl_step_session [OF c(1)] pc(2) by auto
    then show ?thesis using t r' by (auto simp: tasks_inv_def split: ctrl_pc.splits)
  next
    case False
    then have "idle r" using t pc(1) by (simp add: tasks_inv_def)
    then show ?thesis using t r' by (auto simp: tasks_inv_def idle_def split: ctrl_pc.splits)
  qed
  ultimately show ?thesis using inv by (simp add: race_inv_def)
qed

lemma race_other_inv:
  assumes "race_inv E quiet r" and "r_open r \<inter> fds = {}"
  shows "race_inv E quiet (r\<lparr>r_other := fds\<rparr>)"
proof -
  have "race_ctrl_inv E (r\<lparr>r_other := fds\<rparr>)"
    using assms by (cases "r_pc r") (simp_all add: race_inv_def race_ctrl_inv_def)
  with assms(1) show ?thesis by (simp add: race_inv_def tasks_inv_def idle_def)
qed

lemma race_step_inv:
  assumes spec: "event_group_spec E" and step: "race_step E quiet r r'" and inv: "race_inv E quiet r"
  shows "race_inv E quiet r'"
proof -
  from step obtain a where a: "race_do E quiet a r = Some r'" by (auto simp: race_step_def)
  have dis: "r_open r \<inter> r_other r = {}" using inv by (simp add: race_inv_def race_ctrl_inv_def)
  show ?thesis
  proof (cases a)
    case (Act_Ctrl io usb)
    with a show ?thesis using race_ctrl_inv_step [OF spec inv, of io usb r'] by (simp split: if_splits)
  next
    case (Act_Up frame)
    with a show ?thesis using race_up_inv [OF inv] by (auto simp: bind_eq_Some_conv)
  next
    case (Act_Down dgram io ws usb in_buf)
    with a show ?thesis using race_down_inv [OF inv] by (auto simp: bind_eq_Some_conv split: if_splits)
  next
    case (Act_Open fd)
    with a have "r' = r\<lparr>r_other := insert fd (r_other r)\<rparr>" "r_open r \<inter> insert fd (r_other r) = {}"
      using dis by (auto split: if_splits)
    then show ?thesis using race_other_inv [OF inv] by simp
  next
    case (Act_Close fd)
    with a have "r' = r\<lparr>r_other := r_other r - {fd}\<rparr>" "r_open r \<inter> (r_other r - {fd}) = {}"
      using dis by auto
    then show ?thesis using race_other_inv [OF inv] by simp
  qed
qed

interpretation race_run: inductive_invariant "race_start E" "race_step E quiet"
  "\<lambda>r. event_group_spec E \<longrightarrow> race_inv E quiet r" for E quiet
  using race_start_inv race_step_inv by unfold_locales blast+

lemma race_acts_reach:
  "fold_opt (race_do E quiet) acts r = Some r' \<Longrightarrow> reach (race_start E) (race_step E quiet) r \<Longrightarrow>
     reach (race_start E) (race_step E quiet) r'"
proof (induction acts arbitrary: r)
  case (Cons a acts)
  then obtain r1 where r1: "race_do E quiet a r = Some r1" "fold_opt (race_do E quiet) acts r1 = Some r'"
    by (auto simp: bind_eq_Some_conv)
  then have "race_step E quiet r r1" by (auto simp: race_step_def)
  from Cons.IH [OF r1(2) reach_step [OF Cons.prems(2) this]] show ?case .
qed simp

section \<open>Runs\<close>

definition race_example :: "u32 race" where
  "race_example = \<lparr>r_pc = At Wait_Found,
     r_s = \<lparr>ss_cfg = mouse_cfg, ss_eg = 0, ss_sock = -1, ss_daemon_ip = 0, ss_seq = 0, ss_out_transfer_seq = 0, ss_reasm = reasm_zero\<rparr>,
     r_ev = event_conn_initial, r_up = U_Wait, r_down = D_Wait, r_open = {}, r_other = {}, r_gen = 0, r_cur = -1, r_sent = []\<rparr>"

lemma race_example_reach: "reach (race_start mask_eg) (race_step mask_eg quiet) race_example"
  by (rule reach_start)
    (auto simp: race_start_def race_example_def device_session_start_def mouse_cfg_def mask_eg_def const_defs
      intro!: exI [of _ mouse_cfg])

text \<open>The control task's environment: the daemon is found or lost, and \<open>socket\<close> returns \<open>fd\<close>.\<close>

definition ctrl_ans :: "bool \<Rightarrow> int \<Rightarrow> ctrl_io" where
  "ctrl_ans found fd = \<lparr>ci_found = found, ci_lost = (\<not> found), ci_ip = 1, ci_socket = fd, ci_bind = 0, ci_sockopt = 0,
     ci_ev = \<lparr>io_socket = -1, io_connect = 0, io_send = 0\<rparr>\<rparr>"

definition open_session :: "int \<Rightarrow> race_action list" where
  "open_session fd =
     map (\<lambda>fd. Act_Ctrl (ctrl_ans True fd) mouse_state) [-1, -1, fd, -1, -1, -1, -1, -1]"

definition close_session :: "race_action list" where
  "close_session = replicate 5 (Act_Ctrl (ctrl_ans False (-1)) mouse_state)"

lemma send_device_event_unconnected:
  "send_device_event s event_conn_initial (ci_ev (ctrl_ans found fd)) e = (s, event_conn_initial, [EvSocket (-1)])"
  by (simp add: send_device_event_def ensure_event_tcp_connected_def event_conn_initial_def ctrl_ans_def Let_def)

lemma ctrl_ans_simps [simp]:
  "ci_found (ctrl_ans found fd) = found" "ci_lost (ctrl_ans found fd) = (\<not> found)" "ci_ip (ctrl_ans found fd) = 1"
  "ci_socket (ctrl_ans found fd) = fd" "ci_bind (ctrl_ans found fd) = 0" "ci_sockopt (ctrl_ans found fd) = 0"
  by (simp_all add: ctrl_ans_def)

lemma mouse_ready: "usb_drv_is_device_ready mouse_state"
  by (simp add: usb_drv_is_device_ready_def mouse_state_def)

lemma mask_eg_simps [simp]:
  "eg_set mask_eg g m = g OR m" "eg_clear mask_eg g m = g AND NOT m" "eg_has mask_eg g m \<longleftrightarrow> g AND m \<noteq> 0"
  by (simp_all add: mask_eg_def eg_has_def)

lemma session_bits: "SESSION_ACTIVE_BIT = 1" "SESSION_LOST_BIT = 2"
  by (simp_all add: const_defs BITn_def)

lemma open_session_runs:
  assumes "r_pc r = At Wait_Found" and "r_open r = {}" and "ss_eg (r_s r) = 0" and "r_ev r = event_conn_initial"
    and "0 \<le> fd" and "r_other r = {}"
  shows "fold_opt (race_do mask_eg quiet) (open_session fd) r =
     Some (r\<lparr>r_pc := At Wait_Lost,
       r_s := (r_s r)\<lparr>ss_daemon_ip := 1, ss_sock := fd, ss_reasm := reasm_zero, ss_seq := 0, ss_out_transfer_seq := 0, ss_eg := 1\<rparr>,
       r_open := {fd}, r_gen := r_gen r + 1, r_cur := fd\<rparr>)"
  using assms
  by (simp add: open_session_def race_ctrl_def open_reply_def send_device_event_unconnected mouse_ready session_bits)

lemma close_session_runs:
  assumes "r_pc r = At Wait_Lost" and "ss_eg (r_s r) = 1" and "r_open r = {fd}" and "ss_sock (r_s r) = fd" and "0 \<le> fd" and "r_other r = {}"
  shows "fold_opt (race_do mask_eg quiet) close_session r =
     Some (r\<lparr>r_pc := Delaying, r_s := (r_s r)\<lparr>ss_eg := 2, ss_sock := -1\<rparr>, r_open := {}\<rparr>)"
  using assms
  by (simp add: close_session_def race_ctrl_def numeral_eq_Suc session_bits)

text \<open>A request for a control transfer that the device does not answer.\<close>

definition ctrl_read :: usbip_cmd_submit where
  "ctrl_read = mouse_read\<lparr>cs_ep := USBIP_U32 0\<rparr>"

definition ctrl_request :: "byte list" where
  "ctrl_request = enc_Header \<lparr>cmd_type = CMD_RAW_DATA, device_id = 0, endpoint = 0, seq = 0, payload_len = 48\<rparr> @ enc_cmd_submit ctrl_read"

abbreviation dn :: "byte list option \<Rightarrow> race_action" where
  "dn dgram \<equiv> Act_Down dgram mouse_io (\<lambda>_. True) mouse_state (replicate IN_BUF_SIZE 0)"

lemma ctrl_request_answer:
  assumes "cfg_usbip_mode (ss_cfg s)"
  shows "\<exists>st' in'. down_work USB_DRIVER_OPS mouse_io ws s mouse_state (replicate IN_BUF_SIZE 0) ctrl_request =
     Some (s, st', in', Some (enc_ret_submit (ret_submit_of ctrl_read 1 0)))"
proof -
  have "\<exists>st'. usb_drv_control mouse_state True None (arr8_bytes arr8_zero) None 0 True 8 = Some (st', -1, [])"
    by (simp add: usb_drv_control_def mouse_state_def memcpy_at_def ctrl_stage_out_def ctrl_data_len_def length_arr8_setup Let_def)
  then show ?thesis
    using assms
    by (auto simp: down_work_def ctrl_request_def submit_answer_def ctrl_read_def mouse_read_def submit_transfer_def mouse_io_def
        wire_size const_defs memcpy_at_def mem_read_def Let_def)
qed

text \<open>The first session, up to the point where the receiving task has the request in hand.\<close>

definition race_working :: "u32 race" where
  "race_working = race_example\<lparr>r_pc := At Wait_Lost,
     r_s := (r_s race_example)\<lparr>ss_daemon_ip := 1, ss_sock := 5, ss_eg := 1\<rparr>,
     r_open := {5}, r_gen := 1, r_cur := 5, r_down := D_Work 1 ctrl_request\<rparr>"

lemma ctrl_request_take: "take RX_BUF_SIZE ctrl_request = ctrl_request"
  by (simp add: ctrl_request_def RX_BUF_SIZE_def wire_size)

lemma race_working_run:
  "fold_opt (race_do mask_eg quiet) (open_session 5 @ [dn None, dn None, dn (Some ctrl_request)]) race_example = Some race_working"
proof -
  have "fold_opt (race_do mask_eg quiet) (open_session 5) race_example =
      Some (race_example\<lparr>r_pc := At Wait_Lost, r_s := (r_s race_example)\<lparr>ss_daemon_ip := 1, ss_sock := 5, ss_eg := 1\<rparr>,
        r_open := {5}, r_gen := 1, r_cur := 5\<rparr>)"
    by (subst open_session_runs) (simp_all add: race_example_def)
  then show ?thesis
    by (simp add: fold_opt_append race_working_def race_example_def session_bits fd_kind_of_def race_sent_def ctrl_request_take)
qed

lemma race_working_reach: "reach (race_start mask_eg) (race_step mask_eg quiet) race_working"
  by (rule race_acts_reach [OF race_working_run race_example_reach])

definition ctrl_reply :: "byte list" where
  "ctrl_reply = enc_ret_submit (ret_submit_of ctrl_read 1 0)"

lemma race_working_answer:
  assumes "r_down r = D_Work t ctrl_request" and "cfg_usbip_mode (ss_cfg (r_s r))"
  shows "race_do mask_eg quiet (dn None) r = Some (r\<lparr>r_down := D_Enter t ctrl_reply\<rparr>)"
proof -
  obtain st' in' where "down_work USB_DRIVER_OPS mouse_io (\<lambda>_. True) (r_s r) mouse_state (replicate IN_BUF_SIZE 0) ctrl_request =
     Some (r_s r, st', in', Some ctrl_reply)"
    using ctrl_request_answer [OF assms(2)] unfolding ctrl_reply_def by blast
  with assms(1) show ?thesis by (simp add: race_sent_def)
qed

lemma ctrl_reply_items: "send_raw_begin s ctrl_reply = (s, [Send_Data ctrl_reply])"
  by (simp add: send_raw_begin_def ctrl_reply_def wire_size const_defs)

definition reply_datagram :: "'g session \<Rightarrow> byte list" where
  "reply_datagram s = enc_Header (raw_header s CMD_RAW_DATA 48) @ ctrl_reply"

lemma ctrl_reply_turn: "send_raw_turn s (Send_Data ctrl_reply) = Some (s\<lparr>ss_seq := ss_seq s + 1\<rparr>, reply_datagram s)"
  by (simp add: pkt_of_def reply_datagram_def ctrl_reply_def wire_size const_defs)

lemma race_foreign_send:
  "\<exists>r d. reach (race_start mask_eg) (race_step mask_eg quiet) r \<and> r_sent r = [d] \<and> sd_kind d = Foreign"
proof -
  let ?r = "race_working\<lparr>r_down := D_Send 1 5 [Send_Data ctrl_reply]\<rparr>"
  have "race_do mask_eg quiet (dn None) race_working = Some (race_working\<lparr>r_down := D_Enter 1 ctrl_reply\<rparr>)"
    by (rule race_working_answer) (simp_all add: race_working_def race_example_def mouse_cfg_def)
  then have answer: "fold_opt (race_do mask_eg quiet) [dn None, dn None] race_working = Some ?r"
    by (simp add: ctrl_reply_items race_sent_def) (simp add: race_working_def race_example_def)
  have closed: "fold_opt (race_do mask_eg quiet) close_session ?r =
      Some (?r\<lparr>r_pc := Delaying, r_s := (r_s ?r)\<lparr>ss_eg := 2, ss_sock := -1\<rparr>, r_open := {}\<rparr>)"
    by (rule close_session_runs [of _ 5]) (simp_all add: race_working_def race_example_def)
  obtain r d where r: "fold_opt (race_do mask_eg quiet) ([dn None, dn None] @ close_session @ [Act_Open 5, dn None]) race_working = Some r"
    and d: "r_sent r = [d]" "sd_kind d = Foreign"
    unfolding fold_opt_append answer closed bind.bind_lunit
    by (simp add: ctrl_reply_turn race_sent_def fd_kind_of_def race_working_def race_example_def del: send_raw_turn.simps)
  from race_acts_reach [OF r race_working_reach] d show ?thesis by blast
qed

text \<open>
  The delay ends while the task still works; the second session uses descriptor 6, and the reply to
  the request of the first one goes out on it.
\<close>

lemma race_late_reply:
  "\<exists>r d. reach (race_start mask_eg) (race_step mask_eg False) r \<and> r_sent r = [d] \<and>
     sd_origin d = 1 \<and> sd_gen d = 2 \<and> sd_kind d = Own \<and> sd_pkt d = reply_datagram (r_s race_working)"
proof -
  let ?r1 = "race_working\<lparr>r_pc := Delaying, r_s := (r_s race_working)\<lparr>ss_eg := 2, ss_sock := -1\<rparr>, r_open := {}\<rparr>"
  let ?r2 = "race_working\<lparr>r_pc := At Wait_Found, r_s := (r_s race_working)\<lparr>ss_eg := 0, ss_sock := -1\<rparr>, r_open := {}\<rparr>"
  let ?r3 = "race_working\<lparr>r_s := (r_s race_working)\<lparr>ss_sock := 6\<rparr>, r_open := {6}, r_gen := 2, r_cur := 6\<rparr>"
  have closed: "fold_opt (race_do mask_eg False) close_session race_working = Some ?r1"
    by (rule close_session_runs [of _ 5]) (simp_all add: race_working_def race_example_def)
  have over: "fold_opt (race_do mask_eg False) (replicate 3 (Act_Ctrl (ctrl_ans True (-1)) mouse_state)) ?r1 = Some ?r2"
    by (simp add: numeral_3_eq_3 race_ctrl_def race_working_def race_example_def send_device_event_unconnected session_bits)
  have again: "fold_opt (race_do mask_eg False) (open_session 6) ?r2 = Some ?r3"
    by (subst open_session_runs) (simp_all add: race_working_def race_example_def)
  have answer: "race_do mask_eg False (dn None) ?r3 = Some (?r3\<lparr>r_down := D_Enter 1 ctrl_reply\<rparr>)"
    by (rule race_working_answer) (simp_all add: race_working_def race_example_def mouse_cfg_def)
  obtain r d where r: "fold_opt (race_do mask_eg False)
        (close_session @ replicate 3 (Act_Ctrl (ctrl_ans True (-1)) mouse_state) @ open_session 6 @ [dn None, dn None, dn None])
        race_working = Some r"
    and d: "r_sent r = [d]" "sd_origin d = 1" "sd_gen d = 2" "sd_kind d = Own" "sd_pkt d = reply_datagram (r_s race_working)"
    unfolding fold_opt_append closed over again fold_opt.simps(2) [of _ "dn None"] answer bind.bind_lunit
    by (simp add: ctrl_reply_items ctrl_reply_turn race_sent_def fd_kind_of_def race_working_def race_example_def
        reply_datagram_def raw_header_def del: send_raw_turn.simps)
  from race_acts_reach [OF r race_working_reach] d show ?thesis by blast
qed

section \<open>Properties\<close>



text \<open>
  C6. If the delay before the farewell is long enough for the data tasks to come back to their waits,
  the sessions are kept apart, whatever the interleaving: outside a session both data tasks are idle,
  so that the control task alone touches sequence numbers, reassembly state and address; and every
  datagram sent carries data of the session it is sent in, on that session's own socket or, during the
  delay, on the descriptor that socket had.
\<close>

theorem sessions_kept_apart:
  assumes "event_group_spec E" and "reach (race_start E) (race_step E True) r"
  shows "(\<not> (r_pc r \<in> {At Wait_Lost, At Clear_Active, At Set_Lost, At Close_Reply, Delaying} \<or> (\<exists>fd. r_pc r = Closing fd)) \<longrightarrow>
        r_up r \<in> {U_Wait, U_Wait_Lost} \<and> r_down r = D_Wait) \<and>
     (\<forall>d \<in> set (r_sent r). sd_origin d = sd_gen d \<and> (sd_kind d = Own \<or> sd_late d))"
proof -
  have "tasks_inv r" using race_run.reach_inv [OF assms(2)] assms(1) by (simp add: race_inv_def)
  then show ?thesis by (auto simp: tasks_inv_def in_session_def idle_def list_all_iff sent_ok_def)
qed

theorem sessions_kept_apart_witness:
  "\<exists>r. reach (race_start mask_eg) (race_step mask_eg True) r \<and> r_sent r \<noteq> [] \<and>
     (\<forall>d \<in> set (r_sent r). sd_origin d = sd_gen d \<and> (sd_kind d = Own \<or> sd_late d))"
proof -
  obtain r d where r: "reach (race_start mask_eg) (race_step mask_eg True) r" "r_sent r = [d]"
    using race_foreign_send by blast
  from sessions_kept_apart [OF mask_eg_spec r(1)] r show ?thesis by auto
qed

text \<open>
  C19. Two things go wrong. Even with a delay that is long enough, a task that has read \<open>s->sock\<close> can send
  its datagram after the socket was closed and its number given to another component, on that
  component's descriptor. And the delay of 1500 milliseconds is shorter than the 2000 a control transfer
  may take: a task that is still in one when the delay ends sends the reply to a request of the old
  session in the new one.
\<close>

theorem session_races:
  "(\<exists>r d. reach (race_start mask_eg) (race_step mask_eg True) r \<and> d \<in> set (r_sent r) \<and> sd_kind d = Foreign) \<and>
   (\<exists>r d. reach (race_start mask_eg) (race_step mask_eg False) r \<and> d \<in> set (r_sent r) \<and> sd_kind d = Own \<and>
      sd_origin d = 1 \<and> sd_gen d = 2 \<and>
      (\<exists>hdr. sd_pkt d = enc_Header hdr @ enc_ret_submit (ret_submit_of ctrl_read 1 0)))"
proof
  show "\<exists>r d. reach (race_start mask_eg) (race_step mask_eg True) r \<and> d \<in> set (r_sent r) \<and> sd_kind d = Foreign"
    using race_foreign_send [of True] by (metis list.set_intros(1))
  obtain r d where "reach (race_start mask_eg) (race_step mask_eg False) r" "r_sent r = [d]"
     "sd_origin d = 1" "sd_gen d = 2" "sd_kind d = Own" "sd_pkt d = reply_datagram (r_s race_working)"
    using race_late_reply by blast
  then show "\<exists>r d. reach (race_start mask_eg) (race_step mask_eg False) r \<and> d \<in> set (r_sent r) \<and> sd_kind d = Own \<and>
      sd_origin d = 1 \<and> sd_gen d = 2 \<and> (\<exists>hdr. sd_pkt d = enc_Header hdr @ enc_ret_submit (ret_submit_of ctrl_read 1 0))"
    by (intro exI [of _ r] exI [of _ d]) (auto simp: reply_datagram_def ctrl_reply_def)
qed

end
