(* ===== verification/Usb_Async.thy ===== *)
theory Usb_Async
  imports Usb_Driver
begin

text \<open>
  The transfers of the USB driver (\<open>esp-codes/main/usb_driver.c\<close>) with their completions as separate
  events. \<open>Usb_Driver\<close> takes a transfer and its completion together; here a call submits its transfer
  and waits on a semaphore or on the receive queue, the callback runs when the library calls it, and
  the call goes on when the semaphore is up, or gives up after its time-out. A transfer whose call
  gave up is still on its way.
\<close>

section \<open>State\<close>

definition USB_RX_QUEUE_DEPTH :: nat where "USB_RX_QUEUE_DEPTH = 8"

text \<open>
  The driver's statics, the queue \<open>s_rx_queue\<close>, the two binary semaphores, and which of the three
  transfers the library has not finished.
\<close>

record usb_async =
  ua_st :: usb_state
  ua_rx :: "usb_frame list"
  ua_out_done :: bool
  ua_ctrl_done :: bool
  ua_in_busy :: bool
  ua_out_busy :: bool
  ua_ctrl_busy :: bool

text \<open>What a call does when it has submitted its transfer, or cannot: go on waiting, or return.\<close>

datatype usb_wait = Waiting | Returned int

section \<open>Control transfers\<close>

text \<open>\<open>usb_drv_control\<close> up to \<open>xSemaphoreTake\<close>; \<open>ok\<close> is whether the library takes the transfer.\<close>

definition usb_control_begin ::
  "bool \<Rightarrow> byte list \<Rightarrow> byte list option \<Rightarrow> int \<Rightarrow> int \<Rightarrow> usb_async \<Rightarrow> (usb_async \<times> usb_wait) option" where
  "usb_control_begin ok setup8 out_data out_len max_in a =
     (let st = ua_st a
      in case (s_dev st, s_ctrl_xfer st) of
           (Some _, Some x) \<Rightarrow> do {
             b1 \<leftarrow> memcpy_at (data_buffer x) 0 setup8;
             if out_data \<noteq> None \<and> out_len > 0 \<and> out_len > 1024
             then Some (a\<lparr>ua_st := st\<lparr>s_ctrl_xfer := Some (x\<lparr>data_buffer := b1\<rparr>)\<rparr>\<rparr>, Returned (-1))
             else do {
               b2 \<leftarrow> ctrl_stage_out b1 out_data out_len;
               let n = ctrl_data_len out_data out_len max_in;
               if n > 1024
               then Some (a\<lparr>ua_st := st\<lparr>s_ctrl_xfer := Some (x\<lparr>data_buffer := b2\<rparr>)\<rparr>\<rparr>, Returned (-1))
               else
                 let a' = a\<lparr>ua_st := st\<lparr>s_ctrl_xfer := Some (x\<lparr>data_buffer := b2, num_bytes := 8 + n\<rparr>)\<rparr>\<rparr>
                 in if ok \<and> \<not> ua_ctrl_busy a then Some (a'\<lparr>ua_ctrl_busy := True\<rparr>, Waiting)
                    else Some (a', Returned (-1)) } }
         | _ \<Rightarrow> Some (a, Returned (-1)))"

text \<open>The library finishes the transfer and calls \<open>ctrl_transfer_cb\<close>, which raises the semaphore.\<close>

definition usb_control_complete :: "ctrl_completion \<Rightarrow> usb_async \<Rightarrow> usb_async option" where
  "usb_control_complete c a =
     (case s_ctrl_xfer (ua_st a) of
        Some x \<Rightarrow>
          if ua_ctrl_busy a
          then Some (a\<lparr>ua_st := ctrl_transfer_cb (cc_status c) (cc_actual c)
                                 ((ua_st a)\<lparr>s_ctrl_xfer := Some (x\<lparr>data_buffer := cc_buffer c\<rparr>)\<rparr>),
                       ua_ctrl_busy := False, ua_ctrl_done := True\<rparr>)
          else None
      | None \<Rightarrow> None)"

text \<open>
  After \<open>xSemaphoreTake\<close>: it took the semaphore if that is up, and otherwise timed out. The result is
  the returned \<open>int\<close> and the bytes copied to \<open>in_buf\<close>.
\<close>

definition usb_control_end :: "bool \<Rightarrow> int \<Rightarrow> usb_async \<Rightarrow> (usb_async \<times> int \<times> byte list) option" where
  "usb_control_end has_in_buf max_in a =
     (if \<not> ua_ctrl_done a then Some (a, -1, [])
      else
        let a' = a\<lparr>ua_ctrl_done := False\<rparr>; st = ua_st a
        in if s_ctrl_status st \<noteq> 0 then Some (a', - s_ctrl_status st, [])
           else if has_in_buf \<and> max_in > 0 \<and> s_ctrl_actual st > 0 then
             let copy = (if s_ctrl_actual st < max_in then s_ctrl_actual st else max_in)
             in do {
               x \<leftarrow> s_ctrl_xfer st;
               bs \<leftarrow> mem_read (data_buffer x) 8 (nat copy);
               Some (a', copy, bs) }
           else Some (a', s_ctrl_actual st, []))"

section \<open>Blocking writes\<close>

definition usb_send_begin :: "bool \<Rightarrow> byte list \<Rightarrow> nat \<Rightarrow> usb_async \<Rightarrow> (usb_async \<times> usb_wait) option" where
  "usb_send_begin ok buf len a =
     (case s_dev (ua_st a) of
        None \<Rightarrow> Some (a, Returned 0)
      | Some _ \<Rightarrow>
          (case s_out_xfer (ua_st a) of
             None \<Rightarrow> Some (a, Returned 0)
           | Some x \<Rightarrow> do {
               st' \<leftarrow> fill_out_xfer (ua_st a) x buf len;
               let a' = a\<lparr>ua_st := st'\<rparr>;
               if ok \<and> \<not> ua_out_busy a then Some (a'\<lparr>ua_out_busy := True\<rparr>, Waiting)
               else Some (a', Returned (-1)) }))"

definition usb_send_complete :: "int \<Rightarrow> usb_async \<Rightarrow> usb_async option" where
  "usb_send_complete status a =
     (if ua_out_busy a
      then Some (a\<lparr>ua_st := out_transfer_cb status (ua_st a), ua_out_busy := False, ua_out_done := True\<rparr>)
      else None)"

definition usb_send_end :: "usb_async \<Rightarrow> usb_async \<times> int" where
  "usb_send_end a =
     (if ua_out_done a then (a\<lparr>ua_out_done := False\<rparr>, s_out_status (ua_st a)) else (a, ESP_ERR_TIMEOUT))"

section \<open>Reads\<close>

definition usb_recv_begin :: "bool \<Rightarrow> usb_async \<Rightarrow> usb_async \<times> usb_wait" where
  "usb_recv_begin ok a =
     (if s_dev (ua_st a) = None \<or> s_in_xfer (ua_st a) = None then (a, Returned (-1))
      else if ok \<and> \<not> ua_in_busy a then (a\<lparr>ua_in_busy := True\<rparr>, Waiting)
      else (a, Returned (-1)))"

text \<open>\<open>in_transfer_cb\<close> queues a frame, unless the queue is full.\<close>

definition usb_recv_complete :: "int \<Rightarrow> int \<Rightarrow> nat \<Rightarrow> byte list \<Rightarrow> usb_async \<Rightarrow> usb_async option" where
  "usb_recv_complete no_device status actual buffer a =
     (if ua_in_busy a then do {
        frame \<leftarrow> in_transfer_cb no_device status actual buffer;
        Some (a\<lparr>ua_in_busy := False,
                ua_rx := (case frame of
                            None \<Rightarrow> ua_rx a
                          | Some f \<Rightarrow> if length (ua_rx a) < USB_RX_QUEUE_DEPTH then ua_rx a @ [f] else ua_rx a)\<rparr>) }
      else None)"

definition usb_recv_end :: "nat \<Rightarrow> usb_async \<Rightarrow> (usb_async \<times> int \<times> byte list) option" where
  "usb_recv_end max_len a =
     (case ua_rx a of
        [] \<Rightarrow> Some (a, -1, [])
      | frame # rest \<Rightarrow>
          let a' = a\<lparr>ua_rx := rest\<rparr>
          in if fr_len frame = 0xFFFF then Some (a', -1, [])
             else
               let copy = (if unat (fr_len frame) < max_len then unat (fr_len frame) else max_len)
               in do { bs \<leftarrow> mem_read (fr_data frame) 0 copy; Some (a', int copy, bs) })"

section \<open>Calls that are answered in time\<close>

text \<open>Nothing is left over from an earlier call.\<close>

definition usb_quiet :: "usb_async \<Rightarrow> bool" where
  "usb_quiet a \<longleftrightarrow> ua_rx a = [] \<and> \<not> ua_out_done a \<and> \<not> ua_ctrl_done a \<and> \<not> ua_in_busy a \<and> \<not> ua_out_busy a \<and> \<not> ua_ctrl_busy a"

text \<open>A whole call: submitting, the completion if the transfer was taken, and the end.\<close>

definition usb_control_call ::
  "bool \<Rightarrow> ctrl_completion \<Rightarrow> byte list \<Rightarrow> byte list option \<Rightarrow> int \<Rightarrow> bool \<Rightarrow> int \<Rightarrow> usb_async
     \<Rightarrow> (usb_async \<times> int \<times> byte list) option" where
  "usb_control_call ok c setup8 out_data out_len has_in_buf max_in a = do {
     (a1, w) \<leftarrow> usb_control_begin ok setup8 out_data out_len max_in a;
     case w of
       Returned r \<Rightarrow> Some (a1, r, [])
     | Waiting \<Rightarrow> do { a2 \<leftarrow> usb_control_complete c a1; usb_control_end has_in_buf max_in a2 } }"

definition usb_send_call :: "bool \<Rightarrow> int \<Rightarrow> byte list \<Rightarrow> nat \<Rightarrow> usb_async \<Rightarrow> (usb_async \<times> int) option" where
  "usb_send_call ok status buf len a = do {
     (a1, w) \<leftarrow> usb_send_begin ok buf len a;
     case w of
       Returned r \<Rightarrow> Some (a1, r)
     | Waiting \<Rightarrow> do { a2 \<leftarrow> usb_send_complete status a1; Some (usb_send_end a2) } }"

definition usb_recv_call ::
  "bool \<Rightarrow> int \<Rightarrow> int \<Rightarrow> nat \<Rightarrow> byte list \<Rightarrow> nat \<Rightarrow> usb_async \<Rightarrow> (usb_async \<times> int \<times> byte list) option" where
  "usb_recv_call ok no_device status actual buffer max_len a =
     (case usb_recv_begin ok a of
        (a1, Returned r) \<Rightarrow> Some (a1, r, [])
      | (a1, Waiting) \<Rightarrow> do { a2 \<leftarrow> usb_recv_complete no_device status actual buffer a1; usb_recv_end max_len a2 })"

lemma usb_control_call_sync:
  assumes "usb_quiet a"
  shows "usb_control_call ok c setup8 out_data out_len has_in_buf max_in a =
     map_option (\<lambda>(st', r, bs). (a\<lparr>ua_st := st'\<rparr>, r, bs))
       (usb_drv_control (ua_st a) ok (Some c) setup8 out_data out_len has_in_buf max_in)"
  using assms
  by (auto simp: usb_control_call_def usb_control_begin_def usb_control_complete_def usb_control_end_def usb_drv_control_def
      ctrl_finish_def ctrl_transfer_cb_def usb_quiet_def Let_def split: option.splits bind_splits)

lemma usb_send_call_sync:
  assumes "usb_quiet a"
  shows "usb_send_call ok status buf len a =
     map_option (\<lambda>(st', r). (a\<lparr>ua_st := st'\<rparr>, r)) (usb_drv_send_blocking (ua_st a) ok (Some status) buf len)"
  using assms
  by (auto simp: usb_send_call_def usb_send_begin_def usb_send_complete_def usb_send_end_def usb_drv_send_blocking_def
      out_transfer_cb_def usb_quiet_def Let_def split: option.splits bind_splits)

lemma usb_recv_call_sync:
  assumes "usb_quiet a" and "in_transfer_cb no_device status actual buffer = Some frame"
  shows "usb_recv_call ok no_device status actual buffer max_len a =
     map_option (\<lambda>(r, bs). (a, r, bs)) (usb_drv_recv (ua_st a) (ok, frame) max_len)"
  using assms
  by (auto simp: usb_recv_call_def usb_recv_begin_def usb_recv_complete_def usb_recv_end_def usb_drv_recv_def
      USB_RX_QUEUE_DEPTH_def usb_quiet_def Let_def split: option.splits bind_splits)

section \<open>Completions that come late\<close>

text \<open>
  A series of control reads whose completion arrives only after the call has returned: each element has
  the setup packet, the size of the caller's buffer and the completion. The results of the calls are
  collected.
\<close>

fun usb_control_late ::
  "(byte list \<times> int \<times> ctrl_completion) list \<Rightarrow> usb_async \<Rightarrow> (usb_async \<times> (int \<times> byte list) list) option" where
  "usb_control_late [] a = Some (a, [])"
| "usb_control_late ((setup8, max_in, c) # reqs) a = do {
     (a1, w) \<leftarrow> usb_control_begin True setup8 None 0 max_in a;
     (a2, r, bs) \<leftarrow> (case w of Returned r \<Rightarrow> Some (a1, r, []) | Waiting \<Rightarrow> usb_control_end True max_in a1);
     a3 \<leftarrow> usb_control_complete c a2;
     (a4, rs) \<leftarrow> usb_control_late reqs a3;
     Some (a4, (r, bs) # rs) }"

text \<open>A successful completion that delivers \<open>d\<close>.\<close>

definition delivers :: "ctrl_completion \<Rightarrow> byte list \<Rightarrow> bool" where
  "delivers c d \<longleftrightarrow> cc_status c = 0 \<and> cc_actual c = 8 + length d \<and> length (cc_buffer c) = 1032 \<and> length d \<le> 1024 \<and>
     take (length d) (drop 8 (cc_buffer c)) = d"

definition ctrl_ready :: "usb_async \<Rightarrow> bool" where
  "ctrl_ready a \<longleftrightarrow> s_dev (ua_st a) \<noteq> None \<and> \<not> ua_ctrl_busy a \<and>
     (\<exists>x. s_ctrl_xfer (ua_st a) = Some x \<and> length (data_buffer x) = 1032)"

text \<open>The semaphore is up for an earlier transfer that delivered \<open>d\<close>.\<close>

definition ctrl_left :: "byte list \<Rightarrow> usb_async \<Rightarrow> bool" where
  "ctrl_left d a \<longleftrightarrow> ctrl_ready a \<and> ua_ctrl_done a \<and> s_ctrl_status (ua_st a) = 0 \<and> s_ctrl_actual (ua_st a) = int (length d) \<and>
     length d \<le> 1024 \<and> (\<forall>x. s_ctrl_xfer (ua_st a) = Some x \<longrightarrow> take (length d) (drop 8 (data_buffer x)) = d)"

definition read_ok :: "byte list \<times> int \<times> ctrl_completion \<times> byte list \<Rightarrow> bool" where
  "read_ok = (\<lambda>(setup8, max_in, c, d). length setup8 = 8 \<and> 0 < max_in \<and> max_in \<le> 1024 \<and> delivers c d)"

lemma control_begin_ready:
  assumes "ctrl_ready a" and "length setup8 = 8" and "0 < max_in" and "max_in \<le> 1024"
  obtains x where "s_ctrl_xfer (ua_st a) = Some x" and
    "usb_control_begin True setup8 None 0 max_in a =
       Some (a\<lparr>ua_st := (ua_st a)\<lparr>s_ctrl_xfer := Some (x\<lparr>data_buffer := setup8 @ drop 8 (data_buffer x), num_bytes := 8 + nat max_in\<rparr>)\<rparr>,
                ua_ctrl_busy := True\<rparr>, Waiting)"
proof -
  from assms(1) obtain h x where "s_dev (ua_st a) = Some h" "s_ctrl_xfer (ua_st a) = Some x" "length (data_buffer x) = 1032"
      "\<not> ua_ctrl_busy a" by (auto simp: ctrl_ready_def)
  with that assms(2-4) show ?thesis
    by (simp add: usb_control_begin_def memcpy_at_def ctrl_stage_out_def ctrl_data_len_def Let_def)
qed

lemma control_complete_left:
  assumes "ua_ctrl_busy a" and "s_ctrl_xfer (ua_st a) \<noteq> None" and "s_dev (ua_st a) \<noteq> None" and "delivers c d"
  shows "\<exists>a'. usb_control_complete c a = Some a' \<and> ctrl_left d a'"
  using assms
  by (auto simp: usb_control_complete_def ctrl_left_def ctrl_ready_def ctrl_transfer_cb_def delivers_def)

text \<open>With a semaphore that is up, the call returns at once, with the earlier transfer's data.\<close>

lemma control_call_left:
  assumes "ctrl_left d0 a" and "read_ok (setup8, max_in, c, d)"
  shows "\<exists>a1 a2 a3. usb_control_begin True setup8 None 0 max_in a = Some (a1, Waiting) \<and>
     usb_control_end True max_in a1 = Some (a2, int (min (length d0) (nat max_in)), take (nat max_in) d0) \<and>
     usb_control_complete c a2 = Some a3 \<and> ctrl_left d a3"
proof -
  have req: "length setup8 = 8" "0 < max_in" "max_in \<le> 1024" "delivers c d" using assms(2) by (auto simp: read_ok_def)
  have left: "ctrl_ready a" "ua_ctrl_done a" "s_ctrl_status (ua_st a) = 0" "s_ctrl_actual (ua_st a) = int (length d0)" "length d0 \<le> 1024"
    using assms(1) by (auto simp: ctrl_left_def)
  obtain x where x: "s_ctrl_xfer (ua_st a) = Some x" and sub: "usb_control_begin True setup8 None 0 max_in a =
       Some (a\<lparr>ua_st := (ua_st a)\<lparr>s_ctrl_xfer := Some (x\<lparr>data_buffer := setup8 @ drop 8 (data_buffer x), num_bytes := 8 + nat max_in\<rparr>)\<rparr>,
                ua_ctrl_busy := True\<rparr>, Waiting)" (is "_ = Some (?a1, _)")
    using control_begin_ready [OF left(1) req(1-3)] .
  have buf: "length (data_buffer x) = 1032" "take (length d0) (drop 8 (data_buffer x)) = d0" "s_dev (ua_st a) \<noteq> None"
    using assms(1) x by (auto simp: ctrl_left_def ctrl_ready_def)
  let ?k = "min (length d0) (nat max_in)"
  have "take ?k (drop 8 (data_buffer x)) = take (nat max_in) d0"
    using buf(2) by (metis min.commute take_take)
  then have "mem_read (setup8 @ drop 8 (data_buffer x)) 8 ?k = Some (take (nat max_in) d0)"
    using req(1) buf(1) left(5) by (simp add: mem_read_def)
  moreover have "nat (if int (length d0) < max_in then int (length d0) else max_in) = ?k" using req(2) by auto
  ultimately have "usb_control_end True max_in ?a1 = Some (?a1\<lparr>ua_ctrl_done := False\<rparr>, int ?k, take (nat max_in) d0)"
    using left req(2) by (auto simp: usb_control_end_def Let_def)
  moreover have "\<exists>a3. usb_control_complete c (?a1\<lparr>ua_ctrl_done := False\<rparr>) = Some a3 \<and> ctrl_left d a3"
    using buf(3) req(4) by (intro control_complete_left) auto
  ultimately show ?thesis using sub by blast
qed

text \<open>What the calls after the first return: the data of the call before, cut to their own buffer.\<close>

definition lagging :: "(byte list \<times> int \<times> ctrl_completion \<times> byte list) list \<Rightarrow> byte list \<Rightarrow> (int \<times> byte list) list" where
  "lagging reqs d0 =
     map2 (\<lambda>(_, max_in, _, _) d. (int (min (length d) (nat max_in)), take (nat max_in) d))
       reqs (d0 # map (\<lambda>(_, _, _, d). d) reqs)"

definition late_input :: "byte list \<times> int \<times> ctrl_completion \<times> byte list \<Rightarrow> byte list \<times> int \<times> ctrl_completion" where
  "late_input = (\<lambda>(setup8, max_in, c, d). (setup8, max_in, c))"

lemma control_late_left:
  "ctrl_left d0 a \<Longrightarrow> list_all read_ok reqs \<Longrightarrow>
     \<exists>a'. usb_control_late (map late_input reqs) a = Some (a', lagging reqs d0)"
proof (induction reqs arbitrary: d0 a)
  case Nil
  then show ?case by (simp add: lagging_def)
next
  case (Cons req reqs)
  obtain setup8 max_in c d where req: "req = (setup8, max_in, c, d)" by (cases req)
  from Cons.prems(2) req have "read_ok (setup8, max_in, c, d)" by simp
  with control_call_left [OF Cons.prems(1)] obtain a1 a2 a3 where
    step: "usb_control_begin True setup8 None 0 max_in a = Some (a1, Waiting)"
      "usb_control_end True max_in a1 = Some (a2, int (min (length d0) (nat max_in)), take (nat max_in) d0)"
      "usb_control_complete c a2 = Some a3" "ctrl_left d a3" by blast
  with Cons.IH [OF step(4)] Cons.prems(2) obtain a' where "usb_control_late (map late_input reqs) a3 = Some (a', lagging reqs d)"
    by auto
  with step(1-3) req show ?case by (simp add: late_input_def lagging_def)
qed

section \<open>Properties\<close>


definition async_example :: usb_async where
  "async_example = \<lparr>ua_st = mouse_state, ua_rx = [], ua_out_done = False, ua_ctrl_done = False,
     ua_in_busy = False, ua_out_busy = False, ua_ctrl_busy = False\<rparr>"


text \<open>
  C24. One control transfer that is answered after its time-out puts all later ones out of step. The
  semaphore its completion raises is never lowered before the next transfer is submitted: the first
  call fails, and from then on every call returns at once, with the data the device gave to the call
  before it.
\<close>

theorem late_completion_shifts_replies:
  assumes "usb_quiet a" and "ctrl_ready a" and "list_all read_ok (req # reqs)"
  shows "\<exists>a'. usb_control_late (map late_input (req # reqs)) a =
     Some (a', (-1, []) # lagging reqs (snd (snd (snd req))))"
proof -
  obtain setup8 max_in c d where req: "req = (setup8, max_in, c, d)" by (cases req)
  with assms(3) have ok: "length setup8 = 8" "0 < max_in" "max_in \<le> 1024" "delivers c d" "list_all read_ok reqs"
    by (auto simp: read_ok_def)
  obtain x where x: "usb_control_begin True setup8 None 0 max_in a =
       Some (a\<lparr>ua_st := (ua_st a)\<lparr>s_ctrl_xfer := Some (x\<lparr>data_buffer := setup8 @ drop 8 (data_buffer x), num_bytes := 8 + nat max_in\<rparr>)\<rparr>,
                ua_ctrl_busy := True\<rparr>, Waiting)" (is "_ = Some (?a1, _)")
    using control_begin_ready [OF assms(2) ok(1-3)] by metis
  have "usb_control_end True max_in ?a1 = Some (?a1, -1, [])" using assms(1) by (simp add: usb_control_end_def usb_quiet_def)
  moreover obtain a3 where a3: "usb_control_complete c ?a1 = Some a3" "ctrl_left d a3"
    using control_complete_left [of ?a1 c d] assms(2) ok(4) by (auto simp: ctrl_ready_def)
  moreover obtain a' where "usb_control_late (map late_input reqs) a3 = Some (a', lagging reqs d)"
    using control_late_left [OF a3(2) ok(5)] by blast
  ultimately show ?thesis using x req by (simp add: late_input_def)
qed

definition late_example :: "byte list \<Rightarrow> byte list \<times> int \<times> ctrl_completion \<times> byte list" where
  "late_example d = (replicate 8 0, 4, \<lparr>cc_status = 0, cc_actual = 8 + length d,
     cc_buffer = replicate 8 0 @ d @ replicate (1024 - length d) 0\<rparr>, d)"

theorem late_completion_shifts_replies_witness:
  "\<exists>a'. usb_control_late (map late_input [late_example [1], late_example [2, 3], late_example [4]]) async_example =
     Some (a', [(-1, []), (1, [1]), (2, [2, 3])])"
proof -
  have "usb_quiet async_example" "ctrl_ready async_example"
    by (simp_all add: usb_quiet_def ctrl_ready_def async_example_def mouse_state_def)
  moreover have "list_all read_ok [late_example [1], late_example [2, 3], late_example [4]]"
    by (simp add: late_example_def read_ok_def delivers_def)
  ultimately show ?thesis
    using late_completion_shifts_replies [of async_example "late_example [1]" "[late_example [2, 3], late_example [4]]"]
    by (simp add: lagging_def late_example_def)
qed

end
