(* ===== verification/Usb_Tasks.thy ===== *)
theory Usb_Tasks
  imports Usb_Async
begin

text \<open>
  The tasks of the USB driver (\<open>esp-codes/main/usb_driver.c\<close>) and a task of the session layer that
  calls it. The client task runs the transfer callbacks and \<open>client_event_cb\<close>, in the order the library
  hands them out; the caller submits, waits and goes on in between. The watchdog only reads.
\<close>

section \<open>The client task\<close>

datatype client_work =
    Cb_In int nat "byte list"
  | Cb_Out int
  | Cb_Ctrl ctrl_completion
  | Cb_Event client_event

fun client_dispatch :: "(nat \<Rightarrow> byte list option) \<Rightarrow> int \<Rightarrow> client_work \<Rightarrow> usb_async \<Rightarrow> usb_async option" where
  "client_dispatch alloc no_device (Cb_In status actual buffer) a = usb_recv_complete no_device status actual buffer a"
| "client_dispatch alloc no_device (Cb_Out status) a = usb_send_complete status a"
| "client_dispatch alloc no_device (Cb_Ctrl c) a = usb_control_complete c a"
| "client_dispatch alloc no_device (Cb_Event e) a = do {
     (st', calls) \<leftarrow> client_event_cb alloc e (ua_st a);
     Some (a\<lparr>ua_st := st'\<rparr>) }"

text \<open>One round of \<open>usb_client_task\<close>: \<open>usb_host_client_handle_events\<close> works off what has come up.\<close>

definition usb_client_round :: "(nat \<Rightarrow> byte list option) \<Rightarrow> int \<Rightarrow> client_work list \<Rightarrow> usb_async \<Rightarrow> usb_async option" where
  "usb_client_round alloc no_device ws a = fold_opt (client_dispatch alloc no_device) ws a"

section \<open>The watchdog task\<close>

datatype watchdog_line =
    No_Device u32 bool bool bool u8 u8 bool u32
  | Hub_Only u32
  | Enumerated nat
  | Device_Address u8

text \<open>
  One round of \<open>usb_watchdog_task\<close>: the lines it logs. \<open>hprt\<close> and \<open>wrap_otg\<close> are the two hardware
  registers, \<open>heap\<close> the free heap; \<open>devs\<close> is what \<open>usb_host_device_addr_list_fill\<close> left in
  \<open>dev_addr_list\<close> and \<open>num_devs\<close>, \<open>None\<close> when it failed.
\<close>

definition usb_watchdog_round :: "u32 \<Rightarrow> u32 \<Rightarrow> u32 \<Rightarrow> (byte list \<times> nat) option \<Rightarrow> usb_state \<Rightarrow> watchdog_line list option" where
  "usb_watchdog_round hprt wrap_otg heap devs st =
     (let port_conn = drop_bit 0 hprt AND 1 \<noteq> 0;
          port_ena = drop_bit 2 hprt AND 1 \<noteq> 0;
          port_pwr = drop_bit 12 hprt AND 1 \<noteq> 0;
          line_sts = ucast (drop_bit 10 hprt AND 3);
          speed = ucast (drop_bit 17 hprt AND 3);
          phy_sel_internal = drop_bit 2 wrap_otg AND 1 \<noteq> 0;
          status =
            (if \<not> s_hub_connected st \<and> s_dev st = None
             then [No_Device hprt port_conn port_ena port_pwr line_sts speed phy_sel_internal heap]
             else if s_hub_connected st \<and> s_dev st = None then [Hub_Only hprt] else [])
      in case devs of
           None \<Rightarrow> Some status
         | Some (dev_addr_list, num_devs) \<Rightarrow>
             if num_devs > 0 then do {
               addrs \<leftarrow> mem_read dev_addr_list 0 num_devs;
               Some (status @ Enumerated num_devs # map Device_Address addrs) }
             else Some (status @ [Enumerated 0]))"

section \<open>A caller and the client task\<close>

text \<open>
  Where the calling task is: outside the driver, or waiting in one of the three blocking calls with
  the arguments it needs to go on. A session in USB/IP mode calls the driver from one task.
\<close>

datatype drv_at = Drv_Idle | Drv_Recv nat | Drv_Send | Drv_Ctrl bool int

text \<open>
  What the library promises of what it hands out: a callback only for a transfer in flight, which moved
  no more than its buffer holds; a new downstream device only when there is none; and a device is
  reported gone when its transfers have been returned.
\<close>

fun work_ok :: "client_work \<Rightarrow> usb_async \<Rightarrow> bool" where
  "work_ok (Cb_In status actual buffer) a \<longleftrightarrow> ua_in_busy a \<and> actual \<le> length buffer"
| "work_ok (Cb_Out status) a \<longleftrightarrow> ua_out_busy a"
| "work_ok (Cb_Ctrl c) a \<longleftrightarrow> ua_ctrl_busy a \<and>
     (case s_ctrl_xfer (ua_st a) of Some x \<Rightarrow> completion_ok (num_bytes x - 8) c | None \<Rightarrow> True)"
| "work_ok (Cb_Event (NEW_DEV (Some h) cls cfg)) a \<longleftrightarrow> cls = 0x09 \<or> s_dev (ua_st a) = None"
| "work_ok (Cb_Event (NEW_DEV None cls cfg)) a \<longleftrightarrow> True"
| "work_ok (Cb_Event DEV_GONE) a \<longleftrightarrow> \<not> ua_in_busy a \<and> \<not> ua_out_busy a \<and> \<not> ua_ctrl_busy a"

text \<open>
  With \<open>prompt\<close>, a control call whose semaphore is up goes on before the client task handles the removal
  of the device.
\<close>

fun drv_after :: "usb_wait \<Rightarrow> drv_at \<Rightarrow> drv_at" where
  "drv_after Waiting at = at"
| "drv_after (Returned r) at = Drv_Idle"

inductive drv_step :: "(nat \<Rightarrow> byte list option) \<Rightarrow> int \<Rightarrow> bool \<Rightarrow> drv_at \<times> usb_async \<Rightarrow> drv_at \<times> usb_async \<Rightarrow> bool"
  for alloc :: "nat \<Rightarrow> byte list option" and no_device :: int and prompt :: bool where
  recv_call: "usb_recv_begin ok a = (a', w) \<Longrightarrow> drv_step alloc no_device prompt (Drv_Idle, a) (drv_after w (Drv_Recv max_len), a')"
| send_call: "usb_send_begin ok buf (length buf) a = Some (a', w) \<Longrightarrow> drv_step alloc no_device prompt (Drv_Idle, a) (drv_after w Drv_Send, a')"
| ctrl_call: "usb_control_begin ok setup8 out_data out_len max_in a = Some (a', w) \<Longrightarrow> length setup8 = 8 \<Longrightarrow>
     out_stage_ok out_data out_len \<Longrightarrow> drv_step alloc no_device prompt (Drv_Idle, a) (drv_after w (Drv_Ctrl has_in_buf max_in), a')"
| recv_goes_on: "usb_recv_end max_len a = Some (a', r, bs) \<Longrightarrow> drv_step alloc no_device prompt (Drv_Recv max_len, a) (Drv_Idle, a')"
| send_goes_on: "usb_send_end a = (a', r) \<Longrightarrow> drv_step alloc no_device prompt (Drv_Send, a) (Drv_Idle, a')"
| ctrl_goes_on: "usb_control_end has_in_buf max_in a = Some (a', r, bs) \<Longrightarrow>
     drv_step alloc no_device prompt (Drv_Ctrl has_in_buf max_in, a) (Drv_Idle, a')"
| client: "client_dispatch alloc no_device w a = Some a' \<Longrightarrow> work_ok w a \<Longrightarrow>
     (prompt \<and> w = Cb_Event DEV_GONE \<Longrightarrow> \<forall>b m. at \<noteq> Drv_Ctrl b m) \<Longrightarrow> drv_step alloc no_device prompt (at, a) (at, a')"

definition async_initial :: usb_async where
  "async_initial = \<lparr>ua_st = usb_initial, ua_rx = [], ua_out_done = False, ua_ctrl_done = False,
     ua_in_busy = False, ua_out_busy = False, ua_ctrl_busy = False\<rparr>"

definition drv_start :: "drv_at \<times> usb_async \<Rightarrow> bool" where
  "drv_start p \<longleftrightarrow> p = (Drv_Idle, async_initial)"

section \<open>Invariant\<close>

definition async_inv :: "usb_async \<Rightarrow> bool" where
  "async_inv a \<longleftrightarrow> usb_inv (ua_st a) \<and> list_all frame_ok (ua_rx a) \<and> length (ua_rx a) \<le> USB_RX_QUEUE_DEPTH \<and>
     0 \<le> s_ctrl_actual (ua_st a) \<and> s_ctrl_actual (ua_st a) \<le> 1024 \<and> 0 \<le> s_ctrl_status (ua_st a) \<and>
     (ua_ctrl_busy a \<longrightarrow> (\<exists>x. s_ctrl_xfer (ua_st a) = Some x \<and> num_bytes x \<le> 1032))"

definition drv_inv :: "bool \<Rightarrow> drv_at \<times> usb_async \<Rightarrow> bool" where
  "drv_inv prompt = (\<lambda>(at, a). async_inv a \<and>
     (\<forall>b m. prompt \<longrightarrow> at = Drv_Ctrl b m \<longrightarrow> s_ctrl_xfer (ua_st a) \<noteq> None))"

text \<open>Submitting changes the statics as the function of \<open>Usb_Driver\<close> does when nothing completes.\<close>

lemma usb_control_begin_state:
  "map_option (\<lambda>(a', w). ua_st a') (usb_control_begin ok setup8 out_data out_len max_in a) =
     map_option fst (usb_drv_control (ua_st a) ok None setup8 out_data out_len has_in_buf max_in)"
  by (auto simp: usb_control_begin_def usb_drv_control_def Let_def split: option.splits bind_splits)

lemma usb_send_begin_state:
  "map_option (\<lambda>(a', w). ua_st a') (usb_send_begin ok buf len a) =
     map_option fst (usb_drv_send_blocking (ua_st a) ok None buf len)"
  by (auto simp: usb_send_begin_def usb_drv_send_blocking_def Let_def split: option.splits bind_splits)

text \<open>Submitting a control transfer replaces the transfer, and at most marks it as in flight.\<close>

lemma usb_control_begin_cases:
  assumes "usb_control_begin ok setup8 out_data out_len max_in a = Some (a', w)"
  obtains (none) "a' = a" "w = Returned (-1)"
  | (refused) x x' where "s_ctrl_xfer (ua_st a) = Some x" "a' = a\<lparr>ua_st := (ua_st a)\<lparr>s_ctrl_xfer := Some x'\<rparr>\<rparr>"
      "num_bytes x' = num_bytes x \<or> num_bytes x' \<le> 1032" "w = Returned (-1)"
  | (taken) x' where "a' = a\<lparr>ua_st := (ua_st a)\<lparr>s_ctrl_xfer := Some x'\<rparr>, ua_ctrl_busy := True\<rparr>" "num_bytes x' \<le> 1032" "w = Waiting"
proof (cases "s_dev (ua_st a) = None \<or> s_ctrl_xfer (ua_st a) = None")
  case True
  with assms have "a' = a" "w = Returned (-1)" by (auto simp: usb_control_begin_def Let_def split: option.splits)
  then show ?thesis by (rule none)
next
  case False
  then obtain h x where x: "s_dev (ua_st a) = Some h" "s_ctrl_xfer (ua_st a) = Some x" by auto
  with assms obtain b n where "a' = a\<lparr>ua_st := (ua_st a)\<lparr>s_ctrl_xfer := Some (x\<lparr>data_buffer := b\<rparr>)\<rparr>\<rparr> \<and> w = Returned (-1) \<or>
      n \<le> 1024 \<and> a' = a\<lparr>ua_st := (ua_st a)\<lparr>s_ctrl_xfer := Some (x\<lparr>data_buffer := b, num_bytes := 8 + n\<rparr>)\<rparr>\<rparr> \<and> w = Returned (-1) \<or>
      n \<le> 1024 \<and> a' = a\<lparr>ua_st := (ua_st a)\<lparr>s_ctrl_xfer := Some (x\<lparr>data_buffer := b, num_bytes := 8 + n\<rparr>)\<rparr>, ua_ctrl_busy := True\<rparr> \<and> w = Waiting"
    unfolding usb_control_begin_def Let_def x by (auto simp: bind_eq_Some_conv not_less split: if_split_asm)
  then show ?thesis
    using refused [OF x(2), of "x\<lparr>data_buffer := b\<rparr>"] refused [OF x(2), of "x\<lparr>data_buffer := b, num_bytes := 8 + n\<rparr>"]
      taken [of "x\<lparr>data_buffer := b, num_bytes := 8 + n\<rparr>"] by auto
qed

lemma usb_send_begin_frame:
  assumes "usb_send_begin ok buf len a = Some (a', w)"
  shows "ua_rx a' = ua_rx a" "s_ctrl_actual (ua_st a') = s_ctrl_actual (ua_st a)" "s_ctrl_status (ua_st a') = s_ctrl_status (ua_st a)"
    "s_ctrl_xfer (ua_st a') = s_ctrl_xfer (ua_st a)" "ua_ctrl_busy a' = ua_ctrl_busy a"
  using assms by (auto simp: usb_send_begin_def fill_out_xfer_def Let_def bind_eq_Some_conv split: option.splits if_splits)

lemma control_begin_inv:
  assumes inv: "async_inv a" and call: "length setup8 = 8" "out_stage_ok out_data out_len"
  shows "\<exists>a' w. usb_control_begin ok setup8 out_data out_len max_in a = Some (a', w) \<and> async_inv a'"
proof -
  have "ctrl_outcome_ok True max_in (usb_drv_control (ua_st a) ok None setup8 out_data out_len True max_in)"
    using inv call by (intro usb_drv_control_safe) (simp_all add: async_inv_def)
  then obtain st' r bs where "usb_drv_control (ua_st a) ok None setup8 out_data out_len True max_in = Some (st', r, bs)" "usb_inv st'"
    by (auto simp: ctrl_outcome_ok_def split: option.splits)
  with usb_control_begin_state [of ok setup8 out_data out_len max_in a True]
  obtain a' w where a': "usb_control_begin ok setup8 out_data out_len max_in a = Some (a', w)" "usb_inv (ua_st a')" by auto
  from a'(1) have "async_inv a'"
    by (cases rule: usb_control_begin_cases) (use inv a'(2) in \<open>auto simp: async_inv_def\<close>)
  with a'(1) show ?thesis by blast
qed

lemma send_begin_inv:
  assumes inv: "async_inv a"
  shows "\<exists>a' w. usb_send_begin ok buf (length buf) a = Some (a', w) \<and> async_inv a'"
proof -
  have inv': "usb_inv (ua_st a)" using inv by (simp add: async_inv_def)
  obtain st' r where "usb_drv_send_blocking (ua_st a) ok None buf (length buf) = Some (st', r)"
    using usb_drv_send_blocking_safe [OF inv', of "length buf" buf] by blast
  with usb_drv_send_blocking_inv [OF inv'] usb_send_begin_state [of ok buf "length buf" a]
  obtain a' w where a': "usb_send_begin ok buf (length buf) a = Some (a', w)" "usb_inv (ua_st a')" by fastforce
  with inv usb_send_begin_frame [OF a'(1)] show ?thesis by (auto simp: async_inv_def)
qed

text \<open>When a control call that goes on has to use a transfer that is no longer there.\<close>

definition ctrl_faults :: "bool \<Rightarrow> int \<Rightarrow> usb_async \<Rightarrow> bool" where
  "ctrl_faults has_in_buf max_in a \<longleftrightarrow> ua_ctrl_done a \<and> s_ctrl_status (ua_st a) = 0 \<and> has_in_buf \<and> 0 < max_in \<and>
     0 < s_ctrl_actual (ua_st a) \<and> s_ctrl_xfer (ua_st a) = None"

lemma control_end_outcome:
  assumes "async_inv a"
  shows "case usb_control_end has_in_buf max_in a of
       None \<Rightarrow> ctrl_faults has_in_buf max_in a
     | Some (a', r, bs) \<Rightarrow> \<not> ctrl_faults has_in_buf max_in a \<and> async_inv a' \<and> ua_st a' = ua_st a \<and>
         (if has_in_buf \<and> 0 < max_in \<and> 0 < r then r \<le> max_in \<and> length bs = nat r else bs = [])"
proof -
  let ?n = "s_ctrl_actual (ua_st a)"
  have n: "0 \<le> ?n" "?n \<le> 1024" "0 \<le> s_ctrl_status (ua_st a)" using assms by (auto simp: async_inv_def)
  have low: "async_inv (a\<lparr>ua_ctrl_done := False\<rparr>)" using assms by (simp add: async_inv_def)
  show ?thesis
  proof (cases "ua_ctrl_done a \<and> s_ctrl_status (ua_st a) = 0 \<and> has_in_buf \<and> 0 < max_in \<and> 0 < ?n")
    case False
    then show ?thesis using n assms low by (auto simp: usb_control_end_def ctrl_faults_def Let_def)
  next
    case True
    show ?thesis
    proof (cases "s_ctrl_xfer (ua_st a)")
      case None
      with True show ?thesis by (simp add: usb_control_end_def ctrl_faults_def Let_def)
    next
      case (Some x)
      then have "length (data_buffer x) = 1032" using assms by (simp add: async_inv_def usb_inv_def xfer_ok_def CTRL_DATA_MAX_def)
      with True Some n low show ?thesis by (simp add: usb_control_end_def ctrl_faults_def mem_read_def Let_def) linarith
    qed
  qed
qed

lemma recv_end_outcome:
  assumes "async_inv a"
  shows "\<exists>a' r bs. usb_recv_end max_len a = Some (a', r, bs) \<and> async_inv a' \<and> ua_st a' = ua_st a \<and>
     (r < 0 \<and> bs = [] \<or> r = int (length bs) \<and> length bs \<le> max_len)"
  using assms
  by (cases "ua_rx a") (auto simp: usb_recv_end_def async_inv_def frame_ok_def mem_read_def Let_def)

lemma client_event_cb_frame:
  assumes "client_event_cb alloc e st = Some (st', calls)"
  shows "s_ctrl_actual st' = s_ctrl_actual st" "s_ctrl_status st' = s_ctrl_status st"
proof -
  have walk: "s_ctrl_actual (fold walk_ep eps st) = s_ctrl_actual st" "s_ctrl_status (fold walk_ep eps st) = s_ctrl_status st" for eps st
    by (induction eps arbitrary: st) (simp_all add: walk_ep_def Let_def)
  show "s_ctrl_actual st' = s_ctrl_actual st" "s_ctrl_status st' = s_ctrl_status st"
    using assms
    by (induction alloc e st rule: client_event_cb.induct)
      (auto simp: open_pipes_def alloc_in_def alloc_out_def alloc_ctrl_def walk bind_eq_Some_conv Let_def split: if_splits option.splits)
qed

text \<open>The client task keeps the invariant; only a removal takes the control transfer away.\<close>

lemma dispatch_callback_inv:
  assumes inv: "async_inv a" and ok: "work_ok w a" and cb: "\<forall>e. w \<noteq> Cb_Event e"
  shows "\<exists>a'. client_dispatch alloc no_device w a = Some a' \<and> async_inv a' \<and>
     (s_ctrl_xfer (ua_st a') = None \<longleftrightarrow> s_ctrl_xfer (ua_st a) = None)"
proof (cases w)
  case (Cb_In status actual buffer)
  then have "in_transfer_cb no_device status actual buffer \<noteq> None"
    using ok by (auto simp: in_transfer_cb_def mem_read_def Let_def)
  then obtain f where f: "in_transfer_cb no_device status actual buffer = Some f" by blast
  moreover have "f = Some g \<Longrightarrow> frame_ok g" for g using f in_transfer_cb_frame_ok by blast
  ultimately show ?thesis using Cb_In ok inv
    by (auto simp: usb_recv_complete_def async_inv_def split: option.split)
next
  case (Cb_Out status)
  with ok inv show ?thesis by (auto simp: usb_send_complete_def async_inv_def) (simp_all add: out_transfer_cb_def)
next
  case (Cb_Ctrl c)
  then obtain x where x: "s_ctrl_xfer (ua_st a) = Some x" "num_bytes x \<le> 1032" "completion_ok (num_bytes x - 8) c" "ua_ctrl_busy a"
    using ok inv by (auto simp: async_inv_def)
  moreover have "usb_inv ((ua_st a)\<lparr>s_ctrl_xfer := Some (x\<lparr>data_buffer := cc_buffer c\<rparr>)\<rparr>)"
    using inv x by (intro ctrl_xfer_inv) (auto simp: async_inv_def completion_ok_def usb_inv_def xfer_ok_def)
  ultimately show ?thesis
    using Cb_Ctrl inv by (auto simp: usb_control_complete_def async_inv_def completion_ok_def) (auto simp: ctrl_transfer_cb_def)
next
  case (Cb_Event e)
  then show ?thesis using cb by simp
qed

lemma dispatch_event_inv:
  assumes alloc: "alloc_spec alloc" and inv: "async_inv a" and ok: "work_ok (Cb_Event e) a"
    and run: "client_dispatch alloc no_device (Cb_Event e) a = Some a'"
  shows "async_inv a' \<and> (s_ctrl_xfer (ua_st a) \<noteq> None \<longrightarrow> e \<noteq> DEV_GONE \<longrightarrow> s_ctrl_xfer (ua_st a') = s_ctrl_xfer (ua_st a))"
proof -
  obtain st' calls where e: "client_event_cb alloc e (ua_st a) = Some (st', calls)" "a' = a\<lparr>ua_st := st'\<rparr>"
    using run by (auto simp: bind_eq_Some_conv)
  have inv': "usb_inv (ua_st a)" using inv by (simp add: async_inv_def)
  have "usb_inv st'" using alloc inv' e(1) by (rule client_event_cb_inv) (use ok in auto)
  moreover have keep: "s_ctrl_xfer st' = s_ctrl_xfer (ua_st a)" if "s_ctrl_xfer (ua_st a) \<noteq> None" "e \<noteq> DEV_GONE"
  proof -
    have "s_dev (ua_st a) \<noteq> None" using that(1) inv' by (auto simp: usb_inv_def xfer_ok_def)
    with that(2) ok e(1) show ?thesis by (cases e; cases "case e of NEW_DEV h _ _ \<Rightarrow> h | DEV_GONE \<Rightarrow> None") auto
  qed
  moreover have "ua_ctrl_busy a \<Longrightarrow> e \<noteq> DEV_GONE" using ok by auto
  ultimately show ?thesis using inv e(2) client_event_cb_frame [OF e(1)] by (auto simp: async_inv_def)
qed

lemma drv_step_inv:
  assumes step: "drv_step alloc no_device prompt p p'" and alloc: "alloc_spec alloc" and inv: "drv_inv prompt p"
  shows "drv_inv prompt p'"
  using step inv
proof cases
  case (recv_call ok a a' w max_len)
  then have "async_inv a'" using inv by (auto simp: drv_inv_def async_inv_def usb_recv_begin_def split: if_splits)
  then show ?thesis using recv_call by (cases w) (simp_all add: drv_inv_def)
next
  case (send_call ok buf a a' w)
  then have "async_inv a'" using inv send_begin_inv [of a ok buf] by (auto simp: drv_inv_def)
  then show ?thesis using send_call by (cases w) (simp_all add: drv_inv_def)
next
  case (ctrl_call ok setup8 out_data out_len max_in a a' w has_in_buf)
  then have "async_inv a'" using inv control_begin_inv [of a setup8 out_data out_len ok max_in] by (auto simp: drv_inv_def)
  then show ?thesis using ctrl_call(1,2) by (cases rule: usb_control_begin_cases [OF ctrl_call(3)]) (simp_all add: drv_inv_def)
next
  case (recv_goes_on max_len a a' r bs)
  then show ?thesis using inv recv_end_outcome [of a max_len] by (auto simp: drv_inv_def)
next
  case (send_goes_on a a' r)
  then show ?thesis using inv by (auto simp: drv_inv_def async_inv_def usb_send_end_def split: if_splits)
next
  case (ctrl_goes_on has_in_buf max_in a a' r bs)
  then show ?thesis using inv control_end_outcome [of a has_in_buf max_in] by (auto simp: drv_inv_def)
next
  case (client w a a' at)
  have a: "async_inv a" using inv client(1) by (simp add: drv_inv_def)
  show ?thesis
  proof (cases "\<exists>e. w = Cb_Event e")
    case False
    then have "\<forall>e. w \<noteq> Cb_Event e" by blast
    from dispatch_callback_inv [OF a client(4) this, of alloc no_device] client(3)
    have "async_inv a'" "s_ctrl_xfer (ua_st a') = None \<longleftrightarrow> s_ctrl_xfer (ua_st a) = None" by auto
    then show ?thesis using client(1,2) inv by (simp add: drv_inv_def del: not_None_eq)
  next
    case True
    then obtain e where e: "w = Cb_Event e" by blast
    have "async_inv a'" "s_ctrl_xfer (ua_st a) \<noteq> None \<longrightarrow> e \<noteq> DEV_GONE \<longrightarrow> s_ctrl_xfer (ua_st a') = s_ctrl_xfer (ua_st a)"
      using dispatch_event_inv [OF alloc a, of e no_device a'] client(3,4) e by blast+
    then show ?thesis using client(1,2,5) e inv by (cases "e = DEV_GONE") (auto simp: drv_inv_def)
  qed
qed

lemma drv_start_inv: "drv_start p \<Longrightarrow> drv_inv prompt p"
  by (simp add: drv_start_def drv_inv_def async_inv_def async_initial_def usb_inv_initial) (simp add: usb_initial_def)

interpretation drv_run: inductive_invariant drv_start "drv_step alloc no_device prompt"
  "\<lambda>p. alloc_spec alloc \<longrightarrow> drv_inv prompt p" for alloc no_device prompt
  by unfold_locales (use drv_start_inv drv_step_inv in blast)+

section \<open>Properties\<close>


lemma async_example_reach: "reach drv_start (drv_step zero_alloc no_device prompt) (Drv_Idle, async_example)"
proof -
  have "client_dispatch zero_alloc no_device (Cb_Event (NEW_DEV (Some 5) 0 mouse_config)) async_initial = Some async_example"
    unfolding client_dispatch.simps async_initial_def usb_async.simps mouse_event by (simp add: async_example_def)
  moreover have "work_ok (Cb_Event (NEW_DEV (Some 5) 0 mouse_config)) async_initial"
    by (simp add: async_initial_def usb_initial_def)
  ultimately have "drv_step zero_alloc no_device prompt (Drv_Idle, async_initial) (Drv_Idle, async_example)"
    by (rule drv_step.client) simp
  moreover have "reach drv_start (drv_step zero_alloc no_device prompt) (Drv_Idle, async_initial)"
    by (rule reach_start) (simp add: drv_start_def)
  ultimately show ?thesis by (rule reach_step [rotated])
qed


text \<open>
  C25. The faulting case occurs. When the client task finds the completion of a control read and the
  removal of the device in the same round, the call that waits for the read goes on with \<open>s_ctrl_xfer\<close>
  cleared, and copies the data from a null pointer.
\<close>

theorem removal_faults_control:
  assumes run: "reach drv_start (drv_step alloc no_device False) (Drv_Idle, a)"
    and ready: "ctrl_ready a" "\<not> ua_in_busy a" "\<not> ua_out_busy a"
    and req: "read_ok (setup8, max_in, c, d)" "d \<noteq> []" "int (length d) \<le> max_in"
  shows "\<exists>a1 a2. usb_control_begin True setup8 None 0 max_in a = Some (a1, Waiting) \<and>
     usb_client_round alloc no_device [Cb_Ctrl c, Cb_Event DEV_GONE] a1 = Some a2 \<and>
     reach drv_start (drv_step alloc no_device False) (Drv_Ctrl True max_in, a2) \<and>
     usb_control_end True max_in a2 = None"
proof -
  have r: "length setup8 = 8" "0 < max_in" "max_in \<le> 1024" "delivers c d" using req(1) by (auto simp: read_ok_def)
  obtain x where x: "s_ctrl_xfer (ua_st a) = Some x" and sub: "usb_control_begin True setup8 None 0 max_in a =
       Some (a\<lparr>ua_st := (ua_st a)\<lparr>s_ctrl_xfer := Some (x\<lparr>data_buffer := setup8 @ drop 8 (data_buffer x), num_bytes := 8 + nat max_in\<rparr>)\<rparr>,
                ua_ctrl_busy := True\<rparr>, Waiting)" (is "_ = Some (?a1, _)")
    using control_begin_ready [OF ready(1) r(1-3)] .
  have s1: "reach drv_start (drv_step alloc no_device False) (Drv_Ctrl True max_in, ?a1)"
    using drv_step.ctrl_call [OF sub r(1), of alloc no_device False True] run by (auto simp: out_stage_ok_def intro: reach_step)
  obtain a2 where a2: "usb_control_complete c ?a1 = Some a2" "ctrl_left d a2" "\<not> ua_in_busy a2" "\<not> ua_out_busy a2"
    using control_complete_left [of ?a1 c d] ready r(4) x by (auto simp: ctrl_ready_def usb_control_complete_def)
  have "work_ok (Cb_Ctrl c) ?a1" using r req(3) by (auto simp: completion_ok_def delivers_def CTRL_DATA_MAX_def)
  then have s2: "reach drv_start (drv_step alloc no_device False) (Drv_Ctrl True max_in, a2)"
    using a2(1) s1 by (intro reach_step [OF s1] drv_step.client [where w = "Cb_Ctrl c"]) auto
  define a3 where "a3 = a2\<lparr>ua_st := (ua_st a2)\<lparr>s_in_xfer := None, s_out_xfer := None, s_ctrl_xfer := None,
    s_dev := None, s_in_ep := 0, s_out_ep := 0\<rparr>\<rparr>"
  have gone: "client_dispatch alloc no_device (Cb_Event DEV_GONE) a2 = Some a3"
    using a2(2) by (auto simp: ctrl_left_def ctrl_ready_def a3_def)
  moreover have "reach drv_start (drv_step alloc no_device False) (Drv_Ctrl True max_in, a3)"
    using gone a2 by (intro reach_step [OF s2] drv_step.client [where w = "Cb_Event DEV_GONE"])
      (auto simp: ctrl_left_def ctrl_ready_def)
  moreover have "usb_control_end True max_in a3 = None"
    using a2(2) r(2) req(2) by (simp add: usb_control_end_def a3_def ctrl_left_def Let_def)
  ultimately show ?thesis using sub a2(1) by (simp add: usb_client_round_def)
qed

theorem removal_faults_control_witness:
  "\<exists>a1 a2. usb_control_begin True (replicate 8 0) None 0 4 async_example = Some (a1, Waiting) \<and>
     usb_client_round zero_alloc 1 [Cb_Ctrl \<lparr>cc_status = 0, cc_actual = 9, cc_buffer = replicate 1032 7\<rparr>, Cb_Event DEV_GONE] a1 = Some a2 \<and>
     usb_control_end True 4 a2 = None"
proof -
  have "read_ok (replicate 8 0, 4, \<lparr>cc_status = 0, cc_actual = 9, cc_buffer = replicate 1032 7\<rparr>, [7])"
    by (simp add: read_ok_def delivers_def)
  moreover have "ctrl_ready async_example" "\<not> ua_in_busy async_example" "\<not> ua_out_busy async_example"
    by (simp_all add: ctrl_ready_def async_example_def mouse_state_def)
  ultimately show ?thesis
    using removal_faults_control [OF async_example_reach, of "replicate 8 0" 4 _ "[7]"] by fastforce
qed

text \<open>A round of the watchdog stays inside its list of ten addresses, and logs one line per device.\<close>

lemma usb_watchdog_lines:
  assumes "length dev_addr_list = 10" and "num_devs \<le> 10"
  shows "\<exists>status. usb_watchdog_round hprt wrap_otg heap (Some (dev_addr_list, num_devs)) st =
     Some (status @ Enumerated num_devs # map Device_Address (take num_devs dev_addr_list)) \<and>
     (status = [] \<longleftrightarrow> usb_drv_is_device_ready st)"
  using assms by (auto simp: usb_watchdog_round_def Let_def mem_read_def usb_drv_is_device_ready_def)

end
