(* ===== verification/Daemon_Text.thy ===== *)
theory Daemon_Text
  imports Hub_Server
begin

text \<open>
  What the daemon prints and how it writes addresses: the time stamps and macros of
  \<open>daemon/src/Log.h\<close>, \<open>makeAddr\<close> of \<open>daemon/src/protocol/Protocol.h\<close>, and the datagram calls and
  \<open>addrToStr\<close> of \<open>daemon/src/network/UdpSocket.cpp\<close>. The formatting functions of the C library are written
  out for the formats used.
\<close>

section \<open>Log lines\<close>

text \<open>\<open>%02d\<close> and \<open>%03d\<close>.\<close>

definition padded :: "nat \<Rightarrow> int \<Rightarrow> string" where
  "padded width i =
     (let ds = dec_of_nat (nat \<bar>i\<bar>); sign = (if i < 0 then ''-'' else [])
      in sign @ replicate (width - length sign - length ds) (CHR ''0'') @ ds)"

text \<open>The broken-down time and the nanoseconds, as \<open>localtime_r\<close> and \<open>clock_gettime\<close> deliver them.\<close>

record log_time =
  tm_hour :: int
  tm_min :: int
  tm_sec :: int
  tv_nsec :: int

definition ts :: "log_time \<Rightarrow> string" where
  "ts t = take 15 (padded 2 (tm_hour t) @ '':'' @ padded 2 (tm_min t) @ '':'' @ padded 2 (tm_sec t) @ ''.'' @
     padded 3 (tv_nsec t div 1000000))"

datatype stream = Stdout | Stderr

abbreviation ESCAPE :: char where "ESCAPE \<equiv> CHR 0x1B"

fun log_print :: "log_fn \<Rightarrow> log_time \<Rightarrow> string \<Rightarrow> stream \<times> string" where
  "log_print LogErr t msg = (Stderr, ts t @ '' '' @ [ESCAPE] @ ''[31m[ERR] '' @ [ESCAPE] @ ''[0m'' @ msg @ [CHR 0x0A])"
| "log_print LogWarn t msg = (Stderr, ts t @ '' '' @ [ESCAPE] @ ''[33m[WARN]'' @ [ESCAPE] @ ''[0m '' @ msg @ [CHR 0x0A])"
| "log_print LogInfo t msg = (Stdout, ts t @ '' '' @ [ESCAPE] @ ''[32m[INFO]'' @ [ESCAPE] @ ''[0m '' @ msg @ [CHR 0x0A])"
| "log_print LogDbg t msg = (Stdout, ts t @ '' '' @ [ESCAPE] @ ''[36m[DBG] '' @ [ESCAPE] @ ''[0m'' @ msg @ [CHR 0x0A])"

definition log_time_ok :: "log_time \<Rightarrow> bool" where
  "log_time_ok t \<longleftrightarrow> 0 \<le> tm_hour t \<and> tm_hour t < 24 \<and> 0 \<le> tm_min t \<and> tm_min t < 60 \<and> 0 \<le> tm_sec t \<and> tm_sec t \<le> 60 \<and>
     0 \<le> tv_nsec t \<and> tv_nsec t < 1000000000"

lemma nat_of_dec_zeros: "nat_of_dec (replicate k (CHR ''0'') @ s) = nat_of_dec s"
  by (induction k) (simp_all add: nat_of_dec_def digit_val_def)

lemma padded_reads:
  assumes "0 \<le> i" and "i < 10 ^ k" and "0 < k"
  shows "length (padded k i) = k" and "nat_of_dec (padded k i) = nat i"
proof -
  have "nat i < 10 ^ k" using assms(1,2) by (simp add: nat_less_iff)
  then have "length (dec_of_nat (nat i)) \<le> k" using assms(3) by (rule length_dec_of_nat)
  then show "length (padded k i) = k" using assms(1) by (simp add: padded_def Let_def)
  show "nat_of_dec (padded k i) = nat i" using assms(1) by (simp add: padded_def Let_def nat_of_dec_zeros)
qed

text \<open>
  A time stamp has twelve characters, so the buffer of 16 never cuts it, and its four numbers are read
  back from their places.
\<close>

lemma ts_reads_back:
  assumes "log_time_ok t"
  shows "length (ts t) = 12 \<and> nat_of_dec (take 2 (ts t)) = nat (tm_hour t) \<and> nat_of_dec (take 2 (drop 3 (ts t))) = nat (tm_min t) \<and>
     nat_of_dec (take 2 (drop 6 (ts t))) = nat (tm_sec t) \<and> nat_of_dec (drop 9 (ts t)) = nat (tv_nsec t div 1000000)"
proof -
  have ms: "0 \<le> tv_nsec t div 1000000" "tv_nsec t div 1000000 < 1000"
    using assms by (auto simp: log_time_ok_def)
  note h = padded_reads [of "tm_hour t" 2] and m = padded_reads [of "tm_min t" 2] and s = padded_reads [of "tm_sec t" 2]
    and n = padded_reads [of "tv_nsec t div 1000000" 3]
  show ?thesis using h m s n ms assms by (simp add: ts_def log_time_ok_def)
qed

section \<open>Addresses\<close>

text \<open>The fields hold network byte order on a little-endian machine, as the struct does.\<close>

record sockaddr_in =
  sin_addr :: u32
  sin_port :: u16

definition htons :: "u16 \<Rightarrow> u16" where
  "htons x = le16_of (ucast (drop_bit 8 x)) (ucast x)"

lemma htons_involution [simp]: "htons (htons x) = x"
  by (simp add: htons_def)

text \<open>\<open>inet_ntop\<close> of the four bytes in memory order.\<close>

definition inet_ntop4 :: "u32 \<Rightarrow> string" where
  "inet_ntop4 a =
     (case le32_bytes a of
        [b0, b1, b2, b3] \<Rightarrow> dec_of_nat (unat b0) @ ''.'' @ dec_of_nat (unat b1) @ ''.'' @ dec_of_nat (unat b2) @ ''.'' @ dec_of_nat (unat b3))"

text \<open>
  \<open>inet_pton\<close>: four decimal numbers up to 255, of at most three digits and without leading zeros.
\<close>

definition is_digit :: "char \<Rightarrow> bool" where
  "is_digit c \<longleftrightarrow> c \<in> set ''0123456789''"

definition octet :: "string \<Rightarrow> byte option" where
  "octet s =
     (if s \<noteq> [] \<and> length s \<le> 3 \<and> list_all is_digit s \<and> (hd s \<noteq> CHR ''0'' \<or> length s = 1) \<and> nat_of_dec s \<le> 255
      then Some (of_nat (nat_of_dec s)) else None)"

fun split_dots :: "string \<Rightarrow> string list" where
  "split_dots [] = [[]]"
| "split_dots (c # s) =
     (if c = CHR ''.'' then [] # split_dots s
      else case split_dots s of [] \<Rightarrow> [[c]] | p # ps \<Rightarrow> (c # p) # ps)"

definition inet_pton4 :: "string \<Rightarrow> u32 option" where
  "inet_pton4 s =
     (case split_dots s of
        [p0, p1, p2, p3] \<Rightarrow> do { b0 \<leftarrow> octet p0; b1 \<leftarrow> octet p1; b2 \<leftarrow> octet p2; b3 \<leftarrow> octet p3; Some (le32_of b0 b1 b2 b3) }
      | _ \<Rightarrow> None)"

text \<open>
  \<open>ip\<close> is the string, \<open>None\<close> for \<open>nullptr\<close>. A text that is no address leaves the zero of the
  initialisation, as the result of \<open>inet_pton\<close> is not looked at.
\<close>

definition makeAddr :: "string option \<Rightarrow> u16 \<Rightarrow> sockaddr_in" where
  "makeAddr ip port =
     \<lparr>sin_addr = (case ip of
                    None \<Rightarrow> 0
                  | Some s \<Rightarrow> if s = [] then 0 else (case inet_pton4 s of None \<Rightarrow> 0 | Some a \<Rightarrow> a)),
      sin_port = htons port\<rparr>"

definition addrToStr :: "sockaddr_in \<Rightarrow> string" where
  "addrToStr addr = inet_ntop4 (sin_addr addr) @ '':'' @ dec_of_nat (unat (htons (sin_port addr)))"

section \<open>Datagrams\<close>

text \<open>
  \<open>recvFrom\<close> fills the buffer with at most \<open>len\<close> bytes of the datagram and reports the sender; \<open>sendTo\<close> hands
  its arguments to the system. \<open>udp_turn\<close> is \<open>onUdpReadable\<close> with its addresses: what it sends, and where.
\<close>

definition recvFrom :: "(byte list \<times> sockaddr_in) option \<Rightarrow> nat \<Rightarrow> int \<times> byte list \<times> sockaddr_in option" where
  "recvFrom dgram len =
     (case dgram of
        None \<Rightarrow> (-1, [], None)
      | Some (bs, sender) \<Rightarrow> (int (length (take len bs)), take len bs, Some sender))"

datatype udp_send = Udp_Sendto int sockaddr_in "byte list"

definition sendTo :: "int \<Rightarrow> sockaddr_in \<Rightarrow> byte list \<Rightarrow> udp_send" where
  "sendTo fd dest buf = Udp_Sendto fd dest buf"

definition udp_turn :: "int \<Rightarrow> (byte list \<times> sockaddr_in) option \<Rightarrow> udp_send list" where
  "udp_turn fd dgram =
     (case recvFrom dgram MAX_PACKET of
        (n, bs, Some sender) \<Rightarrow>
          if n < int sizeof_Header then []
          else (case onUdpReadable (Some bs) of None \<Rightarrow> [] | Some reply \<Rightarrow> [sendTo fd sender reply])
      | _ \<Rightarrow> [])"

section \<open>Addresses: correctness\<close>

lemma digit_char_digit: "d < 10 \<Longrightarrow> is_digit (digit_char d)" "0 < d \<Longrightarrow> d < 10 \<Longrightarrow> digit_char d \<noteq> CHR ''0''"
  using digit_cases [of d] by (auto simp: is_digit_def digit_char_def)

lemma dec_digits: "list_all is_digit (dec_of_nat n) \<and> dec_of_nat n \<noteq> [] \<and> (0 < n \<longrightarrow> hd (dec_of_nat n) \<noteq> CHR ''0'')"
proof (induction n rule: dec_of_nat.induct)
  case (1 n)
  show ?case
  proof (cases "n < 10")
    case True
    then show ?thesis using digit_char_digit [of n] by (simp add: dec_of_nat_small)
  next
    case False
    with 1 digit_char_digit(1) [of "n mod 10"] show ?thesis by (simp add: dec_of_nat_big)
  qed
qed

lemma octet_dec: "octet (dec_of_nat (unat (b :: byte))) = Some b"
proof -
  have n: "unat b < 256" using unsigned_less [of b] by simp
  then have "length (dec_of_nat (unat b)) \<le> 3" by (intro length_dec_of_nat) simp_all
  moreover have "unat b = 0 \<Longrightarrow> length (dec_of_nat (unat b)) = 1" by (simp add: dec_of_nat_small)
  ultimately show ?thesis using n dec_digits [of "unat b"] by (cases "unat b = 0") (auto simp: octet_def unsigned_eq_0_iff)
qed

lemma dec_no_dot: "c \<in> set (dec_of_nat n) \<Longrightarrow> c \<noteq> CHR ''.''"
proof -
  assume "c \<in> set (dec_of_nat n)"
  then have "is_digit c" using dec_digits [of n] unfolding list_all_iff by blast
  moreover have "\<not> is_digit (CHR ''.'')" by (simp add: is_digit_def)
  ultimately show ?thesis by metis
qed

lemma split_dots_one: "CHR ''.'' \<notin> set p \<Longrightarrow> split_dots p = [p]"
  by (induction p) auto

lemma split_dots_append: "CHR ''.'' \<notin> set p \<Longrightarrow> split_dots (p @ CHR ''.'' # s) = p # split_dots s"
  by (induction p) auto

lemma inet_pton_ntop: "inet_pton4 (inet_ntop4 a) = Some a"
proof -
  have dots: "CHR ''.'' \<notin> set (dec_of_nat n)" for n using dec_no_dot by blast
  show ?thesis
    by (simp add: inet_pton4_def inet_ntop4_def le32_bytes_def split_dots_append [OF dots] split_dots_one [OF dots] octet_dec)
qed

lemma inet_ntop_nonempty: "inet_ntop4 a \<noteq> []"
  by (simp add: inet_ntop4_def le32_bytes_def)

text \<open>
  An address made from a text prints as that text and the port, for every address and port; a text
  that is no address silently gives the wildcard address, and the answer to a broadcast goes to
  its sender.
\<close>

lemma addr_roundtrip:
  "addrToStr (makeAddr (Some (inet_ntop4 a)) port) = inet_ntop4 a @ '':'' @ dec_of_nat (unat port)"
  by (simp add: addrToStr_def makeAddr_def inet_pton_ntop inet_ntop_nonempty)

lemma bad_address_is_wildcard: "inet_pton4 s = None \<Longrightarrow> sin_addr (makeAddr (Some s) port) = sin_addr (makeAddr None port)"
  by (simp add: makeAddr_def)

lemma udp_turn_answers_sender:
  assumes "dec_Header bs = Some hdr" and "length bs \<le> MAX_PACKET"
  shows "udp_turn fd (Some (bs, sender)) = (if cmd_type hdr = CMD_DISCOVER then [Udp_Sendto fd sender discover_reply_packet] else [])"
proof -
  have "\<not> length bs < sizeof_Header" using assms(1) header.dec_None_iff [of bs] by simp
  with assms show ?thesis by (simp add: udp_turn_def recvFrom_def onUdpReadable_def sendTo_def)
qed

end
