(* ===== verification/Hub_Client.thy ===== *)
theory Hub_Client
  imports Protocol
begin

text \<open>
  The firmware's discovery task (\<open>esp-codes/main/hub_client.c\<close>): broadcasting \<open>DISCOVER\<close> until a
  daemon replies, publishing its address with \<open>DAEMON_FOUND_BIT\<close>, and forgetting it when the network
  is lost. The task is a machine that makes one assignment or one event-group call per step, so that
  what other tasks can see between two of them is part of the model.
\<close>

definition DAEMON_FOUND_BIT :: u32 where "DAEMON_FOUND_BIT = BITn 0"
definition DAEMON_LOST_BIT :: u32 where "DAEMON_LOST_BIT = BITn 1"
definition DISCOVER_TIMEOUT_SEC :: nat where [const_defs]: "DISCOVER_TIMEOUT_SEC = 3"
definition DISCOVER_RETRY_SEC :: nat where [const_defs]: "DISCOVER_RETRY_SEC = 5"

section \<open>State\<close>

text \<open>\<open>hub_state_t s_hub\<close> and the event group of the client.\<close>

record 'g hub_client =
  hc_found :: bool
  hc_ip :: u32
  hc_port :: u16
  hc_eg :: 'g

definition hub_client_start :: "'g eg_ops \<Rightarrow> 'g hub_client" where
  "hub_client_start E = \<lparr>hc_found = False, hc_ip = 0, hc_port = 0, hc_eg = eg_new E\<rparr>"

text \<open>
  What the environment answers: the WiFi bits, the socket calls, and the datagram \<open>recvfrom\<close> delivers
  with its sender (\<open>None\<close> on a timeout).
\<close>

record hub_io =
  hi_ready :: bool
  hi_lost :: bool
  hi_socket :: int
  hi_broadcast :: int
  hi_sendto :: int
  hi_reply :: "(byte list \<times> u32) option"

datatype hub_call =
    HSocket int | HBroadcast int | HTimeout int nat | HSendto int u32 u16 "byte list" | HRecvfrom int | HClose int | HDelay nat

section \<open>One attempt\<close>

definition INADDR_BROADCAST :: u32 where "INADDR_BROADCAST = 0xFFFFFFFF"

definition discover_packet :: "byte list" where
  "discover_packet = enc_Header \<lparr>cmd_type = CMD_DISCOVER, device_id = 0, endpoint = 0, seq = 0, payload_len = 0\<rparr>"

text \<open>The body of the inner loop: what it found, if anything, and the calls it made.\<close>

definition discover_attempt :: "hub_io \<Rightarrow> (u32 \<times> u16) option \<times> hub_call list" where
  "discover_attempt io =
     (let sock = hi_socket io;
          retry = HDelay (DISCOVER_RETRY_SEC * 1000)
      in if sock < 0 then (None, [HSocket sock, retry])
         else if hi_broadcast io < 0 then (None, [HSocket sock, HBroadcast sock, HClose sock, retry])
         else
           let opened = [HSocket sock, HBroadcast sock, HTimeout sock DISCOVER_TIMEOUT_SEC,
                         HSendto sock INADDR_BROADCAST DAEMON_PORT discover_packet]
           in if hi_sendto io < 0 then (None, opened @ [HClose sock, retry])
              else
                let asked = opened @ [HRecvfrom sock, HClose sock]
                in (case hi_reply io of
                      None \<Rightarrow> (None, asked @ [retry])
                    | Some (dgram, sender) \<Rightarrow>
                        let buf = take (sizeof_Header + sizeof_DiscoverReply) dgram
                        in if length buf < sizeof_Header + sizeof_DiscoverReply then (None, asked @ [retry])
                           else (case (dec_Header buf, dec_DiscoverReply (drop sizeof_Header buf)) of
                                   (Some hdr, Some reply) \<Rightarrow>
                                     if cmd_type hdr \<noteq> CMD_DISCOVER_REPLY then (None, asked @ [retry])
                                     else (Some (sender, daemon_port reply), asked)
                                 | _ \<Rightarrow> (None, asked @ [retry]))))"

section \<open>The task\<close>

datatype hub_pc =
    H_Wait_Wifi | H_Discover | H_Set_Found u32 u16 | H_Set_Ip u32 u16 | H_Set_Port u16 | H_Clear_Lost | H_Set_Found_Bit
  | H_Wait_Lost | H_Reset_Found | H_Reset_Ip | H_Reset_Port | H_Clear_Found_Bit | H_Set_Lost_Bit

text \<open>\<open>None\<close> is a step that blocks.\<close>

fun hub_discover_step ::
  "'g eg_ops \<Rightarrow> hub_io \<Rightarrow> hub_pc \<Rightarrow> 'g hub_client \<Rightarrow> (hub_pc \<times> 'g hub_client \<times> hub_call list) option" where
  "hub_discover_step E io H_Wait_Wifi c = (if hi_ready io then Some (H_Discover, c, []) else None)"
| "hub_discover_step E io H_Discover c =
     (case discover_attempt io of
        (None, calls) \<Rightarrow> Some (H_Discover, c, calls)
      | (Some (ip, port), calls) \<Rightarrow> Some (H_Set_Found ip port, c, calls))"
| "hub_discover_step E io (H_Set_Found ip port) c = Some (H_Set_Ip ip port, c\<lparr>hc_found := True\<rparr>, [])"
| "hub_discover_step E io (H_Set_Ip ip port) c = Some (H_Set_Port port, c\<lparr>hc_ip := ip\<rparr>, [])"
| "hub_discover_step E io (H_Set_Port port) c = Some (H_Clear_Lost, c\<lparr>hc_port := port\<rparr>, [])"
| "hub_discover_step E io H_Clear_Lost c =
     Some (H_Set_Found_Bit, c\<lparr>hc_eg := eg_clear E (hc_eg c) DAEMON_LOST_BIT\<rparr>, [])"
| "hub_discover_step E io H_Set_Found_Bit c =
     Some (H_Wait_Lost, c\<lparr>hc_eg := eg_set E (hc_eg c) DAEMON_FOUND_BIT\<rparr>, [])"
| "hub_discover_step E io H_Wait_Lost c = (if hi_lost io then Some (H_Reset_Found, c, []) else None)"
| "hub_discover_step E io H_Reset_Found c = Some (H_Reset_Ip, c\<lparr>hc_found := False\<rparr>, [])"
| "hub_discover_step E io H_Reset_Ip c = Some (H_Reset_Port, c\<lparr>hc_ip := 0\<rparr>, [])"
| "hub_discover_step E io H_Reset_Port c = Some (H_Clear_Found_Bit, c\<lparr>hc_port := 0\<rparr>, [])"
| "hub_discover_step E io H_Clear_Found_Bit c =
     Some (H_Set_Lost_Bit, c\<lparr>hc_eg := eg_clear E (hc_eg c) DAEMON_FOUND_BIT\<rparr>, [])"
| "hub_discover_step E io H_Set_Lost_Bit c =
     Some (H_Wait_Wifi, c\<lparr>hc_eg := eg_set E (hc_eg c) DAEMON_LOST_BIT\<rparr>, [])"

definition hub_start :: "'g eg_ops \<Rightarrow> hub_pc \<times> 'g hub_client \<Rightarrow> bool" where
  "hub_start E x \<longleftrightarrow> x = (H_Wait_Wifi, hub_client_start E)"

inductive hub_step :: "'g eg_ops \<Rightarrow> hub_pc \<times> 'g hub_client \<Rightarrow> hub_pc \<times> 'g hub_client \<Rightarrow> bool"
  for E :: "'g eg_ops" where
  hub_stepI: "hub_discover_step E io pc c = Some (pc', c', calls) \<Longrightarrow> hub_step E (pc, c) (pc', c')"

inductive_cases hub_step_cases: "hub_step E (pc, c) x"

text \<open>What the other tasks read.\<close>

definition hub_client_daemon_found :: "'g hub_client \<Rightarrow> bool" where
  "hub_client_daemon_found c = hc_found c"

definition hub_client_daemon_ip :: "'g hub_client \<Rightarrow> u32" where
  "hub_client_daemon_ip c = hc_ip c"

definition hub_client_daemon_port :: "'g hub_client \<Rightarrow> u16" where
  "hub_client_daemon_port c = hc_port c"

section \<open>One attempt: correctness\<close>

text \<open>The descriptors a list of calls leaves open; \<open>None\<close> when a closed one is used.\<close>

fun run_hub_calls :: "int set \<Rightarrow> hub_call list \<Rightarrow> int set option" where
  "run_hub_calls own [] = Some own"
| "run_hub_calls own (HSocket fd # cs) = run_hub_calls (if fd < 0 then own else insert fd own) cs"
| "run_hub_calls own (HBroadcast fd # cs) = (if fd \<in> own then run_hub_calls own cs else None)"
| "run_hub_calls own (HTimeout fd t # cs) = (if fd \<in> own then run_hub_calls own cs else None)"
| "run_hub_calls own (HSendto fd ip port bs # cs) = (if fd \<in> own then run_hub_calls own cs else None)"
| "run_hub_calls own (HRecvfrom fd # cs) = (if fd \<in> own then run_hub_calls own cs else None)"
| "run_hub_calls own (HClose fd # cs) = (if fd \<in> own then run_hub_calls (own - {fd}) cs else None)"
| "run_hub_calls own (HDelay t # cs) = run_hub_calls own cs"

lemma reply_decodes:
  assumes "8 \<le> length dgram"
  shows "\<exists>hdr reply. dec_Header (take 8 dgram) = Some hdr \<and> dec_DiscoverReply (drop 6 (take 8 dgram)) = Some reply
     \<and> dec_Header dgram = Some hdr \<and> dec_DiscoverReply (drop 6 dgram) = Some reply"
proof -
  obtain a b c d e f g h rest where "dgram = a # b # c # d # e # f # g # h # rest"
    using assms by (auto simp: numeral_eq_Suc Suc_le_length_iff)
  then show ?thesis by simp
qed

text \<open>What \<open>discover_attempt\<close> accepts: every call went well and a whole reply arrived.\<close>

definition attempt_answered :: "hub_io \<Rightarrow> u32 \<Rightarrow> u16 \<Rightarrow> bool" where
  "attempt_answered io ip port \<longleftrightarrow>
     0 \<le> hi_socket io \<and> 0 \<le> hi_broadcast io \<and> 0 \<le> hi_sendto io \<and>
     (case hi_reply io of
        None \<Rightarrow> False
      | Some (dgram, sender) \<Rightarrow>
          8 \<le> length dgram \<and> sender = ip \<and> map_option cmd_type (dec_Header dgram) = Some CMD_DISCOVER_REPLY \<and>
          map_option daemon_port (dec_DiscoverReply (drop 6 dgram)) = Some port)"

lemma discover_attempt_result: "fst (discover_attempt io) = Some (ip, port) \<longleftrightarrow> attempt_answered io ip port"
proof (cases "hi_reply io")
  case None
  then show ?thesis by (auto simp: discover_attempt_def attempt_answered_def Let_def)
next
  case (Some r)
  obtain dgram sender where r: "r = (dgram, sender)" by (cases r)
  show ?thesis
  proof (cases "8 \<le> length dgram")
    case True
    from reply_decodes [OF this] Some r True show ?thesis
      by (auto simp: discover_attempt_def attempt_answered_def Let_def wire_size split: if_splits)
  next
    case False
    with Some r show ?thesis by (auto simp: discover_attempt_def attempt_answered_def Let_def wire_size)
  qed
qed

lemma discover_attempt_calls:
  assumes "hi_socket io \<notin> own"
  shows "run_hub_calls own (snd (discover_attempt io)) = Some own"
  using assms
  by (auto simp: discover_attempt_def Let_def split: option.splits prod.splits)

text \<open>
  One discovery attempt finds a daemon exactly when the three socket calls succeed and a datagram
  of at least eight bytes with command \<open>DISCOVER_REPLY\<close> arrives; what it finds is the sender's address
  and the port the reply carries. On every path, errors included, the socket opened is closed again
  and never used after that.
\<close>

lemma discovery_attempt:
  assumes "hi_socket io \<notin> own"
  shows "(fst (discover_attempt io) = Some (ip, port) \<longleftrightarrow> attempt_answered io ip port) \<and>
     run_hub_calls own (snd (discover_attempt io)) = Some own"
  using discover_attempt_result discover_attempt_calls [OF assms] by blast

definition reply_io :: hub_io where
  "reply_io = \<lparr>hi_ready = True, hi_lost = False, hi_socket = 5, hi_broadcast = 0, hi_sendto = 6,
     hi_reply = Some ([2, 0, 0, 0, 2, 0, 0x6C, 0x1E], 0x0A00A8C0)\<rparr>"

lemma port_bytes: "le16_of 0x6C 0x1E = 7788"
  by (simp add: le16_of_def word_cat_eq)

lemma reply_io_answered: "attempt_answered reply_io 0x0A00A8C0 7788"
  by (simp add: reply_io_def attempt_answered_def const_defs port_bytes)

section \<open>The task: correctness\<close>

lemmas daemon_bits = DAEMON_FOUND_BIT_def DAEMON_LOST_BIT_def

text \<open>Between \<open>DAEMON_FOUND_BIT\<close> being set and cleared; and the part of it after the address is gone.\<close>

fun found_phase :: "hub_pc \<Rightarrow> bool" where
  "found_phase pc = (pc \<in> {H_Wait_Lost, H_Reset_Found, H_Reset_Ip, H_Reset_Port, H_Clear_Found_Bit})"

fun lost_phase :: "hub_pc \<Rightarrow> bool" where
  "lost_phase (H_Set_Found ip port) = True"
| "lost_phase (H_Set_Ip ip port) = True"
| "lost_phase (H_Set_Port port) = True"
| "lost_phase pc = (pc \<in> {H_Wait_Wifi, H_Discover, H_Clear_Lost})"

definition hub_bits_inv :: "'g eg_ops \<Rightarrow> hub_pc \<times> 'g hub_client \<Rightarrow> bool" where
  "hub_bits_inv E x \<longleftrightarrow>
     (bit (eg_get E (hc_eg (snd x))) 0 \<longleftrightarrow> found_phase (fst x)) \<and>
     (bit (eg_get E (hc_eg (snd x))) 1 \<longrightarrow> lost_phase (fst x)) \<and>
     (fst x \<in> {H_Clear_Lost, H_Set_Found_Bit, H_Wait_Lost, H_Reset_Found} \<longrightarrow> hc_found (snd x)) \<and>
     (\<forall>port. fst x = H_Set_Port port \<longrightarrow> hc_found (snd x)) \<and>
     (\<forall>ip port. fst x = H_Set_Ip ip port \<longrightarrow> hc_found (snd x))"

lemma hub_bits_step:
  assumes E: "event_group_spec E" and inv: "hub_bits_inv E (pc, c)" and st: "hub_discover_step E io pc c = Some (pc', c', calls)"
  shows "hub_bits_inv E (pc', c')"
  using inv st
  by (cases pc) (auto simp: hub_bits_inv_def daemon_bits eg_simps E split: if_splits prod.splits option.splits)

lemma hub_bits_invariant:
  assumes E: "event_group_spec E"
  shows "inductive_invariant (hub_start E) (hub_step E) (hub_bits_inv E)"
proof
  show "hub_bits_inv E x" if "hub_start E x" for x
    using that by (simp add: hub_start_def hub_bits_inv_def hub_client_start_def eg_simps E)
  show "hub_bits_inv E y" if "hub_bits_inv E x" and "hub_step E x y" for x y
    using that(2,1) by cases (auto intro: hub_bits_step [OF E])
qed

interpretation mask_hub: inductive_invariant "hub_start mask_eg" "hub_step mask_eg" "hub_bits_inv mask_eg"
  by (rule hub_bits_invariant [OF mask_eg_spec])

text \<open>
  C37. At every moment of the discovery task, whatever the network does: \<open>DAEMON_FOUND_BIT\<close> and
  \<open>DAEMON_LOST_BIT\<close> are never set together, and while \<open>DAEMON_FOUND_BIT\<close> is set a daemon is known,
  unless the task is just forgetting it, between clearing \<open>s_hub\<close> and clearing the bit.
\<close>

theorem daemon_bits_agree:
  assumes "event_group_spec E" and "reach (hub_start E) (hub_step E) (pc, c)"
  shows "\<not> (eg_has E (hc_eg c) DAEMON_FOUND_BIT \<and> eg_has E (hc_eg c) DAEMON_LOST_BIT) \<and>
     (eg_has E (hc_eg c) DAEMON_FOUND_BIT \<longrightarrow>
        hub_client_daemon_found c \<or> pc \<in> {H_Reset_Ip, H_Reset_Port, H_Clear_Found_Bit})"
proof -
  have "hub_bits_inv E (pc, c)"
    using inductive_invariant.reach_inv [OF hub_bits_invariant [OF assms(1)] assms(2)] .
  then show ?thesis
    by (cases pc) (auto simp: hub_bits_inv_def daemon_bits eg_simps assms(1) hub_client_daemon_found_def)
qed

text \<open>The task run on a list of answers.\<close>

fun hub_run :: "'g eg_ops \<Rightarrow> hub_io list \<Rightarrow> hub_pc \<times> 'g hub_client \<Rightarrow> (hub_pc \<times> 'g hub_client) option" where
  "hub_run E [] x = Some x"
| "hub_run E (io # ios) (pc, c) = do { (pc', c', _) \<leftarrow> hub_discover_step E io pc c; hub_run E ios (pc', c') }"

lemma hub_run_append: "hub_run E (ios @ ios') x = do { y \<leftarrow> hub_run E ios x; hub_run E ios' y }"
  by (induction E ios x rule: hub_run.induct) (auto split: bind_splits)

lemma hub_run_reach:
  "reach start (hub_step E) x \<Longrightarrow> hub_run E ios x = Some y \<Longrightarrow> reach start (hub_step E) y"
proof (induction E ios x rule: hub_run.induct)
  case (2 E io ios pc c)
  then obtain pc' c' calls where st: "hub_discover_step E io pc c = Some (pc', c', calls)" "hub_run E ios (pc', c') = Some y"
    by (auto simp: bind_eq_Some_conv)
  with 2 reach_step [OF "2.prems"(1) hub_stepI [OF st(1)]] show ?case by fastforce
qed simp

lemma hub_run_failing:
  "list_all (\<lambda>io. fst (discover_attempt io) = None) ios \<Longrightarrow> hub_run E ios (H_Discover, c) = Some (H_Discover, c)"
  by (induction ios) (auto split: prod.splits option.splits)

text \<open>
  Discovery goes on until it is answered: after any number of attempts that failed, in whatever
  way, the first one a daemon answers ends the loop, and five steps later the daemon's address and
  port are published, \<open>DAEMON_FOUND_BIT\<close> is set and \<open>DAEMON_LOST_BIT\<close> is not.
\<close>

lemma discovery_succeeds:
  assumes "event_group_spec E" and "list_all (\<lambda>io. fst (discover_attempt io) = None) fails"
    and "attempt_answered io ip port" and "length rest = 5"
  shows "\<exists>c'. hub_run E (fails @ io # rest) (H_Discover, c) = Some (H_Wait_Lost, c') \<and>
     hub_client_daemon_found c' \<and> hub_client_daemon_ip c' = ip \<and> hub_client_daemon_port c' = port \<and>
     eg_has E (hc_eg c') DAEMON_FOUND_BIT \<and> \<not> eg_has E (hc_eg c') DAEMON_LOST_BIT"
proof -
  obtain calls where at: "discover_attempt io = (Some (ip, port), calls)"
    using assms(3) discover_attempt_result [of io ip port] by (cases "discover_attempt io") auto
  obtain a b c d e where "rest = [a, b, c, d, e]"
    using assms(4) by (auto simp: numeral_eq_Suc length_Suc_conv)
  then show ?thesis
    using at by (simp add: hub_run_append hub_run_failing [OF assms(2)] hub_client_daemon_found_def hub_client_daemon_ip_def
        hub_client_daemon_port_def daemon_bits eg_simps assms(1))
qed

text \<open>
  There is a moment at which \<open>DAEMON_FOUND_BIT\<close> is still set and the published address is already
  zero: the task clears \<open>s_hub\<close> first and the bit afterwards, so a task that wakes up on the bit then
  reads the address \<open>0.0.0.0\<close>.
\<close>

lemma found_bit_with_no_address:
  assumes "event_group_spec E" and "attempt_answered io ip port" and "hi_ready io" and "hi_lost io"
  shows "\<exists>pc c. reach (hub_start E) (hub_step E) (pc, c) \<and> eg_has E (hc_eg c) DAEMON_FOUND_BIT \<and>
     hub_client_daemon_ip c = 0 \<and> \<not> hub_client_daemon_found c"
proof -
  obtain calls where at: "discover_attempt io = (Some (ip, port), calls)"
    using assms(2) discover_attempt_result [of io ip port] by (cases "discover_attempt io") auto
  have "reach (hub_start E) (hub_step E) (H_Wait_Wifi, hub_client_start E)"
    by (rule reach_start) (simp add: hub_start_def)
  moreover obtain c where "hub_run E (replicate 10 io) (H_Wait_Wifi, hub_client_start E) = Some (H_Reset_Port, c)"
    "eg_has E (hc_eg c) DAEMON_FOUND_BIT" "hc_ip c = 0" "\<not> hc_found c"
    using at assms(3,4)
    by (simp add: numeral_eq_Suc daemon_bits eg_simps assms(1))
  ultimately show ?thesis
    using hub_run_reach by (fastforce simp: hub_client_daemon_ip_def hub_client_daemon_found_def)
qed

lemma hub_found_reachable:
  "\<exists>c. reach (hub_start mask_eg) (hub_step mask_eg) (H_Wait_Lost, c) \<and> eg_has mask_eg (hc_eg c) DAEMON_FOUND_BIT"
proof -
  obtain calls where at: "discover_attempt reply_io = (Some (0x0A00A8C0, 7788), calls)"
    using reply_io_answered discover_attempt_result [of reply_io] by (cases "discover_attempt reply_io") auto
  have "reach (hub_start mask_eg) (hub_step mask_eg) (H_Wait_Wifi, hub_client_start mask_eg)"
    by (rule reach_start) (simp add: hub_start_def)
  moreover obtain c where "hub_run mask_eg (replicate 7 reply_io) (H_Wait_Wifi, hub_client_start mask_eg) = Some (H_Wait_Lost, c)"
    "eg_has mask_eg (hc_eg c) DAEMON_FOUND_BIT"
    using at by (simp add: numeral_eq_Suc daemon_bits eg_simps mask_eg_spec reply_io_def)
  ultimately show ?thesis using hub_run_reach by fast
qed

theorem daemon_bits_agree_witness:
  "\<exists>c. eg_has mask_eg (hc_eg c) DAEMON_FOUND_BIT \<and> \<not> eg_has mask_eg (hc_eg c) DAEMON_LOST_BIT \<and> hub_client_daemon_found c"
  using hub_found_reachable daemon_bits_agree [OF mask_eg_spec, of H_Wait_Lost] by blast

end
