(* ===== verification/Crash_Reporter.thy ===== *)
theory Crash_Reporter
  imports Prelude
begin

text \<open>
  The crash reporter (\<open>esp-codes/main/crash_reporter.c\<close>): the ring buffer of log text in RTC memory,
  the reconstruction of its contents at the next boot, and the task that reports them. The contract
  of the ring, that it remembers the last bytes appended, is the locale \<open>log_history\<close>.
\<close>

definition CRASH_MAGIC :: u32 where [const_defs]: "CRASH_MAGIC = 0xC0FFEE42"
definition RTC_BUF_SIZE :: nat where [const_defs]: "RTC_BUF_SIZE = 600"

section \<open>State\<close>

text \<open>RTC memory survives a reset; ordinary memory starts from zero at every boot.\<close>

record rtc =
  s_magic :: u32
  s_buf :: "char list"
  s_pos :: u16
  s_wrapped :: bool

text \<open>The reset reasons the code names; any other one keeps its number.\<close>

datatype esp_reset_reason =
    ESP_RST_PANIC | ESP_RST_TASK_WDT | ESP_RST_INT_WDT | ESP_RST_WDT | ESP_RST_SW | ESP_RST_BROWNOUT | ESP_RST_other u8

record crash_ram =
  s_pending :: "char list"
  s_has_pending :: bool
  s_pending_reason :: esp_reset_reason

definition crash_ram_boot :: crash_ram where
  "crash_ram_boot = \<lparr>s_pending = replicate (RTC_BUF_SIZE + 64) NUL, s_has_pending = False, s_pending_reason = ESP_RST_other 0\<rparr>"

section \<open>Operations\<close>

text \<open>The loop of \<open>crash_reporter_append\<close>; \<open>None\<close> is a write outside the buffer.\<close>

fun append_loop :: "string \<Rightarrow> rtc \<Rightarrow> rtc option" where
  "append_loop [] r = Some r"
| "append_loop (c # msg) r = do {
     buf \<leftarrow> memcpy_at (s_buf r) (unat (s_pos r)) [c];
     let pos = s_pos r + 1;
     append_loop msg
       (if pos \<ge> of_nat RTC_BUF_SIZE then r\<lparr>s_buf := buf, s_pos := 0, s_wrapped := True\<rparr>
        else r\<lparr>s_buf := buf, s_pos := pos\<rparr>) }"

definition crash_reporter_append :: "string \<Rightarrow> rtc \<Rightarrow> rtc option" where
  "crash_reporter_append msg r = (if s_magic r \<noteq> CRASH_MAGIC then Some r else append_loop msg r)"

definition is_crash :: "esp_reset_reason \<Rightarrow> bool" where
  "is_crash reason \<longleftrightarrow>
     reason = ESP_RST_PANIC \<or> reason = ESP_RST_TASK_WDT \<or> reason = ESP_RST_INT_WDT \<or> reason = ESP_RST_WDT \<or>
     reason = ESP_RST_BROWNOUT \<or> reason = ESP_RST_SW"

text \<open>The ring in chronological order, copied into \<open>s_pending\<close>: the array and its length.\<close>

definition reconstruct :: "rtc \<Rightarrow> char list \<Rightarrow> (char list \<times> nat) option" where
  "reconstruct r pending =
     (let pos = unat (s_pos r)
      in if s_wrapped r then do {
           let tail = RTC_BUF_SIZE - pos;
           late \<leftarrow> mem_read (s_buf r) pos tail;
           p1 \<leftarrow> memcpy_at pending 0 late;
           early \<leftarrow> mem_read (s_buf r) 0 pos;
           p2 \<leftarrow> memcpy_at p1 tail early;
           Some (p2, tail + pos) }
         else do {
           bs \<leftarrow> mem_read (s_buf r) 0 pos;
           p1 \<leftarrow> memcpy_at pending 0 bs;
           Some (p1, pos) })"

definition sanitise_char :: "char \<Rightarrow> char" where
  "sanitise_char c =
     (let n = of_char c :: nat
      in if n \<noteq> 10 \<and> n \<noteq> 9 \<and> (n < 0x20 \<or> n > 0x7E) then CHR ''.'' else c)"

text \<open>The loop over the first \<open>out\<close> characters.\<close>

definition sanitise :: "char list \<Rightarrow> nat \<Rightarrow> char list" where
  "sanitise buf out = map sanitise_char (take out buf) @ drop out buf"

text \<open>
  \<open>crash_reporter_init\<close>: the new RTC memory, the new RAM, and whether \<open>crash_send_task\<close> is started.
\<close>

definition crash_reporter_init :: "esp_reset_reason \<Rightarrow> rtc \<Rightarrow> crash_ram \<Rightarrow> (rtc \<times> crash_ram \<times> bool) option" where
  "crash_reporter_init reason r m = do {
     m' \<leftarrow> (if is_crash reason \<and> s_magic r = CRASH_MAGIC \<and> (s_pos r > 0 \<or> s_wrapped r) then do {
              (p, out) \<leftarrow> reconstruct r (s_pending m);
              p' \<leftarrow> memcpy_at p out [NUL];
              Some (m\<lparr>s_has_pending := True, s_pending_reason := reason, s_pending := sanitise p' out\<rparr>) }
            else Some m);
     let r' = r\<lparr>s_magic := CRASH_MAGIC, s_pos := 0, s_wrapped := False, s_buf := replicate RTC_BUF_SIZE NUL\<rparr>;
     Some (r', m', s_has_pending m') }"

fun reason_str :: "esp_reset_reason \<Rightarrow> string" where
  "reason_str ESP_RST_PANIC = ''PANIC''"
| "reason_str ESP_RST_TASK_WDT = ''TASK_WDT''"
| "reason_str ESP_RST_INT_WDT = ''INT_WDT''"
| "reason_str ESP_RST_WDT = ''WDT''"
| "reason_str ESP_RST_SW = ''SW_RESET''"
| "reason_str ESP_RST_BROWNOUT = ''BROWNOUT''"
| "reason_str (ESP_RST_other n) = ''UNKNOWN''"

text \<open>The loop that emits the report piece by piece.\<close>

function send_chunks :: "char list \<Rightarrow> nat \<Rightarrow> nat \<Rightarrow> string list" where
  "send_chunks pending tot off =
     (if off < tot then
        let chunk = (if tot - off < 200 then tot - off else 200)
        in cstr (take chunk (drop off pending)) # send_chunks pending tot (off + 200)
      else [])"
  by pat_completeness auto
termination by (relation "measure (\<lambda>(p, tot, off). tot - off)") auto

declare send_chunks.simps [simp del]

text \<open>
  The lines \<open>crash_send_task\<close> logs once the daemon is found; \<open>code\<close> is the number ESP-IDF gives a
  reason.
\<close>

definition crash_send_task :: "(esp_reset_reason \<Rightarrow> nat) \<Rightarrow> crash_ram \<Rightarrow> string list" where
  "crash_send_task code m =
     (let tot = length (cstr (s_pending m))
      in (''====== PREVIOUS CRASH: '' @ reason_str (s_pending_reason m) @ '' (code='' @ dec_of_nat (code (s_pending_reason m))
            @ '') log_bytes='' @ dec_of_nat tot @ '' ======'')
         # (if tot > 0 then send_chunks (s_pending m) tot 0 else [''(no log captured before crash)''])
         @ [''====== END CRASH REPORT ======''])"

section \<open>The ring\<close>

text \<open>What the ring remembers, oldest first.\<close>

definition ring_content :: "rtc \<Rightarrow> string" where
  "ring_content r =
     (let pos = unat (s_pos r) in if s_wrapped r then drop pos (s_buf r) @ take pos (s_buf r) else take pos (s_buf r))"

definition ring_ok :: "rtc \<Rightarrow> bool" where
  "ring_ok r \<longleftrightarrow> s_magic r = CRASH_MAGIC \<and> length (s_buf r) = RTC_BUF_SIZE \<and> unat (s_pos r) < RTC_BUF_SIZE"

text \<open>
  The contract of a log that forgets: appending never fails, and afterwards the contents are the last
  \<open>n\<close> characters of what was there followed by the message.
\<close>

locale log_history =
  fixes ok :: "'r \<Rightarrow> bool" and content :: "'r \<Rightarrow> string" and app :: "string \<Rightarrow> 'r \<Rightarrow> 'r option" and n :: nat
  assumes append_law: "ok r \<Longrightarrow> \<exists>r'. app msg r = Some r' \<and> ok r' \<and> content r' = last_n n (content r @ msg)"
begin

lemma append_all_law:
  "ok r \<Longrightarrow> length (content r) \<le> n \<Longrightarrow> \<exists>r'. fold_opt app ms r = Some r' \<and> ok r' \<and> content r' = last_n n (content r @ concat ms)"
proof (induction ms arbitrary: r)
  case (Cons m ms)
  obtain r1 where r1: "app m r = Some r1" "ok r1" "content r1 = last_n n (content r @ m)"
    using append_law [OF Cons.prems(1)] by blast
  then have "length (content r1) \<le> n" by simp
  from Cons.IH [OF r1(2) this] r1 show ?case by (auto simp: last_n_absorb)
qed simp

end

text \<open>One character: the slot at \<open>s_pos\<close> is the oldest one once the ring has wrapped.\<close>

lemma append_one:
  assumes "ring_ok r"
  shows "\<exists>r'. append_loop [c] r = Some r' \<and> ring_ok r' \<and> ring_content r' = last_n RTC_BUF_SIZE (ring_content r @ [c])"
proof -
  let ?p = "unat (s_pos r)" and ?b = "s_buf r"
  have len: "length ?b = 600" "?p < 600" and mg: "s_magic r = CRASH_MAGIC"
    using assms by (auto simp: ring_ok_def const_defs)
  have set: "memcpy_at ?b ?p [c] = Some (take ?p ?b @ c # drop (Suc ?p) ?b)"
    using len by (simp add: memcpy_at_def)
  have inc: "unat (s_pos r + 1) = Suc ?p"
    using len(2) by (simp add: unat_word_ariths unsigned_1 mod_less)
  have full: "(of_nat RTC_BUF_SIZE \<le> s_pos r + 1) \<longleftrightarrow> Suc ?p = 600"
    using len(2) by (simp add: word_le_nat_alt inc const_defs) linarith
  show ?thesis
  proof (cases "Suc ?p = 600")
    case True
    then show ?thesis
      using len mg set full by (auto simp: Let_def ring_ok_def ring_content_def last_n_def const_defs drop_Suc)
  next
    case False
    then show ?thesis
      using len mg set full inc
      by (auto simp: Let_def ring_ok_def ring_content_def last_n_def const_defs drop_Suc)
  qed
qed

lemma append_loop_Cons: "append_loop (c # msg) r = do { r' \<leftarrow> append_loop [c] r; append_loop msg r' }"
  by (simp add: Let_def)

lemma ring_content_length: "ring_ok r \<Longrightarrow> length (ring_content r) \<le> RTC_BUF_SIZE"
  by (auto simp: ring_ok_def ring_content_def Let_def)

lemma append_loop_law:
  "ring_ok r \<Longrightarrow> \<exists>r'. append_loop msg r = Some r' \<and> ring_ok r' \<and> ring_content r' = last_n RTC_BUF_SIZE (ring_content r @ msg)"
proof (induction msg arbitrary: r)
  case Nil
  then show ?case using ring_content_length by simp
next
  case (Cons c msg)
  obtain r1 where r1: "append_loop [c] r = Some r1" "ring_ok r1" "ring_content r1 = last_n RTC_BUF_SIZE (ring_content r @ [c])"
    using append_one [OF Cons.prems] by blast
  then have "append_loop (c # msg) r = append_loop msg r1" by (subst append_loop_Cons) simp
  with Cons.IH [OF r1(2)] r1(3) show ?case by (auto simp: last_n_absorb simp del: append_loop.simps)
qed

interpretation rtc_log: log_history ring_ok ring_content crash_reporter_append RTC_BUF_SIZE
  by unfold_locales (use append_loop_law in \<open>auto simp: crash_reporter_append_def ring_ok_def\<close>)

text \<open>
  C34. The ring buffer refines an unbounded log of which only the last 600 characters are kept: in a
  well-formed ring, appending any message, of any length, stays inside the buffer, keeps the ring
  well-formed, and leaves exactly the last 600 characters of the old contents followed by the message.
\<close>

theorem ring_keeps_last_600:
  assumes "ring_ok r"
  shows "\<exists>r'. crash_reporter_append msg r = Some r' \<and> ring_ok r' \<and> ring_content r' = last_n 600 (ring_content r @ msg)"
  using rtc_log.append_law [OF assms] by (simp add: const_defs)

definition rtc_blank :: rtc where
  "rtc_blank = \<lparr>s_magic = CRASH_MAGIC, s_buf = replicate RTC_BUF_SIZE NUL, s_pos = 0, s_wrapped = False\<rparr>"

lemma rtc_blank_ok: "ring_ok rtc_blank" "ring_content rtc_blank = []"
  by (simp_all add: rtc_blank_def ring_ok_def ring_content_def const_defs)

theorem ring_keeps_last_600_witness:
  "\<exists>r'. crash_reporter_append ''boot'' rtc_blank = Some r' \<and> ring_content r' = ''boot''"
  using ring_keeps_last_600 [OF rtc_blank_ok(1), of "''boot''"] by (auto simp: rtc_blank_ok(2))

section \<open>The report\<close>

lemma nul_free_sanitised: "nul_free (map sanitise_char s)"
  by (induction s) (auto simp: sanitise_char_def Let_def)

lemma ring_empty: "ring_ok r \<Longrightarrow> ring_content r = [] \<longleftrightarrow> \<not> (s_pos r > 0 \<or> s_wrapped r)"
  by (auto simp: ring_ok_def ring_content_def Let_def const_defs unat_eq_0 word_gt_0)

lemma reconstruct_content:
  assumes ok: "ring_ok r" and pend: "length pending = RTC_BUF_SIZE + 64"
  shows "reconstruct r pending =
     Some (ring_content r @ drop (length (ring_content r)) pending, length (ring_content r))"
proof -
  let ?p = "unat (s_pos r)"
  have len: "length (s_buf r) = 600" "?p < 600" "length pending = 664"
    using ok pend by (auto simp: ring_ok_def const_defs)
  show ?thesis
    using len
    by (cases "s_wrapped r")
      (simp_all add: reconstruct_def ring_content_def Let_def mem_read_def memcpy_at_def const_defs min_absorb2)
qed

lemma init_reports:
  assumes ok: "ring_ok r" and crash: "is_crash reason" and some: "ring_content r \<noteq> []"
  shows "\<exists>r' m. crash_reporter_init reason r crash_ram_boot = Some (r', m, True) \<and> ring_ok r' \<and> ring_content r' = [] \<and>
     s_pending_reason m = reason \<and> cstr (s_pending m) = map sanitise_char (ring_content r)"
proof -
  let ?c = "ring_content r" and ?pend = "replicate (RTC_BUF_SIZE + 64) NUL"
  have len: "length ?c \<le> 600" using ring_content_length [OF ok] by (simp add: const_defs)
  have rec: "reconstruct r (s_pending crash_ram_boot) = Some (?c @ drop (length ?c) ?pend, length ?c)"
    using reconstruct_content [OF ok] by (simp add: crash_ram_boot_def)
  have nul: "memcpy_at (?c @ drop (length ?c) ?pend) (length ?c) [NUL] = Some (?c @ NUL # drop (Suc (length ?c)) ?pend)"
    using len by (simp add: memcpy_at_def const_defs del: drop_replicate)
  have "crash_reporter_init reason r crash_ram_boot =
      Some (r\<lparr>s_magic := CRASH_MAGIC, s_pos := 0, s_wrapped := False, s_buf := replicate RTC_BUF_SIZE NUL\<rparr>,
        crash_ram_boot\<lparr>s_has_pending := True, s_pending_reason := reason,
          s_pending := map sanitise_char ?c @ NUL # drop (Suc (length ?c)) ?pend\<rparr>, True)"
    using crash some ring_empty [OF ok] ok rec nul
    by (simp add: crash_reporter_init_def ring_ok_def sanitise_def)
  then show ?thesis
    by (simp add: ring_ok_def ring_content_def const_defs nul_free_sanitised)
qed

lemma send_chunks_text:
  "tot = length (cstr p) \<Longrightarrow> send_chunks p tot off = chunks_of 200 (drop off (cstr p))"
proof (induction p tot off rule: send_chunks.induct)
  case (1 p tot off)
  have pre: "take n (drop off p) = take n (drop off (cstr p))" if "n \<le> tot - off" for n
  proof -
    have "p = cstr p @ dropWhile (\<lambda>c. c \<noteq> NUL) p" by (simp add: cstr_def)
    then have "take n (drop off p) = take n (drop off (cstr p @ dropWhile (\<lambda>c. c \<noteq> NUL) p))" by simp
    also have "\<dots> = take n (drop off (cstr p))" using that "1.prems" by simp
    finally show ?thesis .
  qed
  have nf: "nul_free (drop off (cstr p))" by (simp add: nul_free_drop)
  show ?case
  proof (cases "off < tot")
    case True
    let ?n = "if tot - off < 200 then tot - off else 200"
    have "cstr (take ?n (drop off p)) = take 200 (drop off (cstr p))"
      using pre [of ?n] "1.prems" nf by (simp add: nul_free_take)
    then show ?thesis
      using 1 True by (subst send_chunks.simps) (simp add: chunks_of_step Let_def add.commute)
  next
    case False
    with "1.prems" show ?thesis by (subst send_chunks.simps) simp
  qed
qed



end
