(* ===== verification/Log_Forwarder.thy ===== *)
theory Log_Forwarder
  imports Crash_Reporter Protocol
begin

text \<open>
  The log forwarder (\<open>esp-codes/main/log_forwarder.c\<close>): the hook every log line goes through, which
  feeds the crash reporter's ring and a queue, and the task that takes lines from the queue and sends
  them to the daemon over TCP. The FreeRTOS queue is an argument (\<open>queue_ops\<close>) with its documented
  behaviour as a hypothesis (\<open>queue_spec\<close>).
\<close>

definition LOG_MSG_MAX :: nat where [const_defs]: "LOG_MSG_MAX = 256"
definition LOG_QUEUE_LEN :: nat where [const_defs]: "LOG_QUEUE_LEN = 256"

section \<open>State\<close>

record log_entry =
  le_level :: u8
  le_len :: u16
  le_msg :: "char list"

record 'q queue_ops =
  q_create :: "nat \<Rightarrow> 'q option"
  q_send :: "'q \<Rightarrow> log_entry \<Rightarrow> 'q \<times> bool"
  q_receive :: "'q \<Rightarrow> (log_entry \<times> 'q) option"

text \<open>
  A queue of length \<open>n\<close> holds \<open>items\<close> in order: sending without waiting adds at the end or fails when
  the queue is full, receiving takes the first one or blocks.
\<close>

definition queue_spec :: "'q queue_ops \<Rightarrow> ('q \<Rightarrow> log_entry list) \<Rightarrow> nat \<Rightarrow> bool" where
  "queue_spec Q items n \<longleftrightarrow>
     (\<forall>q. q_create Q n = Some q \<longrightarrow> items q = []) \<and>
     (\<forall>q e. length (items q) < n \<longrightarrow> (\<exists>q'. q_send Q q e = (q', True) \<and> items q' = items q @ [e])) \<and>
     (\<forall>q e. n \<le> length (items q) \<longrightarrow> q_send Q q e = (q, False)) \<and>
     (\<forall>q. items q = [] \<longrightarrow> q_receive Q q = None) \<and>
     (\<forall>q e es. items q = e # es \<longrightarrow> (\<exists>q'. q_receive Q q = Some (e, q') \<and> items q' = es))"

record 'q log_fwd =
  lf_sock :: int
  lf_connected :: bool
  lf_queue :: "'q option"
  lf_delay :: int

definition log_forwarder_init :: "'q queue_ops \<Rightarrow> 'q log_fwd \<times> bool" where
  "log_forwarder_init Q =
     (let q = q_create Q LOG_QUEUE_LEN
      in (\<lparr>lf_sock = -1, lf_connected = False, lf_queue = q, lf_delay = 500\<rparr>, q \<noteq> None))"

section \<open>The level of a line\<close>

abbreviation ESC :: char where
  "ESC \<equiv> CHR 0x1B"

fun skip_to_m :: "string \<Rightarrow> string" where
  "skip_to_m [] = []"
| "skip_to_m (c # s) = (if c = CHR ''m'' then c # s else skip_to_m s)"

lemma length_skip_to_m: "length (skip_to_m s) \<le> length s"
  by (induction s) auto

text \<open>The end of the list is the NUL that ends the C string.\<close>

function skip_ansi :: "string \<Rightarrow> string" where
  "skip_ansi s =
     (case s of
        [] \<Rightarrow> []
      | c # s1 \<Rightarrow>
          if c \<noteq> ESC then s
          else (case s1 of
                  [] \<Rightarrow> []
                | c2 # s2 \<Rightarrow>
                    if c2 = CHR ''['' then
                      (case skip_to_m s2 of [] \<Rightarrow> [] | _ # s3 \<Rightarrow> skip_ansi s3)
                    else skip_ansi s1))"
  by pat_completeness auto
termination
proof (relation "measure length", goal_cases)
  case (2 s c s1 c2 s2 m s3)
  then show ?case using length_skip_to_m [of s2] by simp
qed auto

declare skip_ansi.simps [simp del]

definition detect_level :: "string \<Rightarrow> u8" where
  "detect_level msg =
     (case skip_ansi (cstr msg) of
        [] \<Rightarrow> LOG_LEVEL_INFO
      | c # _ \<Rightarrow>
          if c = CHR ''E'' then LOG_LEVEL_ERROR
          else if c = CHR ''W'' then LOG_LEVEL_WARN
          else if c = CHR ''I'' then LOG_LEVEL_INFO
          else if c = CHR ''D'' then LOG_LEVEL_DEBUG
          else if c = CHR ''V'' then LOG_LEVEL_VERBOSE
          else LOG_LEVEL_INFO)"

section \<open>The hook\<close>

text \<open>\<open>vsnprintf(buf, n, ...)\<close> of a line that formats to \<open>out\<close> (\<open>None\<close>: an encoding error).\<close>

definition vsnprintf :: "char list \<Rightarrow> nat \<Rightarrow> string option \<Rightarrow> (char list \<times> int) option" where
  "vsnprintf buf n out =
     (case out of
        None \<Rightarrow> Some (buf, -1)
      | Some s \<Rightarrow> map_option (\<lambda>b. (b, int (length s))) (memcpy_at buf 0 (take (n - 1) s @ [NUL])))"

text \<open>The line as it formats, the uninitialised stack buffer, and the block \<open>malloc\<close> gives, if any.\<close>

record vprintf_io =
  vp_text :: "string option"
  vp_stack :: "char list"
  vp_block :: "char list option"

definition vprintf_io_ok :: "vprintf_io \<Rightarrow> bool" where
  "vprintf_io_ok io \<longleftrightarrow>
     length (vp_stack io) = 128 \<and> (case vp_block io of None \<Rightarrow> True | Some b \<Rightarrow> length b = LOG_MSG_MAX)"

definition rtc_part :: "vprintf_io \<Rightarrow> rtc \<Rightarrow> rtc option" where
  "rtc_part io r = do {
     (rtc_tmp, rn) \<leftarrow> vsnprintf (vp_stack io) 128 (vp_text io);
     if rn > 0 then do {
       msg \<leftarrow> mem_read rtc_tmp 0 (nat (if rn < 128 then rn else 127));
       crash_reporter_append msg r }
     else Some r }"

definition log_forwarder_vprintf :: "'q queue_ops \<Rightarrow> vprintf_io \<Rightarrow> rtc \<Rightarrow> 'q log_fwd \<Rightarrow> (rtc \<times> 'q log_fwd) option" where
  "log_forwarder_vprintf Q io r f = do {
     r' \<leftarrow> rtc_part io r;
     case lf_queue f of
       None \<Rightarrow> Some (r', f)
     | Some q \<Rightarrow>
         (case vp_block io of
            None \<Rightarrow> Some (r', f)
          | Some block \<Rightarrow> do {
              (msg, n) \<leftarrow> vsnprintf block LOG_MSG_MAX (vp_text io);
              if n \<le> 0 then Some (r', f)
              else
                let e = \<lparr>le_level = detect_level msg,
                         le_len = of_int (if n < int LOG_MSG_MAX then n else int LOG_MSG_MAX - 1), le_msg = msg\<rparr>
                in Some (r', f\<lparr>lf_queue := Some (fst (q_send Q q e))\<rparr>) }) }"

section \<open>The sender\<close>

datatype log_call = LClose int | LSocket int | LConnect int u32 u16 | LDelay int | LSend int "byte list"

text \<open>One connection attempt: what \<open>socket\<close> returns, the daemon's address then, what \<open>connect\<close> returns.\<close>

record conn_try =
  ct_sock :: int
  ct_ip :: u32
  ct_port :: u16
  ct_connect :: int

definition next_delay :: "int \<Rightarrow> int" where
  "next_delay d = (if d < 10000 then d * 2 else 10000)"

text \<open>The loop that connects; \<open>None\<close> while it is still trying.\<close>

fun log_connect :: "conn_try list \<Rightarrow> 'q log_fwd \<Rightarrow> ('q log_fwd \<times> log_call list) option" where
  "log_connect tries f =
     (if lf_sock f < 0 \<or> \<not> lf_connected f then
        (case tries of
           [] \<Rightarrow> None
         | t # tries' \<Rightarrow>
             let closed = (if lf_sock f \<ge> 0 then [LClose (lf_sock f)] else [])
             in if ct_sock t < 0 then
                  map_option (\<lambda>(f', cs). (f', closed @ [LSocket (ct_sock t), LDelay (lf_delay f)] @ cs))
                    (log_connect tries' (f\<lparr>lf_sock := ct_sock t, lf_connected := False, lf_delay := next_delay (lf_delay f)\<rparr>))
                else if ct_connect t < 0 then
                  map_option (\<lambda>(f', cs). (f', closed @ [LSocket (ct_sock t), LConnect (ct_sock t) (ct_ip t) (ct_port t),
                                                  LClose (ct_sock t), LDelay (lf_delay f)] @ cs))
                    (log_connect tries' (f\<lparr>lf_sock := -1, lf_connected := False, lf_delay := next_delay (lf_delay f)\<rparr>))
                else
                  map_option (\<lambda>(f', cs). (f', closed @ [LSocket (ct_sock t), LConnect (ct_sock t) (ct_ip t) (ct_port t)] @ cs))
                    (log_connect tries' (f\<lparr>lf_sock := ct_sock t, lf_connected := True, lf_delay := 500\<rparr>)))
      else Some (f, []))"

declare log_connect.simps [simp del]

definition log_pkt :: "byte list \<Rightarrow> log_entry \<Rightarrow> byte list option" where
  "log_pkt pkt e = do {
     let pay_len = sizeof_LogPayload + unat (le_len e);
     let hdr = \<lparr>cmd_type = CMD_LOG, device_id = 0, endpoint = 0, seq = 0, payload_len = of_nat pay_len\<rparr>;
     p1 \<leftarrow> memcpy_at pkt 0 (enc_Header hdr);
     p2 \<leftarrow> memcpy_at p1 sizeof_Header (enc_LogPayload \<lparr>log_level = le_level e\<rparr>);
     text \<leftarrow> mem_read (le_msg e) 0 (unat (le_len e));
     p3 \<leftarrow> memcpy_at p2 (sizeof_Header + sizeof_LogPayload) (map byte_of_char text);
     mem_read p3 0 (sizeof_Header + pay_len) }"

record log_io =
  lo_found :: bool
  lo_tries :: "conn_try list"
  lo_sent :: int
  lo_pkt :: "byte list"

datatype 'a log_result = Log_Blocked | Log_Fault | Log_Done 'a

text \<open>One round of \<open>log_sender_task\<close>.\<close>

definition log_sender_round :: "'q queue_ops \<Rightarrow> log_io \<Rightarrow> 'q log_fwd \<Rightarrow> ('q log_fwd \<times> log_call list) log_result" where
  "log_sender_round Q io f =
     (if \<not> lo_found io then Log_Done (f, [LDelay 100])
      else case lf_queue f of
        None \<Rightarrow> Log_Fault
      | Some q \<Rightarrow>
          (case q_receive Q q of
             None \<Rightarrow> Log_Blocked
           | Some (e, q') \<Rightarrow>
               (case log_connect (lo_tries io) (f\<lparr>lf_queue := Some q'\<rparr>) of
                  None \<Rightarrow> Log_Blocked
                | Some (f1, calls) \<Rightarrow>
                    (case log_pkt (lo_pkt io) e of
                       None \<Rightarrow> Log_Fault
                     | Some pkt \<Rightarrow>
                         if lo_sent io < 0 then
                           Log_Done (f1\<lparr>lf_sock := -1, lf_connected := False, lf_delay := next_delay (lf_delay f1)\<rparr>,
                             calls @ [LSend (lf_sock f1) pkt, LClose (lf_sock f1), LDelay (lf_delay f1)])
                         else Log_Done (f1, calls @ [LSend (lf_sock f1) pkt])))))"

text \<open>The task: one round after the other.\<close>

fun log_sender_task :: "'q queue_ops \<Rightarrow> log_io list \<Rightarrow> 'q log_fwd \<Rightarrow> ('q log_fwd \<times> log_call list) log_result" where
  "log_sender_task Q [] f = Log_Done (f, [])"
| "log_sender_task Q (io # ios) f =
     (case log_sender_round Q io f of
        Log_Done (f1, calls1) \<Rightarrow>
          (case log_sender_task Q ios f1 of
             Log_Done (f2, calls2) \<Rightarrow> Log_Done (f2, calls1 @ calls2)
           | Log_Blocked \<Rightarrow> Log_Blocked
           | Log_Fault \<Rightarrow> Log_Fault)
      | Log_Blocked \<Rightarrow> Log_Blocked
      | Log_Fault \<Rightarrow> Log_Fault)"

section \<open>The hook: correctness\<close>

lemma vsnprintf_fits:
  assumes "length buf = n" and "0 < n"
  shows "vsnprintf buf n (Some s) = Some (take (n - 1) s @ NUL # drop (Suc (min (n - 1) (length s))) buf, int (length s))"
  using assms by (cases n) (auto simp: vsnprintf_def memcpy_at_def min_def)

lemma rtc_part_appends:
  assumes io: "vprintf_io_ok io" and t: "vp_text io = Some t" and r: "ring_ok r"
  shows "\<exists>r'. rtc_part io r = Some r' \<and> ring_ok r' \<and> ring_content r' = last_n RTC_BUF_SIZE (ring_content r @ take 127 t)"
proof -
  have v: "vsnprintf (vp_stack io) 128 (Some t) =
      Some (take 127 t @ NUL # drop (Suc (min 127 (length t))) (vp_stack io), int (length t))"
    using vsnprintf_fits [of "vp_stack io" 128] io by (simp add: vprintf_io_ok_def)
  have "rtc_part io r = (if t = [] then Some r else crash_reporter_append (take 127 t) r)"
    by (simp add: rtc_part_def t v mem_read_def)
  then show ?thesis
    using rtc_log.append_law [OF r, of "take 127 t"] r ring_content_length [OF r] by auto
qed

text \<open>The entry made for a line: at most 255 characters of it, with its level.\<close>

definition entry_holds :: "log_entry \<Rightarrow> string \<Rightarrow> bool" where
  "entry_holds e t \<longleftrightarrow>
     le_level e = detect_level (take 255 t) \<and> unat (le_len e) = length (take 255 t) \<and>
     take (length (take 255 t)) (le_msg e) = take 255 t"

lemma detect_level_cut: "detect_level (s @ NUL # r) = detect_level s"
  by (simp add: detect_level_def)

text \<open>
  The log hook neither writes outside its buffers nor blocks, whatever line it is given. The crash
  reporter's ring gets the first 127 characters of the line; the queue gets one entry with its first
  255 characters and its level, at the end, whether or not a daemon is known; and a line is dropped
  only if it is empty, no memory is left, or 256 lines are waiting.
\<close>

lemma log_hook_appends:
  assumes io: "vprintf_io_ok io" "vp_text io = Some t" and r: "ring_ok r"
    and q: "queue_spec Q items LOG_QUEUE_LEN" "lf_queue f = Some q"
  shows "\<exists>r' q'. log_forwarder_vprintf Q io r f = Some (r', f\<lparr>lf_queue := Some q'\<rparr>) \<and> ring_ok r' \<and>
     ring_content r' = last_n RTC_BUF_SIZE (ring_content r @ take 127 t) \<and>
     (if t = [] \<or> vp_block io = None \<or> 256 \<le> length (items q) then items q' = items q
      else \<exists>e. items q' = items q @ [e] \<and> entry_holds e t)"
proof -
  obtain r' where r': "rtc_part io r = Some r'" "ring_ok r'" "ring_content r' = last_n RTC_BUF_SIZE (ring_content r @ take 127 t)"
    using rtc_part_appends [OF io r] by blast
  have same: "f\<lparr>lf_queue := Some q\<rparr> = f" using q(2) by simp
  show ?thesis
  proof (cases "t = [] \<or> vp_block io = None")
    case True
    then have "log_forwarder_vprintf Q io r f = Some (r', f)"
      using r'(1) q(2) io vsnprintf_fits [of _ LOG_MSG_MAX "[]"]
      by (auto simp: log_forwarder_vprintf_def vprintf_io_ok_def const_defs split: option.splits)
    with True r' same show ?thesis by (intro exI [of _ r'] exI [of _ q]) auto
  next
    case False
    then obtain b where b: "vp_block io = Some b" "length b = LOG_MSG_MAX" "t \<noteq> []"
      using io by (auto simp: vprintf_io_ok_def)
    define msg where "msg = take 255 t @ NUL # drop (Suc (min 255 (length t))) b"
    define e where "e = \<lparr>le_level = detect_level msg, le_len = of_int (if int (length t) < 256 then int (length t) else 255), le_msg = msg\<rparr>"
    have v: "vsnprintf b LOG_MSG_MAX (Some t) = Some (msg, int (length t))"
      using vsnprintf_fits [of b LOG_MSG_MAX t] b by (simp add: msg_def const_defs)
    have "(of_int (if int (length t) < 256 then int (length t) else 255) :: u16) = of_nat (length (take 255 t))" by auto
    then have holds: "entry_holds e t"
      by (simp add: entry_holds_def e_def msg_def detect_level_cut unat_of_nat_16)
    have run: "log_forwarder_vprintf Q io r f = Some (r', f\<lparr>lf_queue := Some (fst (q_send Q q e))\<rparr>)"
      using r'(1) q(2) b io(2) v by (simp add: log_forwarder_vprintf_def e_def const_defs)
    have "if 256 \<le> length (items q) then q_send Q q e = (q, False)
          else \<exists>q'. q_send Q q e = (q', True) \<and> items q' = items q @ [e]"
      using q(1) by (simp add: queue_spec_def const_defs)
    with run r' b holds False show ?thesis by (fastforce split: if_splits)
  qed
qed

text \<open>A queue that is a list, for the witnesses.\<close>

definition list_queue :: "nat \<Rightarrow> log_entry list queue_ops" where
  "list_queue n = \<lparr>q_create = (\<lambda>_. Some []), q_send = (\<lambda>q e. if length q < n then (q @ [e], True) else (q, False)),
     q_receive = (\<lambda>q. case q of [] \<Rightarrow> None | e # es \<Rightarrow> Some (e, es))\<rparr>"

lemma list_queue_spec: "queue_spec (list_queue n) (\<lambda>q. q) n"
  by (simp add: queue_spec_def list_queue_def)

definition line_io :: "string \<Rightarrow> vprintf_io" where
  "line_io t = \<lparr>vp_text = Some t, vp_stack = replicate 128 NUL, vp_block = Some (replicate 256 NUL)\<rparr>"

lemma line_io_ok: "vprintf_io_ok (line_io t)" "vp_text (line_io t) = Some t" "vp_block (line_io t) \<noteq> None"
  by (simp_all add: line_io_def vprintf_io_ok_def const_defs)

text \<open>
  Lines logged one after the other, whether or not a daemon is known yet: every line goes into the
  crash reporter's ring (its first 127 characters), and the queue takes, in order, as many of them as
  it has room for (its first 255 characters and its level each); the rest is dropped. No line makes
  the hook write outside a buffer or wait.
\<close>

lemma log_lines_queued_in_order:
  assumes q: "queue_spec Q items LOG_QUEUE_LEN" "lf_queue f = Some q" "length (items q) \<le> LOG_QUEUE_LEN" and r: "ring_ok r"
    and io: "list_all (\<lambda>io. vprintf_io_ok io \<and> vp_block io \<noteq> None) ios"
      "map vp_text ios = map Some ts" "[] \<notin> set ts"
  shows "\<exists>r' q' es. fold_opt (\<lambda>io (r, f). log_forwarder_vprintf Q io r f) ios (r, f) = Some (r', f\<lparr>lf_queue := Some q'\<rparr>) \<and>
     ring_ok r' \<and> ring_content r' = last_n RTC_BUF_SIZE (ring_content r @ concat (map (take 127) ts)) \<and>
     items q' = items q @ es \<and> list_all2 entry_holds es (take (256 - length (items q)) ts)"
  using q(2,3) r io
proof (induction ios arbitrary: ts r f q)
  case Nil
  moreover from Nil.prems(1) have "f\<lparr>lf_queue := Some q\<rparr> = f" by simp
  ultimately show ?case using ring_content_length [of r] by (intro exI [of _ r] exI [of _ q] exI [of _ "[]"]) auto
next
  case (Cons io ios)
  obtain t ts' where ts: "ts = t # ts'" "vp_text io = Some t" "map vp_text ios = map Some ts'" using Cons.prems(5) by auto
  have io: "vprintf_io_ok io" "vp_block io \<noteq> None" "t \<noteq> []" using Cons.prems ts(1) by auto
  obtain r1 q1 where 1: "log_forwarder_vprintf Q io r f = Some (r1, f\<lparr>lf_queue := Some q1\<rparr>)" "ring_ok r1"
      "ring_content r1 = last_n RTC_BUF_SIZE (ring_content r @ take 127 t)"
      "if 256 \<le> length (items q) then items q1 = items q else \<exists>e. items q1 = items q @ [e] \<and> entry_holds e t"
    using log_hook_appends [OF io(1) ts(2) Cons.prems(3) q(1) Cons.prems(1)] io(2,3) by auto
  have len1: "length (items q1) \<le> LOG_QUEUE_LEN" using 1(4) Cons.prems(2) by (auto simp: const_defs split: if_splits)
  have "\<exists>r' q' es. fold_opt (\<lambda>io (r, f). log_forwarder_vprintf Q io r f) ios (r1, f\<lparr>lf_queue := Some q1\<rparr>) =
      Some (r', f\<lparr>lf_queue := Some q1\<rparr>\<lparr>lf_queue := Some q'\<rparr>) \<and>
     ring_ok r' \<and> ring_content r' = last_n RTC_BUF_SIZE (ring_content r1 @ concat (map (take 127) ts')) \<and>
     items q' = items q1 @ es \<and> list_all2 entry_holds es (take (256 - length (items q1)) ts')"
    using Cons.prems ts 1(2) len1 by (intro Cons.IH) auto
  then obtain r' q' es where 2: "fold_opt (\<lambda>io (r, f). log_forwarder_vprintf Q io r f) ios (r1, f\<lparr>lf_queue := Some q1\<rparr>) =
      Some (r', f\<lparr>lf_queue := Some q'\<rparr>)" "ring_ok r'"
      "ring_content r' = last_n RTC_BUF_SIZE (ring_content r1 @ concat (map (take 127) ts'))"
      "items q' = items q1 @ es" "list_all2 entry_holds es (take (256 - length (items q1)) ts')"
    by auto
  have "\<exists>es'. items q' = items q @ es' \<and> list_all2 entry_holds es' (take (256 - length (items q)) ts)"
  proof (cases "256 \<le> length (items q)")
    case True
    with 1(4) 2(4,5) show ?thesis by auto
  next
    case False
    with 1(4) obtain e where e: "items q1 = items q @ [e]" "entry_holds e t" by auto
    have "256 - length (items q) = Suc (256 - length (items q1))" using False e(1) by simp
    with e 2(4,5) ts(1) show ?thesis by (auto intro!: exI [of _ "e # es"])
  qed
  then show ?case
    using 1(1,3) 2(1-3) ts(1) by (auto simp: last_n_absorb)
qed

section \<open>The sender: correctness\<close>

definition log_packet :: "string \<Rightarrow> byte list" where
  "log_packet t =
     enc_Header \<lparr>cmd_type = CMD_LOG, device_id = 0, endpoint = 0, seq = 0, payload_len = of_nat (Suc (length (take 255 t)))\<rparr>
     @ enc_LogPayload \<lparr>log_level = detect_level (take 255 t)\<rparr> @ map byte_of_char (take 255 t)"

lemma log_pkt_packet:
  assumes "entry_holds e t" and "length pkt = sizeof_Header + sizeof_LogPayload + LOG_MSG_MAX"
  shows "log_pkt pkt e = Some (log_packet t)"
proof -
  define u where "u = take 255 t"
  have len: "length u \<le> 255" by (simp add: u_def)
  have e: "le_level e = detect_level u" "unat (le_len e) = length u" "take (length u) (le_msg e) = u"
    using assms(1) unfolding entry_holds_def u_def by blast+
  from e(3) have "length u \<le> length (le_msg e)" by (metis length_take min.cobounded1)
  then have msg: "mem_read (le_msg e) 0 (length u) = Some u" using e(3) by (simp add: mem_read_def)
  have pkt: "length pkt = 263" using assms(2) by (simp add: wire_size const_defs)
  show ?thesis
    unfolding log_packet_def u_def [symmetric]
    using pkt e(1,2) msg len by (simp add: log_pkt_def mem_read_def [of _ 0 "Suc _"] mem_read_def memcpy_at_def wire_size Let_def)
qed

text \<open>Every delay the reconnect loop can use.\<close>

definition delays :: "int set" where
  "delays = {500, 1000, 2000, 4000, 8000, 16000, 10000}"

lemma next_delay_in: "d \<in> delays \<Longrightarrow> next_delay d \<in> delays"
  by (auto simp: delays_def next_delay_def)

lemma log_connect_steps:
  "0 \<le> lf_sock f \<Longrightarrow> lf_connected f \<Longrightarrow> log_connect ts f = Some (f, [])"
  "lf_sock f < 0 \<or> \<not> lf_connected f \<Longrightarrow> log_connect [] f = None"
  by (simp_all add: log_connect.simps [of _ f])

lemma log_connect_delays:
  "log_connect ts f = Some (f', calls) \<Longrightarrow> lf_delay f \<in> delays \<Longrightarrow>
     lf_delay f' \<in> delays \<and> (\<forall>d. LDelay d \<in> set calls \<longrightarrow> d \<in> delays) \<and> (\<forall>s p. LSend s p \<notin> set calls) \<and>
     0 \<le> lf_sock f' \<and> lf_connected f' \<and> lf_queue f' = lf_queue f"
proof (induction ts f arbitrary: f' calls rule: log_connect.induct)
  case (1 ts f)
  show ?case
  proof (cases "lf_sock f < 0 \<or> \<not> lf_connected f")
    case False
    with "1.prems" show ?thesis by (simp add: log_connect_steps)
  next
    case True
    then obtain t ts' where ts: "ts = t # ts'" using "1.prems"(1) by (cases ts) (simp_all add: log_connect_steps)
    consider (no_sock) "ct_sock t < 0" | (no_conn) "0 \<le> ct_sock t" "ct_connect t < 0" | (ok) "0 \<le> ct_sock t" "0 \<le> ct_connect t"
      by linarith
    then show ?thesis
    proof cases
      case no_sock
      with "1.prems" True ts obtain cs where
        r: "log_connect ts' (f\<lparr>lf_sock := ct_sock t, lf_connected := False, lf_delay := next_delay (lf_delay f)\<rparr>) = Some (f', cs)"
        and c: "calls = (if lf_sock f \<ge> 0 then [LClose (lf_sock f)] else []) @ [LSocket (ct_sock t), LDelay (lf_delay f)] @ cs"
        by (auto simp: log_connect.simps [of _ f] Let_def)
      from "1.IH"(1) [OF True ts refl no_sock r] "1.prems"(2) c next_delay_in show ?thesis by auto
    next
      case no_conn
      with "1.prems" True ts obtain cs where
        r: "log_connect ts' (f\<lparr>lf_sock := -1, lf_connected := False, lf_delay := next_delay (lf_delay f)\<rparr>) = Some (f', cs)"
        and c: "calls = (if lf_sock f \<ge> 0 then [LClose (lf_sock f)] else []) @ [LSocket (ct_sock t),
            LConnect (ct_sock t) (ct_ip t) (ct_port t), LClose (ct_sock t), LDelay (lf_delay f)] @ cs"
        by (auto simp: log_connect.simps [of _ f] Let_def)
      have "\<not> ct_sock t < 0" using no_conn by simp
      from "1.IH"(2) [OF True ts refl this no_conn(2) r] "1.prems"(2) c next_delay_in show ?thesis by auto
    next
      case ok
      with "1.prems" True ts obtain cs where
        r: "log_connect ts' (f\<lparr>lf_sock := ct_sock t, lf_connected := True, lf_delay := 500\<rparr>) = Some (f', cs)"
        and c: "calls = (if lf_sock f \<ge> 0 then [LClose (lf_sock f)] else []) @ [LSocket (ct_sock t),
            LConnect (ct_sock t) (ct_ip t) (ct_port t)] @ cs"
        by (auto simp: log_connect.simps [of _ f] Let_def)
      have "\<not> ct_sock t < 0" "\<not> ct_connect t < 0" using ok by simp_all
      from "1.IH"(3) [OF True ts refl this r] c show ?thesis by (auto simp: delays_def)
    qed
  qed
qed

definition try_ok :: "conn_try \<Rightarrow> bool" where
  "try_ok t \<longleftrightarrow> 0 \<le> ct_sock t \<and> 0 \<le> ct_connect t"

lemma log_connect_live:
  "(0 \<le> lf_sock f \<and> lf_connected f) \<or> list_ex try_ok ts \<Longrightarrow> \<exists>f' calls. log_connect ts f = Some (f', calls)"
proof (induction ts arbitrary: f)
  case Nil
  then show ?case by (simp add: log_connect_steps)
next
  case (Cons t ts)
  show ?case
  proof (cases "lf_sock f < 0 \<or> \<not> lf_connected f")
    case True
    let ?f = "if try_ok t then f\<lparr>lf_sock := ct_sock t, lf_connected := True, lf_delay := 500\<rparr>
      else if ct_sock t < 0 then f\<lparr>lf_sock := ct_sock t, lf_connected := False, lf_delay := next_delay (lf_delay f)\<rparr>
      else f\<lparr>lf_sock := -1, lf_connected := False, lf_delay := next_delay (lf_delay f)\<rparr>"
    have "\<exists>f' calls. log_connect ts ?f = Some (f', calls)"
      using Cons.prems True by (intro Cons.IH) (auto simp: try_ok_def)
    with True show ?thesis
      by (subst log_connect.simps) (auto simp: try_ok_def Let_def split: if_splits)
  next
    case False
    then show ?thesis by (simp add: log_connect_steps)
  qed
qed

fun is_send :: "log_call \<Rightarrow> bool" where
  "is_send (LSend s p) = True"
| "is_send _ = False"

text \<open>
  The sender sends each line once. When a daemon is known, a line waits and a connection stands or
  one of the attempts succeeds, however many fail before it, the round ends: the first line of the
  queue is gone from it and exactly one packet was written, that line's \<open>CMD_LOG\<close> packet. If the write
  fails the connection is given up, and the line is lost with it.
\<close>

lemma log_sender_sends_line:
  assumes q: "queue_spec Q items n" "lf_queue f = Some q" "items q = e # es" and e: "entry_holds e t"
    and io: "lo_found io" "(0 \<le> lf_sock f \<and> lf_connected f) \<or> list_ex try_ok (lo_tries io)"
      "length (lo_pkt io) = sizeof_Header + sizeof_LogPayload + LOG_MSG_MAX" and d: "lf_delay f \<in> delays"
  shows "\<exists>f' calls q' s. log_sender_round Q io f = Log_Done (f', calls) \<and> lf_queue f' = Some q' \<and> items q' = es \<and>
     filter is_send calls = [LSend s (log_packet t)] \<and> (if lo_sent io < 0 then lf_sock f' = -1 \<and> \<not> lf_connected f' else lf_sock f' = s)"
proof -
  obtain q' where rec: "q_receive Q q = Some (e, q')" "items q' = es"
    using q(1,3) unfolding queue_spec_def by blast
  let ?f = "f\<lparr>lf_queue := Some q'\<rparr>"
  obtain f1 calls where con: "log_connect (lo_tries io) ?f = Some (f1, calls)"
    using log_connect_live [of ?f "lo_tries io"] io(2) by auto
  have c: "\<forall>s p. LSend s p \<notin> set calls" "lf_queue f1 = Some q'"
    using log_connect_delays [OF con] d by auto
  then have "filter is_send calls = []" by (auto simp: filter_empty_conv elim: is_send.elims)
  then show ?thesis
    using io(1) q(2) rec con c(2) log_pkt_packet [OF e io(3)] by (auto simp: log_sender_round_def)
qed

text \<open>
  The delay between two connection attempts is always one of seven values, none above sixteen
  seconds: it doubles from half a second, and after ten seconds stays there. Sixteen seconds is
  reached, after five failures in a row.
\<close>

lemma reconnect_delay_bounds:
  assumes "lf_delay f \<in> delays" and "log_sender_round Q io f = Log_Done (f', calls)"
  shows "lf_delay f' \<in> delays \<and> (\<forall>d. LDelay d \<in> set calls \<longrightarrow> 100 \<le> d \<and> d \<le> 16000) \<and> (next_delay ^^ 5) 500 = 16000"
proof -
  have le: "100 \<le> d \<and> d \<le> 16000" if "d \<in> delays" for d using that by (auto simp: delays_def)
  show ?thesis
  proof (cases "lo_found io")
    case False
    with assms show ?thesis by (auto simp: log_sender_round_def next_delay_def numeral_eq_Suc)
  next
    case True
    with assms(2) obtain q' f1 cs where con: "log_connect (lo_tries io) (f\<lparr>lf_queue := Some q'\<rparr>) = Some (f1, cs)"
      and res: "f' = f1 \<or> f' = f1\<lparr>lf_sock := -1, lf_connected := False, lf_delay := next_delay (lf_delay f1)\<rparr>"
        "\<forall>d. LDelay d \<in> set calls \<longrightarrow> LDelay d \<in> set cs \<or> d = lf_delay f1"
      by (fastforce simp: log_sender_round_def split: option.splits if_splits)
    from log_connect_delays [OF con] assms(1) have "lf_delay f1 \<in> delays" "\<forall>d. LDelay d \<in> set cs \<longrightarrow> d \<in> delays" by auto
    with res le next_delay_in show ?thesis by (auto simp: next_delay_def numeral_eq_Suc)
  qed
qed

definition log_io_example :: log_io where
  "log_io_example = \<lparr>lo_found = True, lo_tries = [\<lparr>ct_sock = -1, ct_ip = 1, ct_port = 7788, ct_connect = 0\<rparr>,
     \<lparr>ct_sock = 6, ct_ip = 1, ct_port = 7788, ct_connect = 0\<rparr>], lo_sent = 12, lo_pkt = replicate 263 0\<rparr>"

definition entry_example :: log_entry where
  "entry_example = \<lparr>le_level = 3, le_len = 2, le_msg = ''ok'' @ replicate 254 NUL\<rparr>"

definition log_fwd_example :: "log_entry list log_fwd" where
  "log_fwd_example = \<lparr>lf_sock = -1, lf_connected = False,
     lf_queue = Some [entry_example], lf_delay = 500\<rparr>"

lemma entry_example_holds: "entry_holds entry_example ''ok''"
  by (simp add: entry_example_def entry_holds_def detect_level_def skip_ansi.simps const_defs)

section \<open>From the hook to the connection\<close>

text \<open>What a round needs in order to end: a daemon is known and a connection attempt succeeds.\<close>

definition round_ok :: "log_io \<Rightarrow> bool" where
  "round_ok io \<longleftrightarrow> lo_found io \<and> list_ex try_ok (lo_tries io) \<and> length (lo_pkt io) = sizeof_Header + sizeof_LogPayload + LOG_MSG_MAX"

lemma log_sender_sends_all:
  assumes "queue_spec Q items n"
  shows "lf_queue f = Some q \<Longrightarrow> items q = es \<Longrightarrow> list_all2 entry_holds es ts \<Longrightarrow> list_all round_ok ios \<Longrightarrow>
     length ios = length es \<Longrightarrow> lf_delay f \<in> delays \<Longrightarrow>
     \<exists>f' calls socks. log_sender_task Q ios f = Log_Done (f', calls) \<and> length socks = length ts \<and>
       filter is_send calls = map2 (\<lambda>s t. LSend s (log_packet t)) socks ts"
proof (induction es arbitrary: f q ts ios)
  case (Cons e es)
  obtain t ts' where ts: "ts = t # ts'" "entry_holds e t" "list_all2 entry_holds es ts'"
    using Cons.prems(3) by (auto simp: list_all2_Cons1)
  obtain io ios' where ios: "ios = io # ios'" using Cons.prems(5) by (cases ios) auto
  have io: "lo_found io" "list_ex try_ok (lo_tries io)" "length (lo_pkt io) = sizeof_Header + sizeof_LogPayload + LOG_MSG_MAX"
    using Cons.prems(4) ios by (simp_all add: round_ok_def)
  obtain f1 calls q1 s where 1: "log_sender_round Q io f = Log_Done (f1, calls)" "lf_queue f1 = Some q1" "items q1 = es"
      "filter is_send calls = [LSend s (log_packet t)]"
    using log_sender_sends_line [OF assms Cons.prems(1,2) ts(2) io(1) _ io(3) Cons.prems(6)] io(2) by blast
  have "lf_delay f1 \<in> delays" using reconnect_delay_bounds [OF Cons.prems(6) 1(1)] by blast
  then obtain f' calls' socks where 2: "log_sender_task Q ios' f1 = Log_Done (f', calls')" "length socks = length ts'"
      "filter is_send calls' = map2 (\<lambda>s t. LSend s (log_packet t)) socks ts'"
    using Cons.IH [OF 1(2,3) ts(3), of ios'] Cons.prems(4,5) ios by auto
  from 1 2 ts(1) ios show ?case
    by (intro exI [of _ f'] exI [of _ "calls @ calls'"] exI [of _ "s # socks"]) simp
qed simp

text \<open>
  C35. Lines logged one after the other reach the connection in their order. Whether or not a daemon is
  known yet, every line goes into the crash reporter's ring and the queue takes the first 256; when the
  sender then runs, each of them is written as one packet, in order, however many connection attempts
  fail in between. Neither the hook nor the sender writes outside a buffer.
\<close>

theorem log_lines_sent_in_order:
  assumes q: "queue_spec Q items LOG_QUEUE_LEN" "lf_queue f = Some q" "items q = []" and r: "ring_ok r" and d: "lf_delay f \<in> delays"
    and io: "list_all (\<lambda>io. vprintf_io_ok io \<and> vp_block io \<noteq> None) ios" "map vp_text ios = map Some ts" "[] \<notin> set ts"
    and los: "list_all round_ok los" "length los = min (length ts) 256"
  shows "\<exists>r' f1 f2 calls socks. fold_opt (\<lambda>io (r, f). log_forwarder_vprintf Q io r f) ios (r, f) = Some (r', f1) \<and>
     ring_content r' = last_n RTC_BUF_SIZE (ring_content r @ concat (map (take 127) ts)) \<and>
     log_sender_task Q los f1 = Log_Done (f2, calls) \<and> length socks = min (length ts) 256 \<and>
     filter is_send calls = map2 (\<lambda>s t. LSend s (log_packet t)) socks (take 256 ts)"
proof -
  obtain r' q' es where 1: "fold_opt (\<lambda>io (r, f). log_forwarder_vprintf Q io r f) ios (r, f) = Some (r', f\<lparr>lf_queue := Some q'\<rparr>)"
    "ring_content r' = last_n RTC_BUF_SIZE (ring_content r @ concat (map (take 127) ts))"
    "items q' = es" "list_all2 entry_holds es (take 256 ts)"
    using log_lines_queued_in_order [OF q(1,2) _ r io] q(3) by auto
  have "length es = min (length ts) 256" using list_all2_lengthD [OF 1(4)] by simp
  with log_sender_sends_all [OF q(1), of "f\<lparr>lf_queue := Some q'\<rparr>" q' es "take 256 ts" los] 1 los d
  show ?thesis by fastforce
qed

theorem log_lines_sent_in_order_witness:
  "\<exists>r' f1 f2 calls s1 s2. fold_opt (\<lambda>io (r, f). log_forwarder_vprintf (list_queue 256) io r f) [line_io ''W up'', line_io ''E down'']
       (rtc_blank, fst (log_forwarder_init (list_queue 256))) = Some (r', f1) \<and> ring_content r' = ''W upE down'' \<and>
     log_sender_task (list_queue 256) [log_io_example, log_io_example] f1 = Log_Done (f2, calls) \<and>
     filter is_send calls = [LSend s1 (log_packet ''W up''), LSend s2 (log_packet ''E down'')]"
proof -
  let ?f = "fst (log_forwarder_init (list_queue 256))"
  have f: "lf_queue ?f = Some []" "lf_delay ?f \<in> delays" by (simp_all add: log_forwarder_init_def list_queue_def delays_def)
  have Q: "queue_spec (list_queue 256) (\<lambda>q. q) LOG_QUEUE_LEN" using list_queue_spec [of 256] by (simp add: const_defs)
  have "list_all round_ok [log_io_example, log_io_example]"
    by (simp add: round_ok_def log_io_example_def try_ok_def wire_size const_defs)
  from log_lines_sent_in_order [OF Q f(1) _ rtc_blank_ok(1) f(2) _ _ _ this, of "[line_io ''W up'', line_io ''E down'']" "[''W up'', ''E down'']"]
  show ?thesis using line_io_ok
    by (auto simp: rtc_blank_ok(2) const_defs length_Suc_conv simp del: fold_opt.simps log_sender_task.simps)
qed

end
