(* ===== verification/Portal_Text.thy ===== *)
theory Portal_Text
  imports Prelude "HOL-Library.Sublist"
begin

text \<open>
  The text functions of the setup portal (\<open>esp-codes/main/wifi_manager.c\<close>): decoding of form fields
  and escaping of network names. A C string is a list of characters without its terminating NUL; a
  character array is a list of its full size, and a write outside it is \<open>None\<close>. \<open>size_t\<close> is 32 bits wide.
\<close>

section \<open>Decoding\<close>

definition hexval :: "char \<Rightarrow> nat option" where
  "hexval c =
     (let n = of_char c :: nat
      in if 48 \<le> n \<and> n \<le> 57 then Some (n - 48)
         else if 65 \<le> n \<and> n \<le> 70 then Some (n - 55)
         else if 97 \<le> n \<and> n \<le> 102 then Some (n - 87) else None)"

definition is_space :: "char \<Rightarrow> bool" where
  "is_space c \<longleftrightarrow> (let n = of_char c :: nat in n = 32 \<or> (9 \<le> n \<and> n \<le> 13))"

text \<open>\<open>strtol\<close> in base 16 of a string of two characters.\<close>

definition strtol16 :: "char \<Rightarrow> char \<Rightarrow> int" where
  "strtol16 a b =
     (let digit = (\<lambda>c. case hexval c of None \<Rightarrow> 0 | Some v \<Rightarrow> int v)
      in case hexval a of
           Some v \<Rightarrow> (case hexval b of Some w \<Rightarrow> int (16 * v + w) | None \<Rightarrow> int v)
         | None \<Rightarrow> if is_space a \<or> a = CHR ''+'' then digit b else if a = CHR ''-'' then - digit b else 0)"

text \<open>The cast of a \<open>long\<close> to \<open>char\<close>.\<close>

definition char_of_int :: "int \<Rightarrow> char" where
  "char_of_int i = char_of (nat (i mod 256))"

fun url_decode_from :: "char list \<Rightarrow> nat \<Rightarrow> string \<Rightarrow> u32 \<Rightarrow> char list option" where
  "url_decode_from dst j [] dst_len = memcpy_at dst j [NUL]"
| "url_decode_from dst j (c # src) dst_len =
     (if j < unat (dst_len - 1) then
        if c = CHR ''+'' then do { d \<leftarrow> memcpy_at dst j [CHR '' '']; url_decode_from d (j + 1) src dst_len }
        else (case (c = CHR ''%'', src) of
                (True, h # l # src') \<Rightarrow> do {
                   d \<leftarrow> memcpy_at dst j [char_of_int (strtol16 h l)];
                   url_decode_from d (j + 1) src' dst_len }
              | _ \<Rightarrow> do { d \<leftarrow> memcpy_at dst j [c]; url_decode_from d (j + 1) src dst_len })
      else memcpy_at dst j [NUL])"

definition url_decode :: "char list \<Rightarrow> string \<Rightarrow> u32 \<Rightarrow> char list option" where
  "url_decode dst src dst_len = url_decode_from dst 0 src dst_len"

section \<open>Fields of a form\<close>

text \<open>\<open>strstr\<close>: the rest of the text from the first occurrence on.\<close>

fun strstr :: "string \<Rightarrow> string \<Rightarrow> string option" where
  "strstr [] pat = (if pat = [] then Some [] else None)"
| "strstr (c # s) pat = (if prefix pat (c # s) then Some (c # s) else strstr s pat)"

definition form_field :: "string \<Rightarrow> string \<Rightarrow> char list \<Rightarrow> u32 \<Rightarrow> (char list \<times> bool) option" where
  "form_field body key out out_len =
     (let search = take 63 (key @ ''='')
      in case strstr body search of
           None \<Rightarrow> Some (out, False)
         | Some p \<Rightarrow>
             let field = takeWhile (\<lambda>c. c \<noteq> CHR ''&'') (drop (length search) p);
                 field_len = (if length field \<ge> 256 then 255 else length field)
             in map_option (\<lambda>o'. (o', True)) (url_decode out (take field_len field) out_len))"

section \<open>Escaping\<close>

text \<open>What \<open>html_escape\<close> writes for one character.\<close>

definition esc_char :: "char \<Rightarrow> string" where
  "esc_char c =
     (if c = CHR ''&'' then ''&amp;''
      else if c = CHR 0x22 then ''&quot;''
      else if c = CHR ''<'' then ''&lt;''
      else if c = CHR ''>'' then ''&gt;'' else [c])"

fun html_escape_from :: "char list \<Rightarrow> nat \<Rightarrow> string \<Rightarrow> u32 \<Rightarrow> char list option" where
  "html_escape_from dst o' [] dst_len = memcpy_at dst o' [NUL]"
| "html_escape_from dst o' (c # src) dst_len =
     (if o' < unat (dst_len - 7) then do {
        d \<leftarrow> memcpy_at dst o' (esc_char c);
        html_escape_from d (o' + length (esc_char c)) src dst_len }
      else memcpy_at dst o' [NUL])"

definition html_escape :: "char list \<Rightarrow> string \<Rightarrow> u32 \<Rightarrow> char list option" where
  "html_escape dst src dst_len = html_escape_from dst 0 src dst_len"

section \<open>Decoding: correctness\<close>

text \<open>
  A text and a percent-encoding of it: any character but the special ones may stand for itself, a
  space may be written as a plus, and any character but NUL as its two hexadecimal digits.
\<close>

inductive url_encodes :: "string \<Rightarrow> string \<Rightarrow> bool" where
  enc_nil: "url_encodes [] []"
| enc_plain: "url_encodes s e \<Longrightarrow> c \<notin> set ''+%&='' \<Longrightarrow> c \<noteq> NUL \<Longrightarrow> url_encodes (c # s) (c # e)"
| enc_plus: "url_encodes s e \<Longrightarrow> url_encodes (CHR '' '' # s) (CHR ''+'' # e)"
| enc_hex: "url_encodes s e \<Longrightarrow> hexval h = Some a \<Longrightarrow> hexval l = Some b \<Longrightarrow> 0 < 16 * a + b \<Longrightarrow>
    url_encodes (char_of (16 * a + b) # s) (CHR ''%'' # h # l # e)"

lemma hexval_less: "hexval c = Some a \<Longrightarrow> a < 16"
  by (auto simp: hexval_def Let_def split: if_splits)

lemma hexval_not_special: "hexval c = Some a \<Longrightarrow> c \<noteq> CHR ''&'' \<and> c \<noteq> CHR ''='' \<and> c \<noteq> NUL"
  by (auto simp: hexval_def)

lemma strtol16_hex: "hexval h = Some a \<Longrightarrow> hexval l = Some b \<Longrightarrow> char_of_int (strtol16 h l) = char_of (16 * a + b)"
  using hexval_less [of h a] hexval_less [of l b]
  by (simp add: strtol16_def char_of_int_def nat_mod_distrib mod_less)

lemma url_encodes_chars:
  assumes "url_encodes s e"
  shows "CHR ''&'' \<notin> set e \<and> CHR ''='' \<notin> set e \<and> nul_free s \<and> nul_free e"
  using assms
proof (induction rule: url_encodes.induct)
  case (enc_hex s e h a l b)
  have "16 * a + b < 256" using hexval_less [OF enc_hex.hyps(2)] hexval_less [OF enc_hex.hyps(3)] by simp
  then have "of_char (char_of (16 * a + b) :: char) \<noteq> (0 :: nat)" using enc_hex.hyps(4) by simp
  moreover have "of_char NUL = (0 :: nat)" by simp
  ultimately have "char_of (16 * a + b) \<noteq> NUL" by metis
  with enc_hex hexval_not_special show ?case by auto
qed auto

text \<open>The array after a text is written, cut to fit, with its NUL.\<close>

definition written :: "char list \<Rightarrow> nat \<Rightarrow> string \<Rightarrow> char list \<Rightarrow> char list" where
  "written xs lim s rest = xs @ take (lim - length xs) s @ NUL # drop (Suc (min (lim - length xs) (length s))) rest"

lemma written_Cons:
  assumes "length xs < lim" and "rest \<noteq> []"
  shows "written (xs @ [c]) lim s (tl rest) = written xs lim (c # s) rest"
proof -
  obtain k where "lim - length xs = Suc k" using assms(1) by (metis Suc_diff_Suc)
  moreover from this have "lim - Suc (length xs) = k" by simp
  ultimately show ?thesis using assms(2) by (cases rest) (simp_all add: written_def)
qed

text \<open>One round of a writing loop: the character goes in if there is room for it and the NUL.\<close>

lemma put_step:
  assumes "lim < length xs + length rest" and "length xs \<le> lim"
    and "lim < length (xs @ [c]) + length (tl rest) \<longrightarrow> length (xs @ [c]) \<le> lim \<longrightarrow>
       wr ((xs @ [c]) @ tl rest) (length (xs @ [c])) = Some (written (xs @ [c]) lim s (tl rest))"
  shows "(if length xs < lim then do { d \<leftarrow> memcpy_at (xs @ rest) (length xs) [c]; wr d (length xs + 1) }
          else memcpy_at (xs @ rest) (length xs) [NUL]) = Some (written xs lim (c # s) rest)"
proof -
  obtain a rest' where rest: "rest = a # rest'" using assms(1,2) by (cases rest) auto
  show ?thesis
  proof (cases "length xs < lim")
    case True
    with assms rest written_Cons [OF True, of rest c s] show ?thesis by (simp add: memcpy_at_one)
  next
    case False
    with assms(2) have "length xs = lim" by simp
    with rest memcpy_at_one [of rest xs NUL] show ?thesis by (simp add: written_def)
  qed
qed

lemma url_decode_from_encoded:
  assumes "url_encodes s e" and "unat (n - 1) < length xs + length rest" and "length xs \<le> unat (n - 1)"
  shows "url_decode_from (xs @ rest) (length xs) e n = Some (written xs (unat (n - 1)) s rest)"
  using assms
proof (induction arbitrary: xs rest rule: url_encodes.induct)
  case enc_nil
  then show ?case by (cases rest) (simp_all add: memcpy_at_one written_def)
next
  case (enc_plain s e c)
  have "unat (n - 1) < length (xs @ [c]) + length (tl rest) \<longrightarrow> length (xs @ [c]) \<le> unat (n - 1) \<longrightarrow>
      url_decode_from ((xs @ [c]) @ tl rest) (length (xs @ [c])) e n = Some (written (xs @ [c]) (unat (n - 1)) s (tl rest))"
    using enc_plain.IH by blast
  from put_step [where wr = "\<lambda>d j. url_decode_from d j e n", OF enc_plain.prems this] enc_plain.hyps
  show ?case by (simp split: if_splits)
next
  case (enc_plus s e)
  have "unat (n - 1) < length (xs @ [CHR '' '']) + length (tl rest) \<longrightarrow> length (xs @ [CHR '' '']) \<le> unat (n - 1) \<longrightarrow>
      url_decode_from ((xs @ [CHR '' '']) @ tl rest) (length (xs @ [CHR '' ''])) e n = Some (written (xs @ [CHR '' '']) (unat (n - 1)) s (tl rest))"
    using enc_plus.IH by blast
  from put_step [where wr = "\<lambda>d j. url_decode_from d j e n", OF enc_plus.prems this]
  show ?case by (simp split: if_splits)
next
  case (enc_hex s e h a l b)
  have "unat (n - 1) < length (xs @ [char_of (16 * a + b)]) + length (tl rest) \<longrightarrow> length (xs @ [char_of (16 * a + b)]) \<le> unat (n - 1) \<longrightarrow>
      url_decode_from ((xs @ [char_of (16 * a + b)]) @ tl rest) (length (xs @ [char_of (16 * a + b)])) e n = Some (written (xs @ [char_of (16 * a + b)]) (unat (n - 1)) s (tl rest))"
    using enc_hex.IH by blast
  from put_step [where wr = "\<lambda>d j. url_decode_from d j e n", OF enc_hex.prems this] enc_hex.hyps
  show ?case by (simp add: strtol16_hex split: if_splits)
qed

lemma url_decode_writes:
  assumes "url_encodes s e" and "length dst = unat n" and "0 < n"
  shows "url_decode dst e n = Some (written [] (unat n - 1) s dst)"
    and "length (written [] (unat n - 1) s dst) = unat n" and "cstr (written [] (unat n - 1) s dst) = take (unat n - 1) s"
proof -
  have n: "unat (n - 1) = unat n - 1" using assms(3) by (simp add: unat_minus_one word_gt_0)
  have pos: "0 < unat n" using assms(3) by (simp add: word_less_nat_alt)
  then show "url_decode dst e n = Some (written [] (unat n - 1) s dst)"
    using url_decode_from_encoded [OF assms(1), of n "[]" dst] n assms(2) by (simp add: url_decode_def)
  show "length (written [] (unat n - 1) s dst) = unat n" using assms(2) pos by (auto simp: written_def min_def)
  have "nul_free (take (unat n - 1) s)" using url_encodes_chars [OF assms(1)] by (simp add: nul_free_take)
  then show "cstr (written [] (unat n - 1) s dst) = take (unat n - 1) s" by (simp add: written_def)
qed

text \<open>
  \<open>url_decode\<close> inverts every percent-encoding of a text, and never writes outside its buffer: the
  buffer afterwards holds the text, cut to its size less one, and a NUL.
\<close>

lemma url_decode_inverts:
  assumes "url_encodes s e" and "length dst = unat n" and "0 < n"
  shows "\<exists>dst'. url_decode dst e n = Some dst' \<and> length dst' = length dst \<and> cstr dst' = take (length dst - 1) s"
  using url_decode_writes [OF assms] assms(2) by auto

lemma url_encodes_example: "url_encodes ''a b&c'' ''a+b%26c''"
proof -
  have "url_encodes ''c'' ''c''" by (rule enc_plain [OF enc_nil]) simp_all
  moreover have "hexval CHR ''2'' = Some 2" "hexval CHR ''6'' = Some 6" by (simp_all add: hexval_def)
  ultimately have "url_encodes (char_of (16 * 2 + 6 :: nat) # ''c'') ''%26c''" by (rule enc_hex) simp
  moreover have "char_of (16 * 2 + 6 :: nat) = CHR ''&''" using char_of_char [of "CHR ''&''"] by simp
  ultimately have "url_encodes ''&c'' ''%26c''" by simp
  then have "url_encodes ''b&c'' ''b%26c''" by (rule enc_plain) simp_all
  then have "url_encodes '' b&c'' ''+b%26c''" by (rule enc_plus)
  then show ?thesis by (rule enc_plain) simp_all
qed

section \<open>Fields of a form: correctness\<close>

abbreviation EQ :: char where
  "EQ \<equiv> CHR ''=''"

lemma prefix_at_eq:
  "EQ \<notin> set k \<Longrightarrow> EQ \<notin> set xs \<Longrightarrow> prefix (k @ [EQ]) (xs @ EQ # ys) \<longleftrightarrow> k = xs"
proof (induction k arbitrary: xs)
  case Nil
  then show ?case by (cases xs) auto
next
  case (Cons c k)
  then show ?case by (cases xs) auto
qed

text \<open>A key is found where it first ends at an equals sign, even at the end of a longer name.\<close>

lemma strstr_key:
  "EQ \<notin> set k \<Longrightarrow> EQ \<notin> set xs \<Longrightarrow>
     strstr (xs @ EQ # ys) (k @ [EQ]) = (if suffix k xs then Some (k @ EQ # ys) else strstr ys (k @ [EQ]))"
proof (induction xs)
  case Nil
  then show ?case by (cases k) auto
next
  case (Cons x xs)
  from prefix_at_eq [OF Cons.prems] Cons show ?case
    by (auto simp: suffix_Cons)
qed

lemma strstr_no_key: "EQ \<notin> set xs \<Longrightarrow> strstr xs (k @ [EQ]) = None"
proof (induction xs)
  case (Cons x xs)
  have "\<not> prefix (k @ [EQ]) (x # xs)"
    using Cons.prems set_mono_prefix [of "k @ [EQ]" "x # xs"] by auto
  with Cons show ?case by simp
qed simp

lemma takeWhile_field:
  "CHR ''&'' \<notin> set e \<Longrightarrow> takeWhile (\<lambda>c. c \<noteq> CHR ''&'') (e @ CHR ''&'' # r) = e"
  "CHR ''&'' \<notin> set e \<Longrightarrow> takeWhile (\<lambda>c. c \<noteq> CHR ''&'') e = e"
  by (induction e) auto

text \<open>The value that a found field leaves in the output buffer.\<close>

lemma form_field_found:
  assumes key: "length key < 63" and at: "strstr body (key @ [EQ]) = Some (key @ EQ # e @ r)"
    and r: "r = [] \<or> hd r = CHR ''&''" and enc: "url_encodes s e" "length e < 256" and out: "length out = unat n" "0 < n"
  shows "\<exists>out'. form_field body key out n = Some (out', True) \<and> length out' = length out \<and>
     cstr out' = take (length out - 1) s"
proof -
  have "takeWhile (\<lambda>c. c \<noteq> CHR ''&'') (e @ r) = e"
    using r url_encodes_chars [OF enc(1)] by (cases r) (auto simp: takeWhile_field)
  then show ?thesis
    using key at enc(2) url_decode_writes [OF enc(1) out] out(1) by (simp add: form_field_def Let_def)
qed

lemma form_field_absent:
  "length key < 63 \<Longrightarrow> strstr body (key @ [EQ]) = None \<Longrightarrow> form_field body key out n = Some (out, False)"
  by (simp add: form_field_def)

section \<open>Escaping: correctness\<close>

lemma length_esc_char: "1 \<le> length (esc_char c) \<and> length (esc_char c) \<le> 6"
  by (simp add: esc_char_def)

lemma esc_char_safe: "c \<noteq> NUL \<Longrightarrow> nul_free (esc_char c) \<and> set (esc_char c) \<inter> {CHR 0x22, CHR ''<'', CHR ''>''} = {}"
  by (auto simp: esc_char_def)

lemma html_escape_from_text:
  assumes "length xs + length rest = unat n" and "7 < n" and "length xs < unat n"
  shows "\<exists>k dst'. html_escape_from (xs @ rest) (length xs) s n = Some dst' \<and> length dst' = unat n \<and>
     (\<exists>tl. dst' = xs @ concat (map esc_char (take k s)) @ NUL # tl) \<and>
     (length xs + length (concat (map esc_char s)) \<le> unat n - 7 \<longrightarrow> length s \<le> k)"
  using assms
proof (induction s arbitrary: xs rest)
  case Nil
  then have "rest \<noteq> []" by auto
  with Nil show ?case by (intro exI [of _ 0]) (auto simp: memcpy_at_one)
next
  case (Cons c s)
  have n7: "unat (n - 7) = unat n - 7" using Cons.prems(2) by (simp add: unat_sub word_le_nat_alt word_less_nat_alt)
  let ?e = "esc_char c"
  show ?case
  proof (cases "length xs < unat n - 7")
    case True
    then have fit: "length ?e < length rest" using length_esc_char [of c] Cons.prems(1) by linarith
    then have put: "memcpy_at (xs @ rest) (length xs) ?e = Some ((xs @ ?e) @ drop (length ?e) rest)"
      by (simp add: memcpy_at_end)
    have "\<exists>k dst'. html_escape_from ((xs @ ?e) @ drop (length ?e) rest) (length (xs @ ?e)) s n = Some dst' \<and> length dst' = unat n \<and>
       (\<exists>tl. dst' = (xs @ ?e) @ concat (map esc_char (take k s)) @ NUL # tl) \<and>
       (length (xs @ ?e) + length (concat (map esc_char s)) \<le> unat n - 7 \<longrightarrow> length s \<le> k)"
      using Cons.prems fit by (intro Cons.IH) auto
    then obtain k dst' tl where ih: "html_escape_from ((xs @ ?e) @ drop (length ?e) rest) (length (xs @ ?e)) s n = Some dst'"
        "length dst' = unat n" "dst' = (xs @ ?e) @ concat (map esc_char (take k s)) @ NUL # tl"
        "length (xs @ ?e) + length (concat (map esc_char s)) \<le> unat n - 7 \<longrightarrow> length s \<le> k" by blast
    with True put n7 show ?thesis by (intro exI [of _ "Suc k"] exI [of _ dst']) auto
  next
    case False
    then have "rest \<noteq> []" using Cons.prems by auto
    moreover have "\<not> length xs + length (concat (map esc_char (c # s))) \<le> unat n - 7"
      using False length_esc_char [of c] by simp
    ultimately show ?thesis
      using False n7 Cons.prems by (intro exI [of _ 0]) (auto simp: memcpy_at_one)
  qed
qed

text \<open>
  \<open>html_escape\<close> never writes outside its buffer and never lets markup through: what it writes is
  the escaped form of some beginning of the text, free of quotes and angle brackets, and of the whole
  text when that leaves seven bytes of the buffer unused.
\<close>

lemma html_escape_safe:
  assumes "length dst = unat n" and "7 < n" and "nul_free s"
  shows "\<exists>k dst'. html_escape dst s n = Some dst' \<and> length dst' = length dst \<and>
     cstr dst' = concat (map esc_char (take k s)) \<and> set (cstr dst') \<inter> {CHR 0x22, CHR ''<'', CHR ''>''} = {} \<and>
     (length (concat (map esc_char s)) \<le> length dst - 7 \<longrightarrow> cstr dst' = concat (map esc_char s))"
proof -
  have "0 < unat n" using assms(2) by (simp add: word_less_nat_alt)
  then have "\<exists>k dst'. html_escape_from dst 0 s n = Some dst' \<and> length dst' = unat n \<and>
     (\<exists>tl. dst' = concat (map esc_char (take k s)) @ NUL # tl) \<and>
     (length (concat (map esc_char s)) \<le> unat n - 7 \<longrightarrow> length s \<le> k)"
    using html_escape_from_text [of "[]" dst n s] assms by simp
  then obtain k dst' tl where r: "html_escape_from dst 0 s n = Some dst'" "length dst' = unat n"
      "dst' = concat (map esc_char (take k s)) @ NUL # tl" "length (concat (map esc_char s)) \<le> unat n - 7 \<longrightarrow> length s \<le> k"
    by blast
  have clean: "nul_free (concat (map esc_char t)) \<and> set (concat (map esc_char t)) \<inter> {CHR 0x22, CHR ''<'', CHR ''>''} = {}"
    if "nul_free t" for t
    using that by (induction t) (use esc_char_safe in auto)
  then have "cstr dst' = concat (map esc_char (take k s))"
    using r(3) nul_free_take [OF assms(3), of k] by simp
  with r clean [OF nul_free_take [OF assms(3), of k]] assms(1) show ?thesis
    by (intro exI [of _ k] exI [of _ dst']) (auto simp: html_escape_def)
qed

end
