(* ===== verification/Portal_Page.thy ===== *)
theory Portal_Page
  imports Portal_Text
begin

text \<open>
  The page of the setup portal (\<open>esp-codes/main/wifi_manager.c\<close>, \<open>send_portal_html\<close>), with its text as the
  source has it, the replies of the other handlers, and what a browser reads from the page: the values
  of the attributes, with character references resolved.
\<close>

section \<open>The page\<close>

definition HEAD :: string where
  "HEAD = concat
     [''<!DOCTYPE html><html><head>'',
      ''<meta charset='utf-8'>'',
      ''<meta name='viewport' content='width=device-width,initial-scale=1'>'',
      ''<title>WirelessHub Setup</title>'',
      ''<style>'',
      ''*{box-sizing:border-box;margin:0;padding:0}'',
      ''body{font-family:-apple-system,BlinkMacSystemFont,'Segoe UI',sans-serif;'',
      ''background:#f0f2f5;display:flex;align-items:center;justify-content:center;'',
      ''min-height:100vh;padding:16px}'',
      ''.card{background:#fff;border-radius:16px;padding:32px 24px;width:100%;'',
      ''max-width:400px;box-shadow:0 4px 24px rgba(0,0,0,.08)}'',
      ''h2{font-size:1.25rem;font-weight:700;color:#111;margin-bottom:4px}'',
      ''p{font-size:.85rem;color:#888;margin-bottom:24px}'',
      ''label{display:block;font-size:.78rem;font-weight:600;color:#555;'',
      ''margin-bottom:6px;margin-top:18px}'',
      ''select,input{width:100%;padding:12px 14px;border:1.5px solid #e0e0e0;'',
      ''border-radius:10px;font-size:1rem;outline:none;background:#fafafa;'',
      ''-webkit-appearance:none;appearance:none;color:#111}'',
      ''select{background-image:url('' @ [CHR 0x22] @ ''data:image/svg+xml,%3Csvg xmlns='http://www.w3.org/2000/svg' '',
      ''width='12' height='8' viewBox='0 0 12 8'%3E%3Cpath d='M1 1l5 5 5-5' stroke='%23888' '',
      ''stroke-width='1.5' fill='none' stroke-linecap='round'/%3E%3C/svg%3E'' @ [CHR 0x22] @ '');'',
      ''background-repeat:no-repeat;background-position:right 14px center;padding-right:36px}'',
      ''select:focus,input:focus{border-color:#4f8ef7;background:#fff}'',
      ''.sep{text-align:center;color:#bbb;font-size:.78rem;margin-top:14px;margin-bottom:2px}'',
      ''button{margin-top:28px;width:100%;padding:14px;background:#4f8ef7;'',
      ''color:#fff;border:none;border-radius:10px;font-size:1rem;font-weight:600;cursor:pointer}'',
      ''button:active{background:#3a7de0}'',
      ''</style></head><body><div class='card'>'',
      ''<h2>WirelessHub Setup</h2>'',
      ''<p>Connect the device to your WiFi network.</p>'',
      ''<form method='POST' action='/save'>'']"

definition SEL_OPEN :: string where
  "SEL_OPEN = concat
     [''<label>Network</label>'',
      ''<select name='ssid_list'>'',
      ''<option value='' @ [CHR 0x27, CHR 0x27] @ ''>'' @
      [CHR 0xE2, CHR 0x80, CHR 0x94] @ '' choose network '' @ [CHR 0xE2, CHR 0x80, CHR 0x94] @ ''</option>'']"

definition SEL_CLOSE :: string where
  "SEL_CLOSE = ''</select>''"

definition TAIL :: string where
  "TAIL = concat
     [''<p class='sep'>or type manually</p>'',
      ''<input name='ssid_manual' placeholder='SSID' maxlength='31'>'',
      ''<label>Password</label>'',
      ''<input name='pass' type='password' placeholder='Leave empty if open' maxlength='63'>'',
      ''<button type='submit'>Connect</button>'',
      ''</form></div></body></html>'']"

text \<open>The list of networks: one escaped option each, printed into \<open>opt[320]\<close>.\<close>

definition portal_option :: "string \<Rightarrow> string option" where
  "portal_option ssid = do {
     esc \<leftarrow> html_escape (replicate 140 NUL) ssid 140;
     let e = cstr esc;
     Some (take 319 (''<option value='' @ [CHR 0x22] @ e @ [CHR 0x22] @ ''>'' @ e @ ''</option>'')) }"

fun portal_options :: "string list \<Rightarrow> string list option" where
  "portal_options [] = Some []"
| "portal_options (ssid # ssids) =
     (if ssid = [] then portal_options ssids
      else do { c \<leftarrow> portal_option ssid; cs \<leftarrow> portal_options ssids; Some (c # cs) })"

text \<open>The chunks sent, for the given list of networks; the last, empty one ends the reply.\<close>

definition portal_chunks :: "string list \<Rightarrow> string list option" where
  "portal_chunks scan = do {
     opts \<leftarrow> (if scan \<noteq> [] then do { os \<leftarrow> portal_options scan; Some ([SEL_OPEN] @ os @ [SEL_CLOSE]) } else Some []);
     Some ([HEAD] @ opts @ [TAIL, []]) }"

section \<open>Replies\<close>

text \<open>
  A reply: the status and the type, where the handler sets them, the headers it adds and the chunks of
  the body; or an error sent by \<open>httpd_resp_send_err\<close>.
\<close>

datatype http_reply =
    Reply "string option" "string option" "(string \<times> string) list" "string list"
  | Reply_Error nat string

definition send_portal_html :: "string list \<Rightarrow> http_reply option" where
  "send_portal_html scan =
     map_option
       (Reply (Some ''200 OK'') (Some ''text/html'')
          [(''Cache-Control'', ''no-store, no-cache, must-revalidate''), (''Pragma'', ''no-cache''), (''Connection'', ''close'')])
       (portal_chunks scan)"

definition captive_redirect_handler :: "string list \<Rightarrow> http_reply option" where
  "captive_redirect_handler scan = send_portal_html scan"

definition portal_html_handler :: "string list \<Rightarrow> http_reply option" where
  "portal_html_handler scan = send_portal_html scan"

definition redirect_to_portal_handler :: http_reply where
  "redirect_to_portal_handler = Reply (Some ''302 Found'') None [(''Location'', ''http://4.3.2.1'')] []"

definition windows_connecttest_handler :: http_reply where
  "windows_connecttest_handler = Reply (Some ''302 Found'') None [(''Location'', ''http://logout.net'')] []"

definition not_found_handler :: http_reply where
  "not_found_handler = Reply_Error 404 ''Not Found''"

definition api_captive_handler :: http_reply where
  "api_captive_handler = Reply None (Some ''application/captive+json'') [(''Cache-Control'', ''private, no-store'')]
     [let q = [CHR 0x22]
      in ''{'' @ q @ ''captive'' @ q @ '':true,'' @ q @ ''user-portal-url'' @ q @ '':'' @ q @ ''http://4.3.2.1/'' @ q @ ''}'']"

section \<open>Reading a page\<close>

lemma strstr_prefix: "strstr s pat = Some p \<Longrightarrow> prefix pat p \<and> length p \<le> length s"
  by (induction s) (auto split: if_splits)

text \<open>The values of an attribute: what follows each occurrence of \<open>pat\<close>, up to the closing quote \<open>q\<close>.\<close>

function attr_values :: "string \<Rightarrow> char \<Rightarrow> string \<Rightarrow> string list" where
  "attr_values pat q page =
     (if pat = [] then []
      else case strstr page pat of
             None \<Rightarrow> []
           | Some p \<Rightarrow>
               let r = drop (length pat) p
               in takeWhile (\<lambda>c. c \<noteq> q) r # attr_values pat q (dropWhile (\<lambda>c. c \<noteq> q) r))"
  by auto
termination
proof (relation "measure (\<lambda>(pat, q, page). length page)")
  fix pat :: string and q :: char and page p r :: string
  assume a: "pat \<noteq> []" "strstr page pat = Some p" "r = drop (length pat) p"
  have "length (dropWhile (\<lambda>c. c \<noteq> q) r) \<le> length r" by (rule length_dropWhile_le)
  also have "\<dots> < length p" using a strstr_prefix [OF a(2)] by (auto simp: prefix_def)
  finally show "((pat, q, dropWhile (\<lambda>c. c \<noteq> q) r), (pat, q, page)) \<in> measure (\<lambda>(pat, q, page). length page)"
    using strstr_prefix [OF a(2)] by simp
qed simp

declare attr_values.simps [simp del]

text \<open>The character references that \<open>html_escape\<close> writes, resolved.\<close>

fun html_unescape :: "string \<Rightarrow> string" where
  "html_unescape [] = []"
| "html_unescape (c # s) =
     (if prefix ''&amp;'' (c # s) then CHR ''&'' # html_unescape (drop 4 s)
      else if prefix ''&quot;'' (c # s) then CHR 0x22 # html_unescape (drop 5 s)
      else if prefix ''&lt;'' (c # s) then CHR ''<'' # html_unescape (drop 3 s)
      else if prefix ''&gt;'' (c # s) then CHR ''>'' # html_unescape (drop 3 s)
      else c # html_unescape s)"

lemma html_unescape_char: "html_unescape (esc_char c @ s) = c # html_unescape s"
proof (cases "c \<in> {CHR ''&'', CHR 0x22, CHR ''<'', CHR ''>''}")
  case True
  then show ?thesis by (auto simp: esc_char_def)
next
  case False
  then have "esc_char c = [c]" "CHR ''&'' \<noteq> c" by (auto simp: esc_char_def)
  then show ?thesis by simp
qed

lemma html_unescape_inverts: "html_unescape (concat (map esc_char s)) = s"
  by (induction s) (simp_all add: html_unescape_char)

section \<open>Searching a page\<close>

text \<open>A pattern that is a beginning of a tag is not found across the end of a piece that ends a tag.\<close>

definition opens_tag :: "string \<Rightarrow> bool" where
  "opens_tag pat \<longleftrightarrow> pat \<noteq> [] \<and> hd pat = CHR ''<'' \<and> CHR ''>'' \<notin> set pat"

lemma strstr_skip:
  assumes "opens_tag pat" and "strstr xs pat = None" and "xs \<noteq> []" and "last xs = CHR ''>''"
  shows "strstr (xs @ ys) pat = strstr ys pat"
  using assms(2-4)
proof (induction xs)
  case (Cons x xs)
  have "\<not> prefix pat ((x # xs) @ ys)"
  proof
    assume "prefix pat ((x # xs) @ ys)"
    then have "prefix pat (x # xs) \<or> (\<exists>zs. pat = (x # xs) @ zs)" unfolding prefix_append by blast
    moreover have "\<not> prefix pat (x # xs)" using Cons.prems(1) by (auto split: if_splits)
    moreover have "CHR ''>'' \<in> set (x # xs)" using last_in_set [of "x # xs"] unfolding Cons.prems(3) by simp
    then have "CHR ''>'' \<in> set ((x # xs) @ zs)" for zs by (rule set_mp [rotated]) (rule set_mono_prefix, simp)
    ultimately show False using assms(1) unfolding opens_tag_def by blast
  qed
  then have step: "strstr ((x # xs) @ ys) pat = strstr (xs @ ys) pat" by simp
  show ?case
  proof (cases "xs = []")
    case True
    with step show ?thesis by simp
  next
    case False
    with Cons step show ?thesis by (simp split: if_splits)
  qed
qed simp

lemma strstr_text:
  assumes "opens_tag pat" and "CHR ''<'' \<notin> set xs"
  shows "strstr (xs @ ys) pat = strstr ys pat"
  using assms(2)
proof (induction xs)
  case (Cons x xs)
  then have "\<not> prefix pat (x # xs @ ys)" using assms(1) by (cases pat) (auto simp: opens_tag_def)
  with Cons show ?case by simp
qed simp

lemma attr_values_cong: "strstr xs pat = strstr ys pat \<Longrightarrow> attr_values pat q xs = attr_values pat q ys"
  by (subst (1 2) attr_values.simps) simp

lemmas attr_values_skip = strstr_skip [THEN attr_values_cong]
lemmas attr_values_text = strstr_text [THEN attr_values_cong]

lemma attr_values_hit:
  assumes "opens_tag pat" and "q \<notin> set v"
  shows "attr_values pat q (pat @ v @ q # ys) = v # attr_values pat q (q # ys)"
proof -
  have "strstr (pat @ v @ q # ys) pat = Some (pat @ v @ q # ys)" using assms(1) by (cases pat) (auto simp: opens_tag_def)
  moreover have "takeWhile (\<lambda>c. c \<noteq> q) (v @ q # ys) = v" "dropWhile (\<lambda>c. c \<noteq> q) (v @ q # ys) = q # ys"
    using assms(2) by (induction v) auto
  ultimately show ?thesis using assms(1) by (subst attr_values.simps) (simp add: opens_tag_def)
qed

section \<open>What the page offers\<close>

abbreviation QT :: char where "QT \<equiv> CHR 0x22"
abbreviation SQ :: char where "SQ \<equiv> CHR 0x27"

definition option_tag :: string where "option_tag = ''<option value='' @ [QT]"
definition select_tag :: string where "select_tag = ''<select name='' @ [SQ]"
definition input_tag :: string where "input_tag = ''<input name='' @ [SQ]"

lemmas tag_defs = option_tag_def select_tag_def input_tag_def

lemma tags_open [simp]: "opens_tag option_tag" "opens_tag select_tag" "opens_tag input_tag"
  by (simp_all add: tag_defs opens_tag_def)

text \<open>The lines of the page's fixed parts: text, or something that ends with a tag.\<close>

definition piece_ok :: "string \<Rightarrow> string \<Rightarrow> bool" where
  "piece_ok pat xs \<longleftrightarrow> CHR ''<'' \<notin> set xs \<or> xs \<noteq> [] \<and> last xs = CHR ''>'' \<and> strstr xs pat = None"

lemma strstr_pieces:
  "opens_tag pat \<Longrightarrow> list_all (piece_ok pat) ps \<Longrightarrow> strstr (concat ps @ ys) pat = strstr ys pat"
  by (induction ps) (auto simp: piece_ok_def strstr_text strstr_skip)

lemmas attr_values_pieces = strstr_pieces [THEN attr_values_cong]

lemma head_values:
  "attr_values option_tag q (HEAD @ ys) = attr_values option_tag q ys"
  "attr_values select_tag q (HEAD @ ys) = attr_values select_tag q ys"
  "attr_values input_tag q (HEAD @ ys) = attr_values input_tag q ys"
  unfolding HEAD_def by (rule attr_values_pieces, simp, simp only: list.pred_inject, intro conjI TrueI; code_simp)+

lemma sel_open_values:
  "attr_values option_tag q (SEL_OPEN @ ys) = attr_values option_tag q ys"
  "attr_values input_tag q (SEL_OPEN @ ys) = attr_values input_tag q ys"
  unfolding SEL_OPEN_def by (rule attr_values_pieces, simp, simp only: list.pred_inject, intro conjI TrueI; code_simp)+

lemma sel_close_values:
  "attr_values option_tag q (SEL_CLOSE @ ys) = attr_values option_tag q ys"
  "attr_values select_tag q (SEL_CLOSE @ ys) = attr_values select_tag q ys"
  "attr_values input_tag q (SEL_CLOSE @ ys) = attr_values input_tag q ys"
  by (rule attr_values_skip; code_simp)+

lemma tail_values:
  "attr_values option_tag QT TAIL = []" "attr_values select_tag SQ TAIL = []"
  "attr_values input_tag SQ TAIL = [''ssid_manual'', ''pass'']"
  by code_simp+

text \<open>The selection list has one field.\<close>

lemma sel_open_field: "attr_values select_tag SQ (SEL_OPEN @ ys) = ''ssid_list'' # attr_values select_tag SQ ys"
proof -
  let ?v = "concat [''>'', ''<option value='' @ [CHR 0x27, CHR 0x27] @ ''>'' @ [CHR 0xE2, CHR 0x80, CHR 0x94] @ '' choose network '' @
    [CHR 0xE2, CHR 0x80, CHR 0x94] @ ''</option>'']"
  have split: "SEL_OPEN @ ys = ''<label>Network</label>'' @ select_tag @ ''ssid_list'' @ SQ # ?v @ ys"
    by (simp add: SEL_OPEN_def select_tag_def)
  have "attr_values select_tag SQ (SEL_OPEN @ ys) = attr_values select_tag SQ (select_tag @ ''ssid_list'' @ SQ # ?v @ ys)"
    unfolding split by (rule attr_values_skip; code_simp)
  also have "\<dots> = ''ssid_list'' # attr_values select_tag SQ ([SQ] @ ?v @ ys)"
    by (subst attr_values_hit) simp_all
  also have "attr_values select_tag SQ ([SQ] @ ?v @ ys) = attr_values select_tag SQ (?v @ ys)"
    by (rule attr_values_text) simp_all
  also have "\<dots> = attr_values select_tag SQ ys"
    by (rule attr_values_pieces, simp, simp only: list.pred_inject, intro conjI TrueI; code_simp)
  finally show ?thesis .
qed

text \<open>One option: its value is the escaped name, and no other tag opens in it.\<close>

definition option_text :: "string \<Rightarrow> string" where
  "option_text e = option_tag @ e @ [QT] @ ''>'' @ e @ ''</option>''"

lemma option_end_tag:
  "strstr ''</option>'' option_tag = None" "strstr ''</option>'' select_tag = None" "strstr ''</option>'' input_tag = None"
  by code_simp+

lemma option_end:
  assumes "opens_tag pat" and "strstr ''</option>'' pat = None" and "CHR ''<'' \<notin> set e"
  shows "attr_values pat q ([QT] @ ''>'' @ e @ ''</option>'' @ ys) = attr_values pat q ys"
proof -
  have "attr_values pat q ((QT # ''>'' @ e) @ ''</option>'' @ ys) = attr_values pat q (''</option>'' @ ys)"
    using assms by (intro attr_values_text) auto
  also have "\<dots> = attr_values pat q ys" using assms by (intro attr_values_skip) auto
  finally show ?thesis by simp
qed

lemma option_value:
  assumes "QT \<notin> set e" and "CHR ''<'' \<notin> set e"
  shows "attr_values option_tag QT (option_text e @ ys) = e # attr_values option_tag QT ys"
proof -
  have "attr_values option_tag QT (option_text e @ ys) = e # attr_values option_tag QT (QT # ''>'' @ e @ ''</option>'' @ ys)"
    using attr_values_hit [of option_tag QT e "''>'' @ e @ ''</option>'' @ ys"] assms(1) by (simp add: option_text_def)
  also have "attr_values option_tag QT (QT # ''>'' @ e @ ''</option>'' @ ys) = attr_values option_tag QT ys"
    using option_end [OF tags_open(1) option_end_tag(1) assms(2)] by simp
  finally show ?thesis .
qed

lemma option_no_field:
  assumes "pat = select_tag \<or> pat = input_tag" and "CHR ''<'' \<notin> set e"
  shows "attr_values pat q (option_text e @ ys) = attr_values pat q ys"
proof -
  have op: "opens_tag pat" "strstr ''</option>'' pat = None" using assms(1) tags_open option_end_tag by blast+
  have "\<not> prefix pat (CHR ''<'' # CHR ''o'' # r)" for r using assms(1) by (elim disjE) (simp_all add: tag_defs)
  then have "strstr (CHR ''<'' # CHR ''o'' # r) pat = strstr (CHR ''o'' # r) pat" for r by (simp only: strstr.simps if_False)
  then have "strstr (option_text e @ ys) pat = strstr ((''option value='' @ [QT] @ e) @ [QT] @ ''>'' @ e @ ''</option>'' @ ys) pat"
    unfolding option_text_def option_tag_def by (simp only: append.simps append_assoc)
  then have "attr_values pat q (option_text e @ ys) = attr_values pat q ((''option value='' @ [QT] @ e) @ [QT] @ ''>'' @ e @ ''</option>'' @ ys)"
    by (rule attr_values_cong)
  also have "\<dots> = attr_values pat q ([QT] @ ''>'' @ e @ ''</option>'' @ ys)"
    using assms(2) op(1) by (intro attr_values_text) auto
  also have "\<dots> = attr_values pat q ys" by (rule option_end [OF op assms(2)])
  finally show ?thesis .
qed

section \<open>The page as a whole\<close>

text \<open>A name whose escaped form leaves room in \<open>esc[140]\<close>; every name of up to 22 characters does.\<close>

definition fits_page :: "string \<Rightarrow> bool" where
  "fits_page s \<longleftrightarrow> nul_free s \<and> length (concat (map esc_char s)) \<le> 133"

lemma length_escaped: "length (concat (map esc_char s)) \<le> 6 * length s"
proof (induction s)
  case (Cons c s)
  then show ?case using length_esc_char [of c] by simp
qed simp

lemma short_fits_page: "nul_free s \<Longrightarrow> length s \<le> 22 \<Longrightarrow> fits_page s"
  using length_escaped [of s] by (simp add: fits_page_def)

lemma portal_option_text:
  assumes "fits_page s"
  shows "portal_option s = Some (option_text (concat (map esc_char s)))"
    and "set (concat (map esc_char s)) \<inter> {QT, CHR ''<'', CHR ''>''} = {}"
proof -
  let ?e = "concat (map esc_char s)"
  have "\<exists>k dst'. html_escape (replicate 140 NUL) s 140 = Some dst' \<and> cstr dst' = ?e \<and> set (cstr dst') \<inter> {QT, CHR ''<'', CHR ''>''} = {}"
    using html_escape_safe [of "replicate 140 NUL" 140 s] assms by (auto simp: fits_page_def)
  then obtain dst' where d: "html_escape (replicate 140 NUL) s 140 = Some dst'" "cstr dst' = ?e" "set ?e \<inter> {QT, CHR ''<'', CHR ''>''} = {}" by metis
  have "length (option_text ?e) \<le> 319" using assms by (simp add: option_text_def option_tag_def fits_page_def)
  then show "portal_option s = Some (option_text ?e)"
    using d(1,2) by (simp add: portal_option_def Let_def option_text_def option_tag_def)
  show "set ?e \<inter> {QT, CHR ''<'', CHR ''>''} = {}" by (rule d(3))
qed

lemma portal_options_text:
  "list_all fits_page scan \<Longrightarrow>
     portal_options scan = Some (map (option_text \<circ> (\<lambda>s. concat (map esc_char s))) (filter (\<lambda>s. s \<noteq> []) scan))"
  by (induction scan) (simp_all add: portal_option_text(1))

definition options_text :: "string list \<Rightarrow> string" where
  "options_text ss = concat (map (option_text \<circ> (\<lambda>s. concat (map esc_char s))) ss)"

lemma options_values:
  "list_all fits_page ss \<Longrightarrow>
     map html_unescape (attr_values option_tag QT (options_text ss @ ys)) = ss @ map html_unescape (attr_values option_tag QT ys) \<and>
     attr_values select_tag SQ (options_text ss @ ys) = attr_values select_tag SQ ys \<and>
     attr_values input_tag SQ (options_text ss @ ys) = attr_values input_tag SQ ys"
proof (induction ss)
  case (Cons s ss)
  let ?e = "concat (map esc_char s)"
  have clean: "QT \<notin> set ?e" "CHR ''<'' \<notin> set ?e"
    using portal_option_text(2) [of s] Cons.prems by auto
  have split: "options_text (s # ss) @ ys = option_text ?e @ options_text ss @ ys" by (simp add: options_text_def)
  show ?case
    unfolding split option_value [OF clean] option_no_field [OF disjI1 [OF refl] clean(2)] option_no_field [OF disjI2 [OF refl] clean(2)]
    using Cons by (simp add: html_unescape_inverts)
qed (simp add: options_text_def)

text \<open>
  The page lists the networks found, in order, each under its own name, and its fields are the ones
  the form handler looks for.
\<close>

lemma portal_page_values:
  assumes "list_all fits_page scan"
  shows "\<exists>chunks. portal_chunks scan = Some chunks \<and>
     map html_unescape (attr_values option_tag QT (concat chunks)) = filter (\<lambda>s. s \<noteq> []) scan \<and>
     attr_values select_tag SQ (concat chunks) = (if scan = [] then [] else [''ssid_list'']) \<and>
     attr_values input_tag SQ (concat chunks) = [''ssid_manual'', ''pass'']"
proof (cases "scan = []")
  case True
  then show ?thesis by (simp add: portal_chunks_def head_values tail_values)
next
  case False
  have "list_all fits_page (filter (\<lambda>s. s \<noteq> []) scan)" using assms by (simp add: list_all_iff)
  note vals = options_values [OF this, of "SEL_CLOSE @ TAIL"]
  have "portal_chunks scan = Some ([HEAD, SEL_OPEN] @ map (option_text \<circ> (\<lambda>s. concat (map esc_char s))) (filter (\<lambda>s. s \<noteq> []) scan)
      @ [SEL_CLOSE, TAIL, []])" (is "_ = Some ?chunks")
    using False portal_options_text [OF assms] by (simp add: portal_chunks_def)
  moreover have "concat ?chunks = HEAD @ SEL_OPEN @ options_text (filter (\<lambda>s. s \<noteq> []) scan) @ SEL_CLOSE @ TAIL"
    by (simp add: options_text_def)
  ultimately show ?thesis
    using False vals by (simp add: head_values sel_open_values sel_open_field sel_close_values tail_values)
qed

end
