(* ===== verification/Dns_Hijack.thy ===== *)
theory Dns_Hijack
  imports Prelude
begin

text \<open>
  The DNS server of the setup portal (\<open>esp-codes/main/wifi_manager.c\<close>, \<open>dns_server_task\<close>): it answers
  every query with the portal's own address. One round handles one datagram; arrays have their full
  size and an access outside them is \<open>None\<close>.
\<close>

section \<open>One round\<close>

text \<open>Copying a label into \<open>qname\<close>: the label's bytes that are left, and where reading and writing are.\<close>

fun copy_label :: "byte list \<Rightarrow> nat \<Rightarrow> nat \<Rightarrow> nat \<Rightarrow> nat \<Rightarrow> byte list \<Rightarrow> (nat \<times> nat \<times> byte list) option" where
  "copy_label buf len 0 qi qo qname = Some (qi, qo, qname)"
| "copy_label buf len (Suc k) qi qo qname =
     (if qi < len then do {
        b \<leftarrow> mem_read buf qi 1;
        q \<leftarrow> memcpy_at qname qo b;
        copy_label buf len k (qi + 1) (qo + 1) q }
      else Some (qi, qo, qname))"

lemma copy_label_grows: "copy_label buf len k qi qo qname = Some (qi', qo', q) \<Longrightarrow> qi \<le> qi'"
  by (induction buf len k qi qo qname arbitrary: qi' qo' q rule: copy_label.induct)
    (fastforce simp: bind_eq_Some_conv split: if_splits)+

text \<open>The loop that extracts the name for the log line; \<open>sizeof(qname) - 2\<close> is 126.\<close>

function qname_loop :: "byte list \<Rightarrow> nat \<Rightarrow> nat \<Rightarrow> nat \<Rightarrow> byte list \<Rightarrow> (nat \<times> byte list) option" where
  "qname_loop buf len qi qo qname =
     (if qi < len \<and> qi < length buf \<and> buf ! qi \<noteq> 0 \<and> qo < 126 then
        let l = buf ! qi
        in if l AND 0xC0 = 0xC0 then Some (qo, qname)
           else (case copy_label buf len (unat l) (qi + 1) qo qname of
                   None \<Rightarrow> None
                 | Some (qi', qo', q) \<Rightarrow>
                     (case memcpy_at q qo' [46] of
                        None \<Rightarrow> None
                      | Some q' \<Rightarrow> qname_loop buf len qi' (qo' + 1) q'))
      else if qi < len \<and> length buf \<le> qi then None
      else Some (qo, qname))"
  by pat_completeness auto
termination
  by (relation "measure (\<lambda>(buf, len, qi, qo, qname). len - qi)") (auto dest: copy_label_grows)

declare qname_loop.simps [simp del]

text \<open>The loop that finds the end of the name: the index after it.\<close>

function name_end :: "byte list \<Rightarrow> nat \<Rightarrow> nat \<Rightarrow> nat option" where
  "name_end buf len ne =
     (if ne < len then
        if length buf \<le> ne then None
        else if buf ! ne = 0 then Some (ne + 1)
        else if buf ! ne AND 0xC0 = 0xC0 then Some (ne + 2)
        else name_end buf len (ne + unat (buf ! ne) + 1)
      else Some (ne + 1))"
  by pat_completeness auto
termination by (relation "measure (\<lambda>(buf, len, ne). len - ne)") auto

declare name_end.simps [simp del]

definition dns_header :: "byte list \<Rightarrow> byte list" where
  "dns_header txid = txid @ [0x81, 0x80, 0, 1, 0, 1, 0, 0, 0, 0]"

definition dns_answer :: "byte list \<Rightarrow> byte list" where
  "dns_answer ap_ip = [0xC0, 0x0C, 0, 1, 0, 1, 0, 0, 0, 3, 0, 4] @ ap_ip"

definition AP_IP :: "byte list" where
  "AP_IP = [4, 3, 2, 1]"

datatype dns_out = Dns_Stop | Dns_Skip | Dns_Reply "byte list"

text \<open>\<open>buf\<close> and \<open>resp\<close> are the static arrays, \<open>len\<close> what \<open>recvfrom\<close> returned.\<close>

definition dns_round :: "byte list \<Rightarrow> int \<Rightarrow> byte list \<Rightarrow> (dns_out \<times> byte list) option" where
  "dns_round buf rlen resp =
     (if rlen < 12 then Some (Dns_Stop, resp)
      else do {
        let len = nat rlen;
        (qo, qname) \<leftarrow> qname_loop buf len 12 0 (replicate 128 0);
        qname' \<leftarrow> (if qo > 0 then memcpy_at qname (qo - 1) [0] else Some qname);
        ne \<leftarrow> name_end buf len 12;
        let qend = ne + 4;
        if qend > len then Some (Dns_Skip, resp)
        else do {
          let qlen = qend - 12;
          txid \<leftarrow> mem_read buf 0 2;
          r1 \<leftarrow> memcpy_at resp 0 (dns_header txid);
          question \<leftarrow> mem_read buf 12 qlen;
          r2 \<leftarrow> memcpy_at r1 12 question;
          r3 \<leftarrow> memcpy_at r2 (12 + qlen) (dns_answer AP_IP);
          pkt \<leftarrow> mem_read r3 0 (12 + qlen + 16);
          Some (Dns_Reply pkt, r3) } })"

text \<open>
  The task's loop, on what \<open>recvfrom\<close> stores and returns: the replies it sends, and whether it has ended.
\<close>

fun dns_server_loop :: "(byte list \<times> int) list \<Rightarrow> byte list \<Rightarrow> (byte list list \<times> bool) option" where
  "dns_server_loop [] resp = Some ([], False)"
| "dns_server_loop ((buf, len) # later) resp = do {
     (out, resp') \<leftarrow> dns_round buf len resp;
     case out of
       Dns_Stop \<Rightarrow> Some ([], True)
     | Dns_Skip \<Rightarrow> dns_server_loop later resp'
     | Dns_Reply pkt \<Rightarrow> do { (pkts, ended) \<leftarrow> dns_server_loop later resp'; Some (pkt # pkts, ended) } }"

section \<open>Well-formed queries\<close>

definition enc_labels :: "byte list list \<Rightarrow> byte list" where
  "enc_labels ls = concat (map (\<lambda>l. of_nat (length l) # l) ls)"

definition label_ok :: "byte list \<Rightarrow> bool" where
  "label_ok l \<longleftrightarrow> 1 \<le> length l \<and> length l \<le> 63"

definition dns_query :: "byte list \<Rightarrow> byte list list \<Rightarrow> byte list \<Rightarrow> byte list" where
  "dns_query hdr ls qt = hdr @ enc_labels ls @ [0] @ qt"

lemma enc_labels_simps [simp]:
  "enc_labels [] = []" "enc_labels (l # ls) = of_nat (length l) # l @ enc_labels ls"
  by (simp_all add: enc_labels_def)

lemma label_byte:
  assumes "label_ok l"
  shows "unat (of_nat (length l) :: byte) = length l" "(of_nat (length l) :: byte) \<noteq> 0"
    "(of_nat (length l) :: byte) AND 0xC0 \<noteq> 0xC0"
proof -
  show u: "unat (of_nat (length l) :: byte) = length l"
    using assms by (intro unat_of_nat_8) (simp add: label_ok_def)
  then show "(of_nat (length l) :: byte) \<noteq> 0" using assms by (auto simp: label_ok_def)
  have "bit (unat (of_nat (length l) :: byte)) 7 = bit (of_nat (length l) :: byte) 7" by (simp only: bit_unsigned_iff) simp
  moreover have "\<not> bit (length l) 7" using assms by (simp add: bit_iff_odd label_ok_def)
  ultimately have "\<not> bit (of_nat (length l) :: byte) 7" by (metis u)
  moreover have "bit (0xC0 :: byte) 7" by simp
  ultimately show "(of_nat (length l) :: byte) AND 0xC0 \<noteq> 0xC0" by (metis bit_and_iff)
qed

text \<open>Reading a query that stands at \<open>pre\<close> in the buffer.\<close>

lemma copy_label_whole:
  assumes "buf = pre @ l @ post" and "qi = length pre" and "qi + length l \<le> len" and "qo + length l \<le> length qname"
  shows "\<exists>q. copy_label buf len (length l) qi qo qname = Some (qi + length l, qo + length l, q) \<and> length q = length qname"
  using assms
proof (induction l arbitrary: pre qi qo qname)
  case (Cons b l)
  have rd: "mem_read buf qi 1 = Some [b]" using Cons.prems by (simp add: mem_read_def)
  obtain q where q: "memcpy_at qname qo [b] = Some q" "length q = length qname"
    using memcpy_at_ok [of qo "[b]" qname] Cons.prems(4) by auto
  have "\<exists>q'. copy_label buf len (length l) (qi + 1) (qo + 1) q = Some (qi + 1 + length l, qo + 1 + length l, q') \<and> length q' = length q"
    using Cons.prems q by (intro Cons.IH [of "pre @ [b]"]) auto
  with rd q Cons.prems show ?case by auto
qed simp

text \<open>The name loop after some whole labels that fit.\<close>

lemma qname_loop_labels:
  assumes "buf = pre @ enc_labels ls @ post" and "qi = length pre" and "list_all label_ok ls"
    and "qi + length (enc_labels ls) \<le> len" and "qo + length (enc_labels ls) \<le> 127" and "length qname = 128"
  shows "\<exists>q. qname_loop buf len qi qo qname = qname_loop buf len (qi + length (enc_labels ls)) (qo + length (enc_labels ls)) q \<and>
     length q = 128"
  using assms
proof (induction ls arbitrary: pre qi qo qname)
  case Nil
  then show ?case by auto
next
  case (Cons l ls)
  have ok: "label_ok l" using Cons.prems(3) by simp
  let ?b = "of_nat (length l) :: byte"
  have at: "buf ! qi = ?b" "qi < length buf" "qi < len" "qo < 126"
    using Cons.prems ok by (auto simp: nth_append label_ok_def)
  have "\<exists>q. copy_label buf len (length l) (qi + 1) qo qname = Some (qi + 1 + length l, qo + length l, q) \<and> length q = length qname"
    using Cons.prems by (intro copy_label_whole [of _ "pre @ [?b]" _ "enc_labels ls @ post"]) auto
  then obtain q where q: "copy_label buf len (unat ?b) (qi + 1) qo qname = Some (qi + 1 + length l, qo + length l, q)" "length q = 128"
    using label_byte(1) [OF ok] Cons.prems(6) by auto
  obtain q' where q': "memcpy_at q (qo + length l) [46] = Some q'" "length q' = 128"
    using memcpy_at_ok [of "qo + length l" "[46]" q] q(2) Cons.prems(5) by auto
  have "\<exists>q''. qname_loop buf len (qi + 1 + length l) (qo + length l + 1) q' =
      qname_loop buf len (qi + 1 + length l + length (enc_labels ls)) (qo + length l + 1 + length (enc_labels ls)) q'' \<and> length q'' = 128"
    using Cons.prems q'(2) by (intro Cons.IH [of "pre @ ?b # l"]) auto
  moreover have "qname_loop buf len qi qo qname = qname_loop buf len (qi + 1 + length l) (qo + length l + 1) q'"
    using at q q' label_byte [OF ok] by (subst qname_loop.simps) (simp add: Let_def)
  ultimately show ?case by (auto simp: add.commute add.left_commute)
qed

lemma copy_label_overrun:
  assumes "buf = pre @ l @ post" and "qi = length pre" and "qi + length l \<le> len" and "length qname < qo + length l"
    and "qo \<le> length qname"
  shows "copy_label buf len (length l) qi qo qname = None"
  using assms
proof (induction l arbitrary: pre qi qo qname)
  case (Cons b l)
  have rd: "mem_read buf qi 1 = Some [b]" using Cons.prems by (simp add: mem_read_def)
  show ?case
  proof (cases "memcpy_at qname qo [b]")
    case None
    with rd Cons.prems show ?thesis by simp
  next
    case (Some q)
    then have q: "length q = length qname" "qo < length qname"
      using length_memcpy_at [OF Some] by (auto simp: memcpy_at_def split: if_splits)
    then have "copy_label buf len (length l) (qi + 1) (qo + 1) q = None"
      using Cons.prems by (intro Cons.IH [of "pre @ [b]"]) auto
    with rd Some Cons.prems show ?thesis by simp
  qed
qed simp

lemma name_end_labels:
  assumes "buf = pre @ enc_labels ls @ 0 # post" and "ne = length pre" and "list_all label_ok ls"
    and "ne + length (enc_labels ls) < len"
  shows "name_end buf len ne = Some (ne + length (enc_labels ls) + 1)"
  using assms
proof (induction ls arbitrary: pre ne)
  case Nil
  then show ?case by (subst name_end.simps) (simp add: nth_append)
next
  case (Cons l ls)
  have ok: "label_ok l" using Cons.prems(3) by simp
  let ?b = "of_nat (length l) :: byte"
  have at: "buf ! ne = ?b" "ne < length buf" "ne < len" using Cons.prems by (auto simp: nth_append)
  have "name_end buf len (ne + length l + 1) = Some (ne + length l + 1 + length (enc_labels ls) + 1)"
    using Cons.prems by (intro Cons.IH [of "pre @ ?b # l"]) auto
  with at label_byte [OF ok] show ?case by (subst name_end.simps) simp
qed

lemma dns_round_answers:
  assumes "length hdr = 12" and "list_all label_ok ls" and "length (enc_labels ls) \<le> 127" and "length qt = 4"
    and "buf = dns_query hdr ls qt @ rest" and "length (dns_query hdr ls qt) \<le> len" and "length resp = 512"
  shows "\<exists>resp'. dns_round buf (int len) resp =
     Some (Dns_Reply (dns_header (take 2 hdr) @ enc_labels ls @ [0] @ qt @ dns_answer [4, 3, 2, 1]), resp') \<and> length resp' = 512"
proof -
  let ?n = "length (enc_labels ls)"
  have buf: "buf = hdr @ enc_labels ls @ 0 # (qt @ rest)" using assms(5) by (simp add: dns_query_def)
  have len: "17 + ?n \<le> len" using assms(1,4,6) by (simp add: dns_query_def)
  have stop: "qname_loop buf len (12 + ?n) ?n q = Some (?n, q)" for q
    using buf assms(1) by (subst qname_loop.simps) (simp add: nth_append)
  then obtain q where q: "qname_loop buf len 12 0 (replicate 128 0) = Some (?n, q)" "length q = 128"
    using qname_loop_labels [OF buf, of 12 len 0 "replicate 128 0"] assms(1-3) len by auto
  have ne: "name_end buf len 12 = Some (12 + ?n + 1)"
    using name_end_labels [OF buf, of 12 len] assms(1,2) len by simp
  obtain q2 where nul: "(if ?n > 0 then memcpy_at q (?n - 1) [0] else Some q) = Some q2"
    using q(2) assms(3) by (cases "?n > 0") (auto simp: memcpy_at_def)
  let ?h = "dns_header (take 2 hdr)" and ?q = "enc_labels ls @ 0 # qt" and ?a = "dns_answer AP_IP"
  have rd: "mem_read buf 0 2 = Some (take 2 hdr)" "mem_read buf 12 (5 + ?n) = Some ?q"
    using assms(1,4) by (simp_all add: mem_read_def buf)
  have sz: "length ?h = 12" "length ?q = 5 + ?n" "length ?a = 16"
    using assms(1,4) by (simp_all add: dns_header_def dns_answer_def AP_IP_def)
  have w1: "memcpy_at resp 0 ?h = Some (?h @ drop 12 resp)" using memcpy_at_end [of ?h resp "[]"] sz assms(7) by simp
  have w2: "memcpy_at (?h @ drop 12 resp) 12 ?q = Some (?h @ ?q @ drop (17 + ?n) resp)"
    using memcpy_at_end [of ?q "drop 12 resp" ?h] sz assms(3,7) by (simp add: add.commute)
  have w3: "memcpy_at (?h @ ?q @ drop (17 + ?n) resp) (17 + ?n) ?a = Some (?h @ ?q @ ?a @ drop (33 + ?n) resp)"
    using memcpy_at_end [of ?a "drop (17 + ?n) resp" "?h @ ?q"] sz assms(3,7) by (simp add: add.commute)
  have rd3: "mem_read (?h @ ?q @ ?a @ drop (33 + ?n) resp) 0 (33 + ?n) = Some (?h @ ?q @ ?a)"
    using sz by (simp add: mem_read_def)
  have "dns_round buf (int len) resp = Some (Dns_Reply (?h @ ?q @ ?a), ?h @ ?q @ ?a @ drop (33 + ?n) resp)"
    using q(1) ne nul rd w1 w2 w3 rd3 len by (simp add: dns_round_def Let_def)
  then show ?thesis using sz assms(3,7) by (simp add: AP_IP_def)
qed

text \<open>A query as received: its header, name and type, what else the array holds, and its length.\<close>

record query =
  q_hdr :: "byte list"
  q_labels :: "byte list list"
  q_type :: "byte list"
  q_rest :: "byte list"
  q_len :: nat

definition query_ok :: "query \<Rightarrow> bool" where
  "query_ok q \<longleftrightarrow> length (q_hdr q) = 12 \<and> list_all label_ok (q_labels q) \<and> length (enc_labels (q_labels q)) \<le> 127 \<and>
     length (q_type q) = 4 \<and> length (dns_query (q_hdr q) (q_labels q) (q_type q)) \<le> q_len q"

definition received :: "query \<Rightarrow> byte list \<times> int" where
  "received q = (dns_query (q_hdr q) (q_labels q) (q_type q) @ q_rest q, int (q_len q))"

text \<open>
  C28. Queries for names of at most 127 bytes are answered one by one, whatever the names are: each
  reply repeats the query's number and question and gives the portal's address \<open>4.3.2.1\<close>, and no array
  is overrun. The first datagram of fewer than twelve bytes, from whoever sends it, ends the task.
\<close>

theorem dns_answers_portal_address:
  assumes "list_all query_ok qs" and "length resp = 512" and "len < 12"
  shows "dns_server_loop (map received qs @ (buf, len) # later) resp =
     Some (map (\<lambda>q. dns_header (take 2 (q_hdr q)) @ enc_labels (q_labels q) @ [0] @ q_type q @ dns_answer [4, 3, 2, 1]) qs, True)"
  using assms(1,2)
proof (induction qs arbitrary: resp)
  case Nil
  then show ?case using assms(3) by (simp add: dns_round_def)
next
  case (Cons q qs)
  then obtain resp' where "dns_round (fst (received q)) (snd (received q)) resp =
      Some (Dns_Reply (dns_header (take 2 (q_hdr q)) @ enc_labels (q_labels q) @ [0] @ q_type q @ dns_answer [4, 3, 2, 1]), resp')"
    and "length resp' = 512"
    using dns_round_answers [of "q_hdr q" "q_labels q" "q_type q" _ "q_rest q" "q_len q" resp]
    by (auto simp: query_ok_def received_def)
  with Cons show ?case by (cases "received q") simp
qed

theorem dns_answers_portal_address_witness:
  "dns_server_loop [(replicate 12 7 @ [2, 97, 98, 1, 99, 0, 0, 1, 0, 1] @ replicate 490 0, 22), (replicate 512 0, 3), (replicate 512 0, 30)]
     (replicate 512 0) =
     Some ([replicate 2 7 @ [0x81, 0x80, 0, 1, 0, 1, 0, 0, 0, 0] @ [2, 97, 98, 1, 99, 0, 0, 1, 0, 1] @
       [0xC0, 0x0C, 0, 1, 0, 1, 0, 0, 0, 3, 0, 4, 4, 3, 2, 1]], True)"
proof -
  let ?q = "\<lparr>q_hdr = replicate 12 7, q_labels = [[97, 98], [99]], q_type = [0, 1, 0, 1], q_rest = replicate 490 0, q_len = 22\<rparr>"
  have "list_all query_ok [?q]" by (simp add: query_ok_def dns_query_def label_ok_def)
  from dns_answers_portal_address [OF this, of "replicate 512 0" 3 "replicate 512 0" "[(replicate 512 0, 30)]"]
  show ?thesis by (simp add: received_def dns_query_def dns_header_def dns_answer_def del: dns_server_loop.simps)
qed

text \<open>
  C29. A longer name can overrun the buffer it is copied into for the log line. The loop checks that
  two bytes are left before a label, but copies the whole label: a query whose labels up to some
  point take fewer than 126 bytes and whose next label does not fit into the 128, which the limits of
  DNS (63 bytes a label, 255 a name) allow, writes past the end of \<open>qname\<close>.
\<close>

theorem dns_long_name_overruns:
  assumes "length hdr = 12" and "list_all label_ok (ls @ l # ls')"
    and "length (enc_labels ls) < 126" and "128 \<le> length (enc_labels ls) + length l"
    and "buf = dns_query hdr (ls @ l # ls') qt @ rest" and "length (dns_query hdr (ls @ l # ls') qt) \<le> len"
  shows "dns_round buf (int len) resp = None"
proof -
  let ?n = "length (enc_labels ls)" and ?b = "of_nat (length l) :: byte"
  have "enc_labels (ls @ l # ls') = enc_labels ls @ ?b # l @ enc_labels ls'" by (simp add: enc_labels_def)
  then have buf: "buf = hdr @ enc_labels ls @ (?b # l @ enc_labels ls' @ 0 # qt @ rest)"
    and len: "12 + ?n + 1 + length l \<le> len" using assms(1,5,6) by (simp_all add: dns_query_def)
  have ok: "label_ok l" "list_all label_ok ls" using assms(2) by auto
  have over: "qname_loop buf len (12 + ?n) ?n q = None" if q: "length q = 128" for q
  proof -
    have at: "buf ! (12 + ?n) = ?b" "12 + ?n < length buf" using buf assms(1) by (auto simp: nth_append)
    have b: "buf = (hdr @ enc_labels ls @ [?b]) @ l @ (enc_labels ls' @ 0 # qt @ rest)" using buf by simp
    have "copy_label buf len (length l) (12 + ?n + 1) ?n q = None \<or>
        (\<exists>q'. copy_label buf len (length l) (12 + ?n + 1) ?n q = Some (12 + ?n + 1 + length l, ?n + length l, q') \<and>
          memcpy_at q' (?n + length l) [46] = None)"
    proof (cases "128 < ?n + length l")
      case True
      then have "copy_label buf len (length l) (12 + ?n + 1) ?n q = None"
        using assms(1,3) len q by (intro copy_label_overrun [OF b]) auto
      then show ?thesis ..
    next
      case False
      then have "\<exists>q'. copy_label buf len (length l) (12 + ?n + 1) ?n q = Some (12 + ?n + 1 + length l, ?n + length l, q') \<and> length q' = length q"
        using assms(1) len q by (intro copy_label_whole [OF b]) auto
      then show ?thesis using assms(4) q by (auto simp: memcpy_at_None)
    qed
    then show ?thesis
      using at len assms(3) label_byte [OF ok(1)] by (subst qname_loop.simps) (auto simp: Let_def)
  qed
  have "qname_loop buf len 12 0 (replicate 128 0) = None"
    using qname_loop_labels [OF buf, of 12 len 0 "replicate 128 0"] assms(1,3) ok(2) len over by auto
  then show ?thesis using len by (simp add: dns_round_def Let_def)
qed

theorem dns_long_name_overruns_witness:
  "dns_round (dns_query (replicate 12 0) [replicate 61 97, replicate 61 97, replicate 61 97] [0, 1, 0, 1] @ replicate 309 0)
     203 (replicate 512 0) = None"
  using dns_long_name_overruns [of "replicate 12 0" "[replicate 61 97, replicate 61 97]" "replicate 61 97" "[]" _ "[0, 1, 0, 1]"
      "replicate 309 0" 203]
  by (simp add: dns_query_def label_ok_def)

text \<open>
  The reply can overrun its array as well. A question that reaches beyond byte 496, of the 511 that are
  received, leaves fewer than the sixteen bytes of the answer in the 512 of \<open>resp\<close>; here the labels
  are such that the name loop stops in time.
\<close>

lemma dns_long_question_overruns:
  assumes "length hdr = 12" and "list_all label_ok (ls @ ls')" and "length (enc_labels ls) \<in> {126, 127}"
    and "length qt = 4" and "buf = dns_query hdr (ls @ ls') qt @ rest"
    and "496 < length (dns_query hdr (ls @ ls') qt)" and "length (dns_query hdr (ls @ ls') qt) \<le> len" and "length resp = 512"
  shows "qname_loop buf len 12 0 (replicate 128 0) \<noteq> None \<and> dns_round buf (int len) resp = None"
proof -
  let ?n = "length (enc_labels ls)" and ?m = "length (enc_labels (ls @ ls'))"
  have "enc_labels (ls @ ls') = enc_labels ls @ enc_labels ls'" by (simp add: enc_labels_def)
  then have buf: "buf = hdr @ enc_labels ls @ (enc_labels ls' @ 0 # qt @ rest)" and nm: "?n \<le> ?m"
    using assms(5) by (simp_all add: dns_query_def)
  have len: "17 + ?m \<le> len" "496 < 17 + ?m" using assms(1,4,6,7) by (simp_all add: dns_query_def)
  have "12 + ?n < length buf" using buf assms(1) by simp
  then have "qname_loop buf len (12 + ?n) ?n q = Some (?n, q)" for q
    using assms(3) by (subst qname_loop.simps) auto
  then obtain q where q: "qname_loop buf len 12 0 (replicate 128 0) = Some (?n, q)" "length q = 128"
    using qname_loop_labels [OF buf, of 12 len 0 "replicate 128 0"] assms(1-3) len nm by auto
  have ne: "name_end buf len 12 = Some (12 + ?m + 1)"
    using name_end_labels [of buf hdr "ls @ ls'" "qt @ rest" 12 len] assms(1,2,5) len by (simp add: dns_query_def)
  have full: "memcpy_at r2 (17 + ?m) (dns_answer AP_IP) = None"
    if "memcpy_at resp 0 h = Some r1" "memcpy_at r1 12 qn = Some r2" for h qn r1 r2
    using length_memcpy_at [OF that(1)] length_memcpy_at [OF that(2)] assms(8) len(2)
    by (auto simp: memcpy_at_None dns_answer_def AP_IP_def)
  have "dns_round buf (int len) resp \<noteq> Some x" for x
    using q(1) ne len by (auto simp: dns_round_def Let_def bind_eq_Some_conv dest: full)
  with q(1) show ?thesis by (metis option.exhaust option.simps(3))
qed

end
