(* ===== verification/Wifi_Manager.thy ===== *)
theory Wifi_Manager
  imports Portal_Page Dns_Hijack
begin

text \<open>
  The WiFi manager (\<open>esp-codes/main/wifi_manager.c\<close>): stored credentials, scanning, the setup portal's
  pages and form, access-point and station mode, and the event handler with its retries. ESP-IDF is
  an argument: what its functions answer comes in \<open>wifi_io\<close>, the calls made are returned, and the
  NVS storage is a parameter (\<open>nvs_ops\<close>) with its documented behaviour as a hypothesis. \<open>None\<close> is a
  failed \<open>ESP_ERROR_CHECK\<close>, which restarts the device, or a write outside an array.
\<close>

definition WIFI_READY_BIT :: u32 where "WIFI_READY_BIT = BITn 0"
definition WIFI_LOST_BIT :: u32 where "WIFI_LOST_BIT = BITn 1"
definition WIFI_AP_MODE_BIT :: u32 where "WIFI_AP_MODE_BIT = BITn 2"
definition WIFI_CONNECTING_BIT :: u32 where "WIFI_CONNECTING_BIT = BITn 3"
definition WIFI_AUTH_FAIL_BIT :: u32 where "WIFI_AUTH_FAIL_BIT = BITn 4"
definition WIFI_MAX_RETRY :: int where [const_defs]: "WIFI_MAX_RETRY = 5"

lemmas wifi_bits = WIFI_READY_BIT_def WIFI_LOST_BIT_def WIFI_AP_MODE_BIT_def WIFI_CONNECTING_BIT_def WIFI_AUTH_FAIL_BIT_def

section \<open>State\<close>

text \<open>The handles are represented by whether they are set; a scan result is its C string.\<close>

record 'g wifi =
  wf_eg :: 'g
  wf_http :: bool
  wf_retry :: int
  wf_netif_sta :: bool
  wf_netif_ap :: bool
  wf_dns_task :: bool
  wf_dns_sock :: int
  wf_scan :: "string list"

definition wifi_manager_start :: "'g eg_ops \<Rightarrow> 'g wifi" where
  "wifi_manager_start E = \<lparr>wf_eg = eg_new E, wf_http = False, wf_retry = 0, wf_netif_sta = False, wf_netif_ap = False,
     wf_dns_task = False, wf_dns_sock = -1, wf_scan = []\<rparr>"

text \<open>The calls checked with \<open>ESP_ERROR_CHECK\<close>.\<close>

datatype esp_call =
    Netif_Init | Event_Loop | Wifi_Init | Register_Wifi | Register_Ip | Set_Ip_Info | Set_Mode | Set_Config | Wifi_Start | Set_Dns

record wifi_io =
  wi_ok :: "esp_call \<Rightarrow> bool"
  wi_ap_netif :: bool
  wi_httpd :: bool
  wi_scan :: "string list option"

datatype wifi_mode = MODE_AP | MODE_STA

datatype wifi_call =
    Create_Sta | Create_Ap | Mode wifi_mode | Start | Stop | Connect | Sta_Config string string | Ap_Config string
  | Captive_Uri string | Httpd_Start | Httpd_Stop | Dns_Spawn | Close_Sock int

section \<open>Stored credentials\<close>

record 'n nvs_ops =
  nvs_open_ro :: "'n \<Rightarrow> bool"
  nvs_open_rw :: "'n \<Rightarrow> bool"
  nvs_get :: "'n \<Rightarrow> string \<Rightarrow> string option"
  nvs_set :: "'n \<Rightarrow> string \<Rightarrow> string \<Rightarrow> 'n option"
  nvs_commit :: "'n \<Rightarrow> 'n option"

text \<open>
  What is relied on of NVS: a value that was set is read back, other keys keep theirs, committing
  keeps everything, and a namespace that was opened for writing and committed opens for reading.
\<close>

definition nvs_spec :: "'n nvs_ops \<Rightarrow> bool" where
  "nvs_spec N \<longleftrightarrow>
     (\<forall>s s' k v. nvs_set N s k v = Some s' \<longrightarrow>
        nvs_get N s' k = Some v \<and> (\<forall>k'. k' \<noteq> k \<longrightarrow> nvs_get N s' k' = nvs_get N s k')) \<and>
     (\<forall>s s'. nvs_commit N s = Some s' \<longrightarrow> nvs_get N s' = nvs_get N s \<and> nvs_open_ro N s')"

text \<open>\<open>nvs_get_str\<close> into an array of \<open>n\<close> bytes: the value and its NUL have to fit.\<close>

definition nvs_get_str :: "'n nvs_ops \<Rightarrow> 'n \<Rightarrow> string \<Rightarrow> nat \<Rightarrow> string option" where
  "nvs_get_str N s key n =
     (case nvs_get N s key of None \<Rightarrow> None | Some v \<Rightarrow> if length v < n then Some v else None)"

definition nvs_load_credentials :: "'n nvs_ops \<Rightarrow> 'n \<Rightarrow> nat \<Rightarrow> nat \<Rightarrow> (string \<times> string) option" where
  "nvs_load_credentials N s ssid_len pass_len =
     (if \<not> nvs_open_ro N s then None
      else do {
        ssid \<leftarrow> nvs_get_str N s ''ssid'' ssid_len;
        pass \<leftarrow> nvs_get_str N s ''pass'' pass_len;
        Some (ssid, pass) })"

definition nvs_save_credentials :: "'n nvs_ops \<Rightarrow> 'n \<Rightarrow> string \<Rightarrow> string \<Rightarrow> 'n option" where
  "nvs_save_credentials N s ssid pass =
     (if \<not> nvs_open_rw N s then None
      else do {
        s1 \<leftarrow> nvs_set N s ''ssid'' ssid;
        s2 \<leftarrow> nvs_set N s1 ''pass'' pass;
        nvs_commit N s2 })"

section \<open>The portal\<close>

datatype http_method = HTTP_GET | HTTP_POST
datatype http_handler = Api_Captive | Portal_Html | Post_Save | Windows_Connecttest | Redirect_To_Portal | Not_Found_Handler

definition uri_handlers :: "(string \<times> http_method \<times> http_handler) list" where
  "uri_handlers =
     [(''/api'', HTTP_GET, Api_Captive), (''/'', HTTP_GET, Portal_Html), (''/save'', HTTP_POST, Post_Save),
      (''/generate_204'', HTTP_GET, Portal_Html), (''/hotspot-detect.html'', HTTP_GET, Portal_Html),
      (''/check_network_status.txt'', HTTP_GET, Portal_Html), (''/connecttest.txt'', HTTP_GET, Windows_Connecttest),
      (''/ncsi.txt'', HTTP_GET, Redirect_To_Portal), (''/redirect'', HTTP_GET, Redirect_To_Portal),
      (''/canonical.html'', HTTP_GET, Redirect_To_Portal), (''/success.txt'', HTTP_GET, Redirect_To_Portal),
      (''/wpad.dat'', HTTP_GET, Not_Found_Handler), (''/favicon.ico'', HTTP_GET, Not_Found_Handler)]"

definition max_uri_handlers :: nat where "max_uri_handlers = 16"

text \<open>
  \<open>post_save_handler\<close>: \<open>recvd\<close> is the body \<open>httpd_req_recv\<close> delivered (\<open>None\<close>: nothing). After \<open>Save_Ok\<close>
  the device restarts.
\<close>

datatype save_out = Save_Error string | Save_Ok string string

definition post_save_handler :: "'n nvs_ops \<Rightarrow> string option \<Rightarrow> 'n \<Rightarrow> ('n \<times> save_out) option" where
  "post_save_handler N recvd s =
     (case recvd of
        None \<Rightarrow> Some (s, Save_Error ''Empty body'')
      | Some bs \<Rightarrow> do {
          let body = cstr (take 511 bs);
          (ssid1, found) \<leftarrow> form_field body ''ssid_manual'' (replicate 32 NUL) 32;
          (ssid, _) \<leftarrow> (if \<not> found \<or> cstr ssid1 = [] then form_field body ''ssid_list'' ssid1 32 else Some (ssid1, found));
          if cstr ssid = [] then Some (s, Save_Error ''Missing SSID'')
          else do {
            (pass, _) \<leftarrow> form_field body ''pass'' (replicate 64 NUL) 64;
            s' \<leftarrow> nvs_save_credentials N s (cstr ssid) (cstr pass);
            Some (s', Save_Ok (cstr ssid) (cstr pass)) } })"

text \<open>
  A request. \<open>lookup\<close> stands for the server's choice among the registered handlers by path and method,
  \<open>None\<close> when no handler has the path, which the registered error handler answers. The reply to a form
  is the last thing sent before the restart.
\<close>

definition save_reply :: "save_out \<Rightarrow> http_reply" where
  "save_reply out =
     (case out of
        Save_Error msg \<Rightarrow> Reply_Error 400 msg
      | Save_Ok ssid pass \<Rightarrow> Reply None (Some ''text/html'') [] [''<h3>Saved! Restarting...</h3>''])"

type_synonym uri_entry = "string \<times> http_method \<times> http_handler"

definition http_request ::
  "(uri_entry list \<Rightarrow> string \<Rightarrow> http_method \<Rightarrow> http_handler option) \<Rightarrow> 'n nvs_ops \<Rightarrow> string list
     \<Rightarrow> string \<Rightarrow> http_method \<Rightarrow> string option \<Rightarrow> 'n \<Rightarrow> ('n \<times> http_reply) option" where
  "http_request lookup N scan uri meth recvd s =
     (case lookup uri_handlers uri meth of
        None \<Rightarrow> map_option (Pair s) (captive_redirect_handler scan)
      | Some Portal_Html \<Rightarrow> map_option (Pair s) (portal_html_handler scan)
      | Some Api_Captive \<Rightarrow> Some (s, api_captive_handler)
      | Some Windows_Connecttest \<Rightarrow> Some (s, windows_connecttest_handler)
      | Some Redirect_To_Portal \<Rightarrow> Some (s, redirect_to_portal_handler)
      | Some Not_Found_Handler \<Rightarrow> Some (s, not_found_handler)
      | Some Post_Save \<Rightarrow> map_option (\<lambda>(s', out). (s', save_reply out)) (post_save_handler N recvd s))"

section \<open>Servers\<close>

definition start_http_server :: "wifi_io \<Rightarrow> 'g wifi \<Rightarrow> 'g wifi \<times> wifi_call list" where
  "start_http_server io w =
     (if wf_http w then (w, []) else if \<not> wi_httpd io then (w, [Httpd_Start]) else (w\<lparr>wf_http := True\<rparr>, [Httpd_Start]))"

definition stop_http_server :: "'g wifi \<Rightarrow> 'g wifi \<times> wifi_call list" where
  "stop_http_server w = (if wf_http w then (w\<lparr>wf_http := False\<rparr>, [Httpd_Stop]) else (w, []))"

definition start_dns_server :: "'g wifi \<Rightarrow> 'g wifi \<times> wifi_call list" where
  "start_dns_server w = (if wf_dns_task w then (w, []) else (w\<lparr>wf_dns_task := True\<rparr>, [Dns_Spawn]))"

definition stop_dns_server :: "'g wifi \<Rightarrow> 'g wifi \<times> wifi_call list" where
  "stop_dns_server w =
     (if wf_dns_sock w \<ge> 0
      then (w\<lparr>wf_dns_sock := -1, wf_dns_task := False\<rparr>, [Close_Sock (wf_dns_sock w)]) else (w\<lparr>wf_dns_task := False\<rparr>, []))"

text \<open>How \<open>dns_server_task\<close> begins, and how it ends after a failed \<open>recvfrom\<close>.\<close>

definition dns_task_begin :: "int \<Rightarrow> int \<Rightarrow> 'g wifi \<Rightarrow> 'g wifi \<times> bool" where
  "dns_task_begin sock bound w =
     (if sock < 0 \<or> bound < 0 then (w\<lparr>wf_dns_sock := (if sock \<ge> 0 then -1 else sock)\<rparr>, False)
      else (w\<lparr>wf_dns_sock := sock\<rparr>, True))"

definition dns_task_end :: "'g wifi \<Rightarrow> 'g wifi" where
  "dns_task_end w = w\<lparr>wf_dns_sock := -1, wf_dns_task := False\<rparr>"

section \<open>Scanning\<close>

text \<open>A network name is cut to 32 characters; more than twenty records would overrun the arrays.\<close>

definition wifi_scan :: "wifi_io \<Rightarrow> 'g wifi \<Rightarrow> ('g wifi \<times> wifi_call list) option" where
  "wifi_scan io w =
     (let w1 = w\<lparr>wf_netif_sta := True\<rparr>;
          pre = (if wf_netif_sta w then [] else [Create_Sta]) @ [Mode MODE_STA, Start]
      in case wi_scan io of
           None \<Rightarrow> Some (w1, pre @ [Stop])
         | Some records \<Rightarrow>
             if length records > 20 then None
             else Some (w1\<lparr>wf_scan := map (\<lambda>r. take 32 (cstr r)) records\<rparr>, pre @ [Stop]))"

section \<open>Modes\<close>

definition checked :: "wifi_io \<Rightarrow> esp_call \<Rightarrow> unit option" where
  "checked io c = (if wi_ok io c then Some () else None)"

definition start_ap_mode :: "'g eg_ops \<Rightarrow> wifi_io \<Rightarrow> 'g wifi \<Rightarrow> ('g wifi \<times> wifi_call list) option" where
  "start_ap_mode E io w = do {
     _ \<leftarrow> (if wi_ap_netif io then checked io Set_Ip_Info else Some ());
     _ \<leftarrow> checked io Set_Mode;
     _ \<leftarrow> checked io Set_Config;
     _ \<leftarrow> checked io Wifi_Start;
     _ \<leftarrow> (if wi_ap_netif io then checked io Set_Dns else Some ());
     let (w1, c1) = start_http_server io (w\<lparr>wf_netif_ap := True\<rparr>);
     let (w2, c2) = start_dns_server w1;
     let eg = eg_set E (eg_clear E (wf_eg w2) (WIFI_READY_BIT OR WIFI_CONNECTING_BIT)) (WIFI_LOST_BIT OR WIFI_AP_MODE_BIT);
     Some (w2\<lparr>wf_eg := eg\<rparr>,
           (if wf_netif_ap w then [] else [Create_Ap]) @ [Mode MODE_AP, Ap_Config ''WirelessHub-Setup'', Start]
           @ (if wi_ap_netif io then [Captive_Uri ''http://4.3.2.1/api''] else []) @ c1 @ c2) }"

text \<open>\<open>strncpy\<close> into the zeroed \<open>sta_cfg\<close>: 31 and 63 characters at most.\<close>

definition start_sta_mode :: "'g eg_ops \<Rightarrow> wifi_io \<Rightarrow> string \<Rightarrow> string \<Rightarrow> 'g wifi \<Rightarrow> ('g wifi \<times> wifi_call list) option" where
  "start_sta_mode E io ssid pass w = do {
     let eg = eg_set E (eg_clear E (wf_eg w) (WIFI_AP_MODE_BIT OR WIFI_AUTH_FAIL_BIT)) WIFI_CONNECTING_BIT;
     _ \<leftarrow> checked io Set_Mode;
     _ \<leftarrow> checked io Set_Config;
     _ \<leftarrow> checked io Wifi_Start;
     Some (w\<lparr>wf_eg := eg, wf_netif_sta := True\<rparr>,
           (if wf_netif_sta w then [] else [Create_Sta]) @ [Mode MODE_STA, Sta_Config (take 31 (cstr ssid)) (take 63 (cstr pass)), Start]) }"

section \<open>Events\<close>

datatype dc_reason = WIFI_REASON_AUTH_FAIL | WIFI_REASON_4WAY_HANDSHAKE_TIMEOUT | Reason_Other

datatype wifi_event = Sta_Start | Sta_Disconnected dc_reason | Ap_Staconnected | Wifi_Other | Sta_Got_Ip

definition sta_disconnected :: "'g eg_ops \<Rightarrow> wifi_io \<Rightarrow> dc_reason \<Rightarrow> 'g wifi \<Rightarrow> ('g wifi \<times> wifi_call list) option" where
  "sta_disconnected E io reason w =
     (let eg1 = eg_set E (eg_clear E (wf_eg w) (WIFI_READY_BIT OR WIFI_CONNECTING_BIT)) WIFI_LOST_BIT;
          eg2 = (if reason = WIFI_REASON_AUTH_FAIL \<or> reason = WIFI_REASON_4WAY_HANDSHAKE_TIMEOUT
                 then eg_set E eg1 WIFI_AUTH_FAIL_BIT else eg1);
          w1 = w\<lparr>wf_eg := eg2, wf_retry := wf_retry w + 1\<rparr>
      in if wf_retry w1 \<le> WIFI_MAX_RETRY then Some (w1\<lparr>wf_eg := eg_set E eg2 WIFI_CONNECTING_BIT\<rparr>, [Connect])
         else start_ap_mode E io (w1\<lparr>wf_retry := 0\<rparr>))"

fun wifi_event_handler :: "'g eg_ops \<Rightarrow> wifi_io \<Rightarrow> wifi_event \<Rightarrow> 'g wifi \<Rightarrow> ('g wifi \<times> wifi_call list) option" where
  "wifi_event_handler E io Sta_Start w = Some (w, [Connect])"
| "wifi_event_handler E io (Sta_Disconnected reason) w = sta_disconnected E io reason w"
| "wifi_event_handler E io Ap_Staconnected w = Some (w, [])"
| "wifi_event_handler E io Wifi_Other w = Some (w, [])"
| "wifi_event_handler E io Sta_Got_Ip w =
     (let (w1, c1) = stop_dns_server (w\<lparr>wf_retry := 0\<rparr>);
          (w2, c2) = stop_http_server w1;
          eg = eg_set E (eg_clear E (wf_eg w2) (WIFI_LOST_BIT OR WIFI_CONNECTING_BIT OR WIFI_AP_MODE_BIT OR WIFI_AUTH_FAIL_BIT))
                 WIFI_READY_BIT
      in Some (w2\<lparr>wf_eg := eg\<rparr>, c1 @ c2))"

section \<open>The task\<close>

definition wifi_manager_task :: "'g eg_ops \<Rightarrow> wifi_io \<Rightarrow> 'n nvs_ops \<Rightarrow> 'n \<Rightarrow> 'g wifi \<Rightarrow> ('g wifi \<times> wifi_call list) option" where
  "wifi_manager_task E io N s w = do {
     _ \<leftarrow> checked io Netif_Init;
     _ \<leftarrow> checked io Event_Loop;
     _ \<leftarrow> checked io Wifi_Init;
     let creds = nvs_load_credentials N s 32 64;
     (w1, c1) \<leftarrow> (if creds = None then wifi_scan io w else Some (w, []));
     _ \<leftarrow> checked io Register_Wifi;
     _ \<leftarrow> checked io Register_Ip;
     (w2, c2) \<leftarrow> (case creds of Some (ssid, pass) \<Rightarrow> start_sta_mode E io ssid pass w1 | None \<Rightarrow> start_ap_mode E io w1);
     Some (w2, c1 @ c2) }"

text \<open>After the task: events, and the DNS task's own steps.\<close>

inductive wifi_step :: "'g eg_ops \<Rightarrow> 'g wifi \<Rightarrow> 'g wifi \<Rightarrow> bool" for E :: "'g eg_ops" where
  wifi_event: "wifi_event_handler E io ev w = Some (w', calls) \<Longrightarrow> wifi_step E w w'"
| dns_begin: "dns_task_begin sock bound w = (w', b) \<Longrightarrow> wifi_step E w w'"
| dns_end: "wifi_step E w (dns_task_end w)"

inductive_cases wifi_step_cases: "wifi_step E w w'"

definition wifi_started :: "'g eg_ops \<Rightarrow> 'n nvs_ops \<Rightarrow> 'g wifi \<Rightarrow> bool" where
  "wifi_started E N w \<longleftrightarrow> (\<exists>io s calls. wifi_manager_task E io N s (wifi_manager_start E) = Some (w, calls))"

section \<open>Events: correctness\<close>

definition has :: "'g eg_ops \<Rightarrow> 'g wifi \<Rightarrow> nat \<Rightarrow> bool" where
  "has E w n \<longleftrightarrow> bit (eg_get E (wf_eg w)) n"

text \<open>A connection with an address excludes everything else; a retry count never passes five.\<close>

definition wifi_inv :: "'g eg_ops \<Rightarrow> 'g wifi \<Rightarrow> bool" where
  "wifi_inv E w \<longleftrightarrow>
     0 \<le> wf_retry w \<and> wf_retry w \<le> WIFI_MAX_RETRY \<and>
     (has E w 0 \<longrightarrow> \<not> has E w 1 \<and> \<not> has E w 2 \<and> \<not> has E w 3 \<and> \<not> has E w 4 \<and> \<not> wf_http w \<and> \<not> wf_dns_task w)"

lemma servers_frame [simp]:
  "wf_eg (fst (start_http_server io w)) = wf_eg w" "wf_retry (fst (start_http_server io w)) = wf_retry w"
  "wf_eg (fst (start_dns_server w)) = wf_eg w" "wf_retry (fst (start_dns_server w)) = wf_retry w"
  "wf_eg (fst (stop_http_server w)) = wf_eg w" "wf_retry (fst (stop_http_server w)) = wf_retry w"
  "wf_eg (fst (stop_dns_server w)) = wf_eg w" "wf_retry (fst (stop_dns_server w)) = wf_retry w"
  "\<not> wf_http (fst (stop_http_server w))" "wf_dns_task (fst (stop_http_server w)) = wf_dns_task w"
  "\<not> wf_dns_task (fst (stop_dns_server w))" "wf_dns_task (fst (start_dns_server w))"
  "wf_http (fst (start_dns_server w)) = wf_http w" "wi_httpd io \<Longrightarrow> wf_http (fst (start_http_server io w))"
  by (simp_all add: start_http_server_def start_dns_server_def stop_http_server_def stop_dns_server_def)

lemmas wifi_eg_simps = has_def wifi_bits eg_set_bits eg_clear_bits eg_new_bits bit_or_iff bit_BITn

text \<open>What access-point mode leaves behind.\<close>

lemma start_ap_mode_result:
  assumes "event_group_spec E" and "start_ap_mode E io w = Some (w', calls)"
  shows "wf_retry w' = wf_retry w \<and> wf_dns_task w' \<and> (wi_httpd io \<longrightarrow> wf_http w') \<and> \<not> has E w' 0 \<and> has E w' 1 \<and> has E w' 2 \<and>
     \<not> has E w' 3 \<and> has E w' 4 = has E w 4 \<and> Mode MODE_AP \<in> set calls"
  using assms(2)
  by (auto simp: start_ap_mode_def checked_def wifi_eg_simps assms(1) bind_eq_Some_conv Let_def split: if_splits prod.splits
      dest!: arg_cong [where f = fst])

lemma sta_disconnected_retry:
  assumes "event_group_spec E" and "wf_retry w < WIFI_MAX_RETRY"
  shows "\<exists>w'. sta_disconnected E io reason w = Some (w', [Connect]) \<and> wf_retry w' = wf_retry w + 1 \<and>
     \<not> has E w' 0 \<and> has E w' 1 \<and> has E w' 3 \<and> (has E w' 2 \<longleftrightarrow> has E w 2) \<and> (has E w 4 \<longrightarrow> has E w' 4) \<and>
     (reason = WIFI_REASON_AUTH_FAIL \<longrightarrow> has E w' 4)"
  using assms(2) by (simp add: sta_disconnected_def Let_def wifi_eg_simps assms(1))

lemma wifi_inv_event:
  assumes E: "event_group_spec E" and inv: "wifi_inv E w" and ev: "wifi_event_handler E io ev w = Some (w', calls)"
  shows "wifi_inv E w'"
proof (cases ev)
  case (Sta_Disconnected reason)
  show ?thesis
  proof (cases "wf_retry w < WIFI_MAX_RETRY")
    case True
    from sta_disconnected_retry [OF E this, of io reason] ev inv Sta_Disconnected show ?thesis
      using True by (auto simp: wifi_inv_def)
  next
    case False
    with ev inv Sta_Disconnected obtain w1 where "start_ap_mode E io w1 = Some (w', calls)" "wf_retry w1 = 0"
      by (auto simp: sta_disconnected_def Let_def wifi_inv_def)
    with start_ap_mode_result [OF E this(1)] show ?thesis by (simp add: wifi_inv_def const_defs)
  qed
next
  case Sta_Got_Ip
  have "fst (stop_http_server (fst (stop_dns_server (w\<lparr>wf_retry := 0\<rparr>)))) \<lparr>wf_eg := wf_eg w'\<rparr> = w'"
    using ev Sta_Got_Ip by (auto simp: Let_def split: prod.splits)
  with ev Sta_Got_Ip show ?thesis
    by (auto simp: wifi_inv_def wifi_eg_simps E const_defs Let_def split: prod.splits dest!: arg_cong [where f = fst])
qed (use inv ev in auto)

lemma wifi_inv_task:
  assumes E: "event_group_spec E" and run: "wifi_manager_task E io N s (wifi_manager_start E) = Some (w, calls)"
  shows "wifi_inv E w"
proof (cases "nvs_load_credentials N s 32 64")
  case None
  with run obtain w1 c2 where "start_ap_mode E io w1 = Some (w, c2)" "wf_retry w1 = 0"
    by (auto simp: wifi_manager_task_def bind_eq_Some_conv wifi_scan_def wifi_manager_start_def Let_def
        split: option.splits if_splits)
  with start_ap_mode_result [OF E this(1)] show ?thesis by (simp add: wifi_inv_def const_defs)
next
  case (Some creds)
  with run show ?thesis
    by (auto simp: wifi_manager_task_def bind_eq_Some_conv start_sta_mode_def wifi_manager_start_def wifi_inv_def wifi_eg_simps E
        const_defs Let_def split: prod.splits)
qed

lemma wifi_invariant:
  assumes E: "event_group_spec E"
  shows "inductive_invariant (wifi_started E N) (wifi_step E) (wifi_inv E)"
proof
  show "wifi_inv E w" if "wifi_started E N w" for w
    using that wifi_inv_task [OF E] by (auto simp: wifi_started_def)
  show "wifi_inv E w'" if "wifi_inv E w" and "wifi_step E w w'" for w w'
    using that(2,1)
  proof cases
    case (wifi_event io ev calls)
    with that(1) wifi_inv_event [OF E] show ?thesis by blast
  next
    case (dns_begin sock bound b)
    with that(1) show ?thesis by (auto simp: dns_task_begin_def wifi_inv_def has_def split: if_splits)
  next
    case dns_end
    with that(1) show ?thesis by (simp add: dns_task_end_def wifi_inv_def has_def)
  qed
qed

interpretation mask_wifi: inductive_invariant "wifi_started mask_eg N" "wifi_step mask_eg" "wifi_inv mask_eg"
  by (rule wifi_invariant [OF mask_eg_spec])


definition io_all_ok :: wifi_io where
  "io_all_ok = \<lparr>wi_ok = \<lambda>_. True, wi_ap_netif = True, wi_httpd = True, wi_scan = Some [''home'']\<rparr>"

text \<open>A store that is a map, for the witnesses.\<close>

definition map_nvs :: "(string \<Rightarrow> string option) nvs_ops" where
  "map_nvs = \<lparr>nvs_open_ro = \<lambda>_. True, nvs_open_rw = \<lambda>_. True, nvs_get = \<lambda>s. s, nvs_set = \<lambda>s k v. Some (s(k \<mapsto> v)), nvs_commit = Some\<rparr>"

lemma map_nvs_spec: "nvs_spec map_nvs"
  by (simp add: nvs_spec_def map_nvs_def)

lemma start_ap_mode_ok: "(\<And>c. wi_ok io c) \<Longrightarrow> \<exists>w' calls. start_ap_mode E io w = Some (w', calls)"
  by (simp add: start_ap_mode_def checked_def split: prod.split)

lemma wifi_started_example: "\<exists>w. wifi_started mask_eg map_nvs w"
proof -
  have "nvs_load_credentials map_nvs Map.empty 32 64 = None"
    by (simp add: nvs_load_credentials_def nvs_get_str_def map_nvs_def)
  moreover obtain w' calls where "start_ap_mode mask_eg io_all_ok ((wifi_manager_start mask_eg)\<lparr>wf_netif_sta := True, wf_scan := [''home'']\<rparr>) =
      Some (w', calls)"
    using start_ap_mode_ok [of io_all_ok] by (fastforce simp: io_all_ok_def)
  ultimately have "\<exists>w c. wifi_manager_task mask_eg io_all_ok map_nvs Map.empty (wifi_manager_start mask_eg) = Some (w, c)"
    by (simp add: wifi_manager_task_def checked_def io_all_ok_def wifi_scan_def Let_def)
  then show ?thesis unfolding wifi_started_def by blast
qed

lemma wifi_ready_reachable:
  "\<exists>w. reach (wifi_started mask_eg map_nvs) (wifi_step mask_eg) w \<and> eg_has mask_eg (wf_eg w) WIFI_READY_BIT"
proof -
  obtain w0 where "wifi_started mask_eg map_nvs w0" using wifi_started_example by blast
  then have r: "reach (wifi_started mask_eg map_nvs) (wifi_step mask_eg) w0" by (rule reach_start)
  have "\<exists>w calls. wifi_event_handler mask_eg io_all_ok Sta_Got_Ip w0 = Some (w, calls) \<and> has mask_eg w 0"
    by (simp add: wifi_eg_simps mask_eg_spec Let_def split: prod.split)
  then obtain w calls where w: "wifi_event_handler mask_eg io_all_ok Sta_Got_Ip w0 = Some (w, calls)" "has mask_eg w 0" by blast
  from reach_step [OF r wifi_event [OF w(1)]] w(2) show ?thesis
    by (auto simp: has_def wifi_bits eg_has_BITn)
qed


text \<open>A list of events handled in turn, with the calls made.\<close>

fun wifi_run :: "'g eg_ops \<Rightarrow> wifi_io \<Rightarrow> wifi_event list \<Rightarrow> 'g wifi \<Rightarrow> ('g wifi \<times> wifi_call list) option" where
  "wifi_run E io [] w = Some (w, [])"
| "wifi_run E io (ev # evs) w = do {
     (w1, c1) \<leftarrow> wifi_event_handler E io ev w;
     (w2, c2) \<leftarrow> wifi_run E io evs w1;
     Some (w2, c1 @ c2) }"

lemma wifi_run_append:
  "wifi_run E io (xs @ ys) w =
     do { (w1, c1) \<leftarrow> wifi_run E io xs w; (w2, c2) \<leftarrow> wifi_run E io ys w1; Some (w2, c1 @ c2) }"
  by (induction xs arbitrary: w) (auto split: bind_splits)

lemma wifi_run_retries:
  assumes "event_group_spec E" and "wf_retry w + int (length rs) \<le> WIFI_MAX_RETRY"
  shows "\<exists>w'. wifi_run E io (map Sta_Disconnected rs) w = Some (w', replicate (length rs) Connect) \<and>
     wf_retry w' = wf_retry w + int (length rs)"
  using assms(2)
proof (induction rs arbitrary: w)
  case (Cons r rs)
  then have "wf_retry w < WIFI_MAX_RETRY" by simp
  then obtain w1 where w1: "sta_disconnected E io r w = Some (w1, [Connect])" "wf_retry w1 = wf_retry w + 1"
    using sta_disconnected_retry [OF assms(1)] by blast
  with Cons.IH [of w1] Cons.prems show ?case by auto
qed simp

text \<open>
  C21. A network that cannot be joined ends in the setup portal: of six disconnections in a row, for
  whatever reasons, each of the first five is answered with exactly one new attempt to connect, and
  the sixth starts the access point with its two servers, sets \<open>WIFI_AP_MODE_BIT\<close> and
  \<open>WIFI_LOST_BIT\<close>, clears \<open>WIFI_READY_BIT\<close> and \<open>WIFI_CONNECTING_BIT\<close>, and starts the count again.
\<close>

theorem six_disconnects_open_portal:
  assumes "event_group_spec E" and "wf_retry w = 0" and "length rs = 6" and "\<And>c. wi_ok io c" and "wi_httpd io"
  shows "\<exists>w' ap. wifi_run E io (map Sta_Disconnected rs) w = Some (w', replicate 5 Connect @ ap) \<and> Mode MODE_AP \<in> set ap \<and>
     wf_retry w' = 0 \<and> wf_http w' \<and> wf_dns_task w' \<and> eg_has E (wf_eg w') WIFI_AP_MODE_BIT \<and> eg_has E (wf_eg w') WIFI_LOST_BIT \<and>
     \<not> eg_has E (wf_eg w') WIFI_READY_BIT \<and> \<not> eg_has E (wf_eg w') WIFI_CONNECTING_BIT"
proof -
  obtain rs5 r where rs: "rs = rs5 @ [r]" "length rs5 = 5"
    using assms(3) by (cases rs rule: rev_cases) auto
  obtain w5 where w5: "wifi_run E io (map Sta_Disconnected rs5) w = Some (w5, replicate 5 Connect)" "wf_retry w5 = 5"
    using wifi_run_retries [OF assms(1), of w rs5 io] assms(2) rs(2) by (auto simp: const_defs)
  obtain w1 where dis: "sta_disconnected E io r w5 = start_ap_mode E io w1" "wf_retry w1 = 0"
    using w5(2) by (simp add: sta_disconnected_def Let_def const_defs)
  obtain w' ap where ap: "start_ap_mode E io w1 = Some (w', ap)" using start_ap_mode_ok [of io] assms(4) by blast
  from start_ap_mode_result [OF assms(1) ap] dis(2) assms(5) have res: "Mode MODE_AP \<in> set ap" "wf_retry w' = 0" "wf_http w'" "wf_dns_task w'"
      "has E w' 2" "has E w' 1" "\<not> has E w' 0" "\<not> has E w' 3"
    by auto
  have "wifi_run E io (map Sta_Disconnected rs) w = Some (w', replicate 5 Connect @ ap)"
    using w5(1) dis(1) ap by (simp add: rs(1) wifi_run_append)
  with res show ?thesis by (simp add: has_def wifi_bits eg_has_BITn)
qed

theorem six_disconnects_open_portal_witness:
  "\<exists>w' ap. wifi_run mask_eg io_all_ok (map Sta_Disconnected (replicate 6 WIFI_REASON_AUTH_FAIL)) (wifi_manager_start mask_eg) =
     Some (w', replicate 5 Connect @ ap) \<and> wf_http w' \<and> eg_has mask_eg (wf_eg w') WIFI_AP_MODE_BIT"
  using six_disconnects_open_portal [OF mask_eg_spec, of "wifi_manager_start mask_eg" "replicate 6 WIFI_REASON_AUTH_FAIL" io_all_ok]
  by (simp add: wifi_manager_start_def io_all_ok_def) blast

text \<open>
  The failure bit outlives the attempt it reports: after an authentication failure the next attempt
  starts with it still set, and a later disconnection for another reason does not clear it.
\<close>

lemma auth_fail_bit_stays:
  assumes "event_group_spec E" and "wf_retry w + 1 < WIFI_MAX_RETRY"
  shows "\<exists>w1 w2. sta_disconnected E io WIFI_REASON_AUTH_FAIL w = Some (w1, [Connect]) \<and> has E w1 4 \<and>
     sta_disconnected E io Reason_Other w1 = Some (w2, [Connect]) \<and> has E w2 4"
proof -
  have "wf_retry w < WIFI_MAX_RETRY" using assms(2) by simp
  then obtain w1 where w1: "sta_disconnected E io WIFI_REASON_AUTH_FAIL w = Some (w1, [Connect])" "wf_retry w1 = wf_retry w + 1" "has E w1 4"
    using sta_disconnected_retry [OF assms(1)] by blast
  then have "wf_retry w1 < WIFI_MAX_RETRY" using assms(2) by simp
  from sta_disconnected_retry [OF assms(1) this] w1 show ?thesis by blast
qed

section \<open>From the form to the station\<close>

text \<open>The body of the portal's form, with the three values as the browser encoded them.\<close>

definition form_body :: "string \<Rightarrow> string \<Rightarrow> string \<Rightarrow> string" where
  "form_body lst man pass = ''ssid_list='' @ lst @ ''&ssid_manual='' @ man @ ''&pass='' @ pass"

lemma form_body_fields:
  assumes "url_encodes l el" and "url_encodes m em" and "url_encodes p ep"
  shows "strstr (form_body el em ep) (''ssid_list'' @ [EQ]) = Some (''ssid_list'' @ EQ # el @ ''&ssid_manual='' @ em @ ''&pass='' @ ep)"
    and "strstr (form_body el em ep) (''ssid_manual'' @ [EQ]) = Some (''ssid_manual'' @ EQ # em @ ''&pass='' @ ep)"
    and "strstr (form_body el em ep) (''pass'' @ [EQ]) = Some (''pass'' @ EQ # ep @ [])"
proof -
  have noeq: "EQ \<notin> set (el @ ''&ssid_manual'')" "EQ \<notin> set (em @ ''&pass'')" "EQ \<notin> set ''ssid_list''"
    using url_encodes_chars [OF assms(1)] url_encodes_chars [OF assms(2)] by auto
  have key: "EQ \<notin> set ''ssid_list''" "EQ \<notin> set ''ssid_manual''" "EQ \<notin> set ''pass''" by simp_all
  have body: "form_body el em ep = ''ssid_list'' @ EQ # (el @ ''&ssid_manual'') @ EQ # (em @ ''&pass'') @ EQ # ep"
    by (simp add: form_body_def)
  have suf: "\<not> suffix ''ssid_manual'' ''ssid_list''" "\<not> suffix ''pass'' ''ssid_list''"
    "suffix ''ssid_manual'' (el @ ''&ssid_manual'')" "\<not> suffix ''pass'' (el @ ''&ssid_manual'')" "suffix ''pass'' (em @ ''&pass'')"
    by (simp_all add: suffix_to_prefix)
  show "strstr (form_body el em ep) (''ssid_list'' @ [EQ]) = Some (''ssid_list'' @ EQ # el @ ''&ssid_manual='' @ em @ ''&pass='' @ ep)"
    unfolding body strstr_key [OF key(1) noeq(3)] by simp
  show "strstr (form_body el em ep) (''ssid_manual'' @ [EQ]) = Some (''ssid_manual'' @ EQ # em @ ''&pass='' @ ep)"
    unfolding body strstr_key [OF key(2) noeq(3)] strstr_key [OF key(2) noeq(1)] using suf(1,3) by simp
  show "strstr (form_body el em ep) (''pass'' @ [EQ]) = Some (''pass'' @ EQ # ep @ [])"
    unfolding body strstr_key [OF key(3) noeq(3)] strstr_key [OF key(3) noeq(1)] strstr_key [OF key(3) noeq(2)]
    using suf(2,4,5) by simp
qed

lemma nvs_specD:
  "nvs_spec N \<Longrightarrow> nvs_set N s k v = Some s' \<Longrightarrow> nvs_get N s' k = Some v"
  "nvs_spec N \<Longrightarrow> nvs_set N s k v = Some s' \<Longrightarrow> k' \<noteq> k \<Longrightarrow> nvs_get N s' k' = nvs_get N s k'"
  "nvs_spec N \<Longrightarrow> nvs_commit N s = Some s' \<Longrightarrow> nvs_get N s' = nvs_get N s"
  "nvs_spec N \<Longrightarrow> nvs_commit N s = Some s' \<Longrightarrow> nvs_open_ro N s'"
  by (simp_all add: nvs_spec_def)

lemma nvs_saved_loads:
  assumes N: "nvs_spec N" and save: "nvs_save_credentials N s ssid pass = Some s'" and fit: "length ssid < 32" "length pass < 64"
  shows "nvs_load_credentials N s' 32 64 = Some (ssid, pass)"
proof -
  from save obtain s1 s2 where st: "nvs_set N s ''ssid'' ssid = Some s1" "nvs_set N s1 ''pass'' pass = Some s2" "nvs_commit N s2 = Some s'"
    by (auto simp: nvs_save_credentials_def bind_eq_Some_conv split: if_splits)
  have "nvs_get N s2 ''ssid'' = Some ssid"
    using nvs_specD(1) [OF N st(1)] nvs_specD(2) [OF N st(2), of "''ssid''"] by simp
  moreover note nvs_specD(1) [OF N st(2)] nvs_specD(3,4) [OF N st(3)]
  ultimately show ?thesis using fit by (simp add: nvs_load_credentials_def nvs_get_str_def)
qed

text \<open>What the form handler makes of the body: the typed name, or else the chosen one.\<close>

lemma post_save_form:
  assumes l: "url_encodes l el" "length el < 256" and m: "url_encodes m em" "length em < 256" and p: "url_encodes p ep" "length ep < 256"
    and body: "length (form_body el em ep) \<le> 511" and ssid: "(if m = [] then l else m) \<noteq> []"
  shows "post_save_handler N (Some (form_body el em ep)) s =
     map_option (\<lambda>s'. (s', Save_Ok (take 31 (if m = [] then l else m)) (take 63 p)))
       (nvs_save_credentials N s (take 31 (if m = [] then l else m)) (take 63 p))"
proof -
  note at = form_body_fields [OF l(1) m(1) p(1)]
  have nf: "cstr (take 511 (form_body el em ep)) = form_body el em ep"
    using body url_encodes_chars [OF l(1)] url_encodes_chars [OF m(1)] url_encodes_chars [OF p(1)]
    by (simp add: form_body_def)
  have "\<exists>b. form_field (form_body el em ep) ''ssid_manual'' (replicate 32 NUL) 32 = Some (b, True) \<and> length b = length (replicate 32 NUL)
      \<and> cstr b = take (length (replicate 32 NUL) - 1) m"
    using m by (intro form_field_found [OF _ at(2)]) auto
  then obtain b where b: "form_field (form_body el em ep) ''ssid_manual'' (replicate 32 NUL) 32 = Some (b, True)" "length b = 32" "cstr b = take 31 m"
    by auto
  have "\<exists>b'. form_field (form_body el em ep) ''ssid_list'' b 32 = Some (b', True) \<and> length b' = length b \<and> cstr b' = take (length b - 1) l"
    using l b(2) by (intro form_field_found [OF _ at(1)]) auto
  then obtain b' where b': "form_field (form_body el em ep) ''ssid_list'' b 32 = Some (b', True)" "cstr b' = take 31 l"
    using b(2) by auto
  have "\<exists>c. form_field (form_body el em ep) ''pass'' (replicate 64 NUL) 64 = Some (c, True) \<and> length c = length (replicate 64 NUL)
      \<and> cstr c = take (length (replicate 64 NUL) - 1) p"
    using p by (intro form_field_found [OF _ at(3)]) auto
  then obtain c where c: "form_field (form_body el em ep) ''pass'' (replicate 64 NUL) 64 = Some (c, True)" "cstr c = take 63 p" by auto
  show ?thesis
    using nf b b' c ssid by (auto simp: post_save_handler_def Let_def option_map_bind)
qed

text \<open>What was saved is what the next boot configures the station with.\<close>

lemma saved_reaches_station:
  assumes E: "event_group_spec E" and N: "nvs_spec N" and cred: "nul_free ssid" "nul_free p" "length ssid \<le> 31" "length p \<le> 63"
    and save: "nvs_save_credentials N s ssid p = Some s'" and ok: "\<And>c. wi_ok io c"
  shows "\<exists>w calls. wifi_manager_task E io N s' (wifi_manager_start E) = Some (w, calls) \<and>
        calls = [Create_Sta, Mode MODE_STA, Sta_Config ssid p, Start] \<and> eg_has E (wf_eg w) WIFI_CONNECTING_BIT"
proof -
  have "nvs_load_credentials N s' 32 64 = Some (ssid, p)" using nvs_saved_loads [OF N save] cred by simp
  with cred ok show ?thesis
    by (simp add: wifi_manager_task_def start_sta_mode_def checked_def wifi_manager_start_def Let_def wifi_bits eg_simps E)
qed



section \<open>From the page to the station\<close>

text \<open>
  What is relied on of the server's lookup: a registered path and method get their handler, and a path
  under which nothing is registered gets none. \<open>lookup_list\<close> is such a lookup.
\<close>

definition httpd_spec :: "(uri_entry list \<Rightarrow> string \<Rightarrow> http_method \<Rightarrow> http_handler option) \<Rightarrow> bool" where
  "httpd_spec lookup \<longleftrightarrow>
     (\<forall>hs u m h. distinct (map (\<lambda>(u, m, _). (u, m)) hs) \<longrightarrow> (u, m, h) \<in> set hs \<longrightarrow> lookup hs u m = Some h) \<and>
     (\<forall>hs u m. u \<notin> fst ` set hs \<longrightarrow> lookup hs u m = None)"

fun lookup_list :: "uri_entry list \<Rightarrow> string \<Rightarrow> http_method \<Rightarrow> http_handler option" where
  "lookup_list [] u m = None"
| "lookup_list ((u', m', h) # hs) u m = (if u' = u \<and> m' = m then Some h else lookup_list hs u m)"

lemma lookup_list_spec: "httpd_spec lookup_list"
proof -
  have "distinct (map (\<lambda>(u, m, _). (u, m)) hs) \<Longrightarrow> (u, m, h) \<in> set hs \<Longrightarrow> lookup_list hs u m = Some h" for hs u m h
    by (induction hs) (auto, force)
  moreover have "u \<notin> fst ` set hs \<Longrightarrow> lookup_list hs u m = None" for hs u m by (induction hs) auto
  ultimately show ?thesis unfolding httpd_spec_def by blast
qed

lemma uri_handlers_distinct: "distinct (map (\<lambda>(u, m, _). (u, m)) uri_handlers)"
  by code_simp

lemma httpd_registered:
  "httpd_spec lookup \<Longrightarrow> (u, m, h) \<in> set uri_handlers \<Longrightarrow> lookup uri_handlers u m = Some h"
  using uri_handlers_distinct unfolding httpd_spec_def by blast

text \<open>
  The body a browser sends for a form with the given field names: each name with the encoded value,
  joined by ampersands.
\<close>

fun submit_form :: "(string \<times> string) list \<Rightarrow> string" where
  "submit_form [] = []"
| "submit_form [(n, v)] = n @ EQ # v"
| "submit_form ((n, v) # fs) = n @ EQ # v @ CHR ''&'' # submit_form fs"

lemma submit_form_body: "submit_form (zip [''ssid_list'', ''ssid_manual'', ''pass''] [l, m, p]) = form_body l m p"
  by (simp add: form_body_def)

text \<open>The page as one text.\<close>

fun reply_text :: "http_reply \<Rightarrow> string" where
  "reply_text (Reply st ty hs chunks) = concat chunks"
| "reply_text (Reply_Error n msg) = msg"

definition offered :: "string \<Rightarrow> string list" where
  "offered page = map html_unescape (attr_values option_tag QT page)"

definition page_fields :: "string \<Rightarrow> string list" where
  "page_fields page = attr_values select_tag SQ page @ attr_values input_tag SQ page"

text \<open>The page is served under the root and under every path that is not registered.\<close>

lemma page_served:
  assumes H: "httpd_spec lookup" and fit: "list_all fits_page scan"
    and path: "(uri, HTTP_GET, Portal_Html) \<in> set uri_handlers \<and> meth = HTTP_GET \<or> uri \<notin> fst ` set uri_handlers"
  shows "\<exists>reply. http_request lookup N scan uri meth recvd s = Some (s, reply) \<and>
     offered (reply_text reply) = filter (\<lambda>n. n \<noteq> []) scan \<and>
     page_fields (reply_text reply) = (if scan = [] then [] else [''ssid_list'']) @ [''ssid_manual'', ''pass'']"
proof -
  from portal_page_values [OF fit] obtain chunks where c: "portal_chunks scan = Some chunks"
    "offered (concat chunks) = filter (\<lambda>n. n \<noteq> []) scan"
    "page_fields (concat chunks) = (if scan = [] then [] else [''ssid_list'']) @ [''ssid_manual'', ''pass'']"
    by (auto simp: offered_def page_fields_def)
  obtain st ty hs where page: "send_portal_html scan = Some (Reply st ty hs chunks)" by (simp add: send_portal_html_def c(1))
  have "http_request lookup N scan uri meth recvd s = Some (s, Reply st ty hs chunks)"
    using path
  proof
    assume "(uri, HTTP_GET, Portal_Html) \<in> set uri_handlers \<and> meth = HTTP_GET"
    then have "lookup uri_handlers uri meth = Some Portal_Html" using httpd_registered [OF H] by blast
    with page show ?thesis by (simp add: http_request_def portal_html_handler_def)
  next
    assume "uri \<notin> fst ` set uri_handlers"
    then have "lookup uri_handlers uri meth = None" using H unfolding httpd_spec_def by blast
    with page show ?thesis by (simp add: http_request_def captive_redirect_handler_def)
  qed
  with c(2,3) show ?thesis by auto
qed


definition scan_example :: "u32 wifi" where
  "scan_example = (wifi_manager_start mask_eg)\<lparr>wf_netif_sta := True, wf_scan := [''x'', [], ''a b&c'']\<rparr>"


end
