(* ===== verification/App_Main.thy ===== *)
theory App_Main
  imports Session_Tasks Hub_Client Log_Forwarder Wifi_Manager
begin

text \<open>
  The firmware's entry point (\<open>esp-codes/main/app_main.c\<close>): the order in which the components are
  started, and what that order means for the log lines written in between.
\<close>

section \<open>Boot\<close>

datatype nvs_err = NVS_OK | NVS_NO_FREE_PAGES | NVS_NEW_VERSION_FOUND | NVS_Error

text \<open>
  What the system answers during boot, with the lines that \<open>app_main\<close> and \<open>crash_reporter_init\<close> log
  once the hook is in place.
\<close>

record boot_io =
  bo_nvs :: nvs_err
  bo_erase :: bool
  bo_nvs_again :: bool
  bo_reason :: esp_reset_reason
  bo_line :: vprintf_io
  bo_crash_line :: vprintf_io
  bo_usb :: bool

record ('g, 'q) firmware =
  fw_wifi :: "'g wifi"
  fw_hub :: "'g hub_client"
  fw_log :: "'q log_fwd"
  fw_rtc :: rtc
  fw_crash :: crash_ram
  fw_report :: bool
  fw_sessions :: "'g session option list"
  fw_tasks :: "task list"

definition usb_cfg :: device_session_cfg where
  "usb_cfg = \<lparr>cfg_device_id = DEVICE_ID_USB0, cfg_speed = USB_SPEED_FULL, cfg_usb_class = 0, cfg_subclass = 0,
     cfg_protocol = 0, cfg_usbip_mode = True\<rparr>"

text \<open>\<open>nvs_flash_init\<close> with one attempt to repair the partition; \<open>None\<close> is a failed \<open>ESP_ERROR_CHECK\<close>.\<close>

definition nvs_boot :: "boot_io \<Rightarrow> unit option" where
  "nvs_boot io =
     (if bo_nvs io = NVS_NO_FREE_PAGES \<or> bo_nvs io = NVS_NEW_VERSION_FOUND
      then if bo_erase io \<and> bo_nvs_again io then Some () else None
      else if bo_nvs io = NVS_OK then Some () else None)"

text \<open>A line is hooked only if the forwarder could create its queue.\<close>

definition log_line :: "'q queue_ops \<Rightarrow> bool \<Rightarrow> vprintf_io \<Rightarrow> rtc \<Rightarrow> 'q log_fwd \<Rightarrow> (rtc \<times> 'q log_fwd) option" where
  "log_line Q hooked io r f = (if hooked then log_forwarder_vprintf Q io r f else Some (r, f))"

definition app_main :: "'g eg_ops \<Rightarrow> 'q queue_ops \<Rightarrow> boot_io \<Rightarrow> rtc \<Rightarrow> ('g, 'q) firmware option" where
  "app_main E Q io rtc0 = do {
     _ \<leftarrow> nvs_boot io;
     let wifi = wifi_manager_start E;
     let hub = hub_client_start E;
     let (log0, hooked) = log_forwarder_init Q;
     (rtc1, log1) \<leftarrow> log_line Q hooked (bo_line io) rtc0 log0;
     (rtc2, crash, report) \<leftarrow> crash_reporter_init (bo_reason io) rtc1 crash_ram_boot;
     (rtc3, log2) \<leftarrow> log_line Q hooked (bo_crash_line io) rtc2 log1;
     let (tbl, tasks) = device_session_start E usb_cfg (bo_usb io) (replicate 5 None);
     Some \<lparr>fw_wifi = wifi, fw_hub = hub, fw_log = log2, fw_rtc = rtc3, fw_crash = crash, fw_report = report,
           fw_sessions = tbl, fw_tasks = tasks\<rparr> }"

section \<open>Correctness\<close>

text \<open>The hook on a well-formed ring, as needed for the two boot lines.\<close>

lemma hooked_line:
  assumes "vprintf_io_ok io" "vp_text io = Some t" "ring_ok r" "lf_queue f = Some q"
  shows "\<exists>r' f' q'. log_forwarder_vprintf Q io r f = Some (r', f') \<and> ring_ok r' \<and> lf_queue f' = Some q' \<and>
     ring_content r' = last_n RTC_BUF_SIZE (ring_content r @ take 127 t)"
proof -
  obtain r' where r': "rtc_part io r = Some r'" "ring_ok r'" "ring_content r' = last_n RTC_BUF_SIZE (ring_content r @ take 127 t)"
    using rtc_part_appends [OF assms(1-3)] by blast
  have "vsnprintf b LOG_MSG_MAX (Some t) \<noteq> None" if "vp_block io = Some b" for b
    using that assms(1) vsnprintf_fits [of b LOG_MSG_MAX t] by (simp add: vprintf_io_ok_def const_defs)
  then show ?thesis
    using r' assms(2,4)
    by (cases "vp_block io") (auto simp: log_forwarder_vprintf_def Let_def split: option.splits)
qed


definition boot_example :: boot_io where
  "boot_example = \<lparr>bo_nvs = NVS_NEW_VERSION_FOUND, bo_erase = True, bo_nvs_again = True, bo_reason = ESP_RST_PANIC,
     bo_line = line_io ''boot'', bo_crash_line = line_io ''crash'', bo_usb = True\<rparr>"


end
