(* ===== verification/Wire_Types.thy ===== *)
theory Wire_Types
  imports App_Main Hub_Server
begin

text \<open>
  The enumerations of the wire protocol (\<open>daemon/src/protocol/Protocol.h\<close>) and a type of packets over
  them: which commands there are, and what the payload of each has to be. Every packet that either
  side builds has this type.
\<close>

section \<open>The enumerations\<close>

datatype CmdType = DISCOVER | DISCOVER_REPLY | DEVICE_EVENT | RAW_DATA | RAW_FRAG | LOG | ERROR

fun CmdType_value :: "CmdType \<Rightarrow> u8" where
  "CmdType_value DISCOVER = CMD_DISCOVER"
| "CmdType_value DISCOVER_REPLY = CMD_DISCOVER_REPLY"
| "CmdType_value DEVICE_EVENT = CMD_DEVICE_EVENT"
| "CmdType_value RAW_DATA = CMD_RAW_DATA"
| "CmdType_value RAW_FRAG = CMD_RAW_FRAG"
| "CmdType_value LOG = CMD_LOG"
| "CmdType_value ERROR = CMD_ERROR"

definition DEVICE_ID_USB1 :: u8 where [const_defs]: "DEVICE_ID_USB1 = 0x01"
definition DEVICE_ID_USB2 :: u8 where [const_defs]: "DEVICE_ID_USB2 = 0x02"
definition DEVICE_ID_USB3 :: u8 where [const_defs]: "DEVICE_ID_USB3 = 0x03"

datatype DeviceId = USB0 | USB1 | USB2 | USB3

fun DeviceId_value :: "DeviceId \<Rightarrow> u8" where
  "DeviceId_value USB0 = DEVICE_ID_USB0"
| "DeviceId_value USB1 = DEVICE_ID_USB1"
| "DeviceId_value USB2 = DEVICE_ID_USB2"
| "DeviceId_value USB3 = DEVICE_ID_USB3"

datatype DeviceEvent = CONNECT | DISCONNECT

fun DeviceEvent_value :: "DeviceEvent \<Rightarrow> u8" where
  "DeviceEvent_value CONNECT = DEVICE_EVENT_CONNECT"
| "DeviceEvent_value DISCONNECT = DEVICE_EVENT_DISCONNECT"

datatype UsbSpeed = LOW | FULL | HIGH

fun UsbSpeed_value :: "UsbSpeed \<Rightarrow> u8" where
  "UsbSpeed_value LOW = USB_SPEED_LOW"
| "UsbSpeed_value FULL = USB_SPEED_FULL"
| "UsbSpeed_value HIGH = USB_SPEED_HIGH"

text \<open>The enumerator with a given value, \<open>None\<close> if there is none.\<close>

definition enum_cast :: "('a \<Rightarrow> u8) \<Rightarrow> 'a list \<Rightarrow> u8 \<Rightarrow> 'a option" where
  "enum_cast val all v = find (\<lambda>a. val a = v) all"

locale wire_enum =
  fixes val :: "'a \<Rightarrow> u8" and all :: "'a list"
  assumes every: "a \<in> set all" and apart: "distinct (map val all)"
begin

lemma cast_value: "enum_cast val all (val a) = Some a"
proof -
  have "inj_on val (set all)" using apart by (simp add: distinct_map)
  then have same: "val b = val a \<longleftrightarrow> b = a" for b using every inj_on_eq_iff by metis
  have "find (\<lambda>b. b = a) xs = Some a" if "a \<in> set xs" for xs using that by (induction xs) auto
  with every same show ?thesis by (simp add: enum_cast_def)
qed

lemma value_cast: "enum_cast val all v = Some a \<longleftrightarrow> v = val a"
  using cast_value [of a] by (auto simp: enum_cast_def find_Some_iff)

end

definition CmdType_all :: "CmdType list" where
  "CmdType_all = [DISCOVER, DISCOVER_REPLY, DEVICE_EVENT, RAW_DATA, RAW_FRAG, LOG, ERROR]"
definition DeviceId_all :: "DeviceId list" where "DeviceId_all = [USB0, USB1, USB2, USB3]"
definition DeviceEvent_all :: "DeviceEvent list" where "DeviceEvent_all = [CONNECT, DISCONNECT]"
definition UsbSpeed_all :: "UsbSpeed list" where "UsbSpeed_all = [LOW, FULL, HIGH]"

interpretation cmd_type: wire_enum CmdType_value CmdType_all
proof
  show "a \<in> set CmdType_all" for a by (cases a) (simp_all add: CmdType_all_def)
qed (simp add: CmdType_all_def const_defs)

interpretation device_id: wire_enum DeviceId_value DeviceId_all
proof
  show "a \<in> set DeviceId_all" for a by (cases a) (simp_all add: DeviceId_all_def)
qed (simp add: DeviceId_all_def const_defs)

interpretation device_event_kind: wire_enum DeviceEvent_value DeviceEvent_all
proof
  show "a \<in> set DeviceEvent_all" for a by (cases a) (simp_all add: DeviceEvent_all_def)
qed (simp add: DeviceEvent_all_def const_defs)

interpretation usb_speed: wire_enum UsbSpeed_value UsbSpeed_all
proof
  show "a \<in> set UsbSpeed_all" for a by (cases a) (simp_all add: UsbSpeed_all_def)
qed (simp add: UsbSpeed_all_def const_defs)

lemmas cmd_casts [simp] =
  cmd_type.cast_value [of DISCOVER, simplified CmdType_value.simps] cmd_type.cast_value [of DISCOVER_REPLY, simplified CmdType_value.simps]
  cmd_type.cast_value [of DEVICE_EVENT, simplified CmdType_value.simps] cmd_type.cast_value [of RAW_DATA, simplified CmdType_value.simps]
  cmd_type.cast_value [of RAW_FRAG, simplified CmdType_value.simps] cmd_type.cast_value [of LOG, simplified CmdType_value.simps]

section \<open>The type of a packet\<close>

fun payload_ok :: "CmdType \<Rightarrow> byte list \<Rightarrow> bool" where
  "payload_ok DISCOVER p \<longleftrightarrow> p = []"
| "payload_ok DISCOVER_REPLY p \<longleftrightarrow> length p = sizeof_DiscoverReply"
| "payload_ok DEVICE_EVENT p \<longleftrightarrow> length p = sizeof_DeviceEvent \<and>
     (case dec_DeviceEvent p of
        None \<Rightarrow> False
      | Some d \<Rightarrow> enum_cast DeviceId_value DeviceId_all (dep_device_id d) \<noteq> None \<and>
          enum_cast DeviceEvent_value DeviceEvent_all (event d) \<noteq> None \<and>
          enum_cast UsbSpeed_value UsbSpeed_all (speed d) \<noteq> None)"
| "payload_ok RAW_DATA p \<longleftrightarrow> True"
| "payload_ok RAW_FRAG p \<longleftrightarrow> (case dec_FragHeader p of None \<Rightarrow> False | Some f \<Rightarrow> frag_idx f < frag_total f)"
| "payload_ok LOG p \<longleftrightarrow>
     (case dec_LogPayload p of None \<Rightarrow> False | Some l \<Rightarrow> LOG_LEVEL_ERROR \<le> log_level l \<and> log_level l \<le> LOG_LEVEL_VERBOSE)"
| "payload_ok ERROR p \<longleftrightarrow> True"

definition packet_ok :: "byte list \<Rightarrow> bool" where
  "packet_ok bs \<longleftrightarrow>
     (case dec_Header bs of
        None \<Rightarrow> False
      | Some hdr \<Rightarrow> length bs = sizeof_Header + unat (payload_len hdr) \<and>
          (case enum_cast CmdType_value CmdType_all (cmd_type hdr) of
             None \<Rightarrow> False
           | Some c \<Rightarrow> payload_ok c (drop sizeof_Header bs)))"

lemma packet_okI:
  assumes "length p = unat (payload_len hdr)" and "cmd_type hdr = CmdType_value c" and "payload_ok c p"
  shows "packet_ok (enc_Header hdr @ p)"
  using assms by (simp add: packet_ok_def wire_size cmd_type.cast_value)

section \<open>The packets of the firmware\<close>

lemma event_packet_ok:
  assumes "cfg_device_id (ss_cfg s) = DeviceId_value d" and "cfg_speed (ss_cfg s) = UsbSpeed_value v"
  shows "packet_ok (event_packet s (DeviceEvent_value e))"
  unfolding event_packet_def
  by (rule packet_okI [where c = DEVICE_EVENT])
    (simp_all add: wire_size assms device_id.cast_value device_event_kind.cast_value usb_speed.cast_value)

lemma frag_packet_ok:
  assumes "i < n" and "n \<le> 255" and "length (chunks ! i) \<le> MTU_PAYLOAD"
  shows "packet_ok (frag_packet s t n chunks i)"
proof -
  have "unat (of_nat (4 + length (chunks ! i)) :: u16) = 4 + length (chunks ! i)"
    using assms(3) by (intro unat_of_nat_16) (simp add: const_defs)
  moreover have "(of_nat i :: u8) < of_nat n"
    using assms(1,2) by (simp add: word_less_nat_alt unat_of_nat_8)
  ultimately show ?thesis
    unfolding frag_packet_def by (intro packet_okI [where c = RAW_FRAG]) (simp_all add: raw_header_def wire_size)
qed

lemma send_raw_ok:
  assumes "send_raw s data = Some (s', pkts)" and "pkt \<in> set pkts"
  shows "packet_ok pkt"
proof (cases "0 \<le> ss_sock s")
  case False
  with assms show ?thesis by (simp add: send_raw_def)
next
  case sock: True
  show ?thesis
  proof (cases "length data \<le> MTU_PAYLOAD")
    case True
    then have "unat (of_nat (length data) :: u16) = length data" by (intro unat_of_nat_16) (simp add: const_defs)
    moreover have "pkt = enc_Header (raw_header s CMD_RAW_DATA (length data)) @ data"
      using assms send_raw_single [OF sock True] by auto
    ultimately show ?thesis by (simp add: packet_okI [where c = RAW_DATA] raw_header_def)
  next
    case False
    let ?chunks = "chunks_of MTU_PAYLOAD data"
    from False obtain i where "pkt = frag_packet s (ss_out_transfer_seq s) (length ?chunks) ?chunks i" "i < length ?chunks" "length ?chunks \<le> 255"
      using assms send_raw_many [OF sock, of data] by (auto simp: Let_def split: if_splits)
    moreover from this(2) have "length (?chunks ! i) \<le> MTU_PAYLOAD" using chunks_of_bound [OF nth_mem] by blast
    ultimately show ?thesis using frag_packet_ok by simp
  qed
qed

lemma log_packet_ok: "packet_ok (log_packet t)"
proof -
  have "unat (of_nat (Suc (length (take 255 t))) :: u16) = Suc (length (take 255 t))" by (intro unat_of_nat_16) simp
  moreover have "LOG_LEVEL_ERROR \<le> detect_level u \<and> detect_level u \<le> LOG_LEVEL_VERBOSE" for u
    by (simp add: detect_level_def const_defs split: list.splits)
  ultimately show ?thesis
    unfolding log_packet_def by (intro packet_okI [where c = LOG]) simp_all
qed

section \<open>The packets of the daemon\<close>

lemma sendRawDataPacket_ok:
  assumes "sendRawDataPacket h data sends = Some (h', out, rest)" and "length out = sizeof_Header + min 65535 (length data)"
  shows "packet_ok out"
proof -
  let ?n = "min 65535 (length data)" and ?m = "if length data > 65535 then 65535 else length data"
  have m: "?m = ?n" by simp
  let ?hdr = "raw_data_header h ?n"
  have len: "unat (payload_len ?hdr) = ?n" by (simp add: raw_data_header_def unat_of_nat_16)
  obtain w where "out = take w (enc_Header ?hdr) \<or> out = enc_Header ?hdr @ take w (take ?n data)"
    using assms(1) unfolding sendRawDataPacket_def m Let_def by (auto simp: bind_eq_Some_conv split: if_splits)
  then have "out = enc_Header ?hdr @ take ?n data"
  proof
    assume out: "out = take w (enc_Header ?hdr)"
    then have "?n = 0" "w \<ge> 6" using assms(2) by (auto simp: wire_size min_def split: if_splits)
    with out show ?thesis by simp
  next
    assume "out = enc_Header ?hdr @ take w (take ?n data)"
    with assms(2) show ?thesis by (auto simp: wire_size min_def split: if_splits)
  qed
  then show ?thesis using len by (simp add: packet_okI [where c = RAW_DATA] raw_data_header_def)
qed

section \<open>Properties\<close>

text \<open>
  C13. Every packet that either side builds is well typed: its command is a declared one, its length
  field is the length of its payload, and the payload is of the command's type, with declared
  device numbers, events, speeds and log levels and a fragment index below the number of fragments.
  This covers the broadcast and its answer, the events of a device with a declared number and speed,
  all datagrams a session sends for data of any length, every log line, and the frames with kernel
  data that are written completely.
\<close>

theorem packets_well_typed:
  assumes cfg: "cfg_device_id (ss_cfg s) = DeviceId_value d" "cfg_speed (ss_cfg s) = UsbSpeed_value v"
    and raw: "send_raw s data = Some (s', pkts)"
    and log: "entry_holds e t" "length pkt = sizeof_Header + sizeof_LogPayload + LOG_MSG_MAX"
    and kernel: "sendRawDataPacket h kdata sends = Some (h', out, rest)" "length out = sizeof_Header + min 65535 (length kdata)"
  shows "packet_ok discover_packet \<and> packet_ok discover_reply_packet \<and>
     packet_ok (event_packet s (DeviceEvent_value ev)) \<and> list_all packet_ok pkts \<and>
     (\<exists>p. log_pkt pkt e = Some p \<and> packet_ok p) \<and> packet_ok out"
proof -
  have "packet_ok (enc_Header \<lparr>cmd_type = CMD_DISCOVER, device_id = 0, endpoint = 0, seq = 0, payload_len = 0\<rparr> @ [])"
    by (rule packet_okI [where c = DISCOVER]) simp_all
  then have "packet_ok discover_packet" by (simp add: discover_packet_def)
  moreover have "packet_ok discover_reply_packet"
    unfolding discover_reply_packet_def by (rule packet_okI [where c = DISCOVER_REPLY]) (simp_all add: wire_size)
  moreover have "list_all packet_ok pkts" using send_raw_ok [OF raw] by (simp add: list_all_iff)
  ultimately show ?thesis
    using event_packet_ok [OF cfg] log_pkt_packet [OF log] log_packet_ok sendRawDataPacket_ok [OF kernel] by simp
qed

definition typed_session :: "u32 session" where
  "typed_session = mouse_session\<lparr>ss_cfg := usb_cfg\<rparr>"

theorem packets_well_typed_witness:
  "packet_ok (event_packet typed_session DEVICE_EVENT_CONNECT) \<and>
     (\<exists>p. log_pkt (replicate 263 0) entry_example = Some p \<and> packet_ok p)"
proof -
  have cfg: "cfg_device_id (ss_cfg typed_session) = DeviceId_value USB0" "cfg_speed (ss_cfg typed_session) = UsbSpeed_value FULL"
    by (simp_all add: typed_session_def usb_cfg_def)
  have raw: "send_raw typed_session [9] = Some (typed_session\<lparr>ss_seq := ss_seq typed_session + 1\<rparr>,
      [enc_Header (raw_header typed_session CMD_RAW_DATA (length [9 :: byte])) @ [9]])"
    by (rule send_raw_single) (simp_all add: typed_session_def mouse_session_def const_defs)
  have log: "length (replicate 263 (0 :: byte)) = sizeof_Header + sizeof_LogPayload + LOG_MSG_MAX" by (simp add: wire_size const_defs)
  have kernel: "sendRawDataPacket \<lparr>ph_vhci_fd = 7, ph_sock = 8, ph_device_id = 0, ph_seq = 0\<rparr> [9] [SSent 6, SSent 1] =
      Some (\<lparr>ph_vhci_fd = 7, ph_sock = 8, ph_device_id = 0, ph_seq = 1\<rparr>, enc_Header (raw_data_header \<lparr>ph_vhci_fd = 7, ph_sock = 8, ph_device_id = 0, ph_seq = 0\<rparr> 1) @ [9], [])"
    using sendRawDataPacket_whole [of "[9]" "\<lparr>ph_vhci_fd = 7, ph_sock = 8, ph_device_id = 0, ph_seq = 0\<rparr>" "[]"] by simp
  show ?thesis
    using packets_well_typed [OF cfg raw entry_example_holds log kernel, of CONNECT] by (simp add: wire_size)
qed

end
