(* ===== verification/Mouse_Test.thy ===== *)
theory Mouse_Test
  imports Daemon_Text Wire_Types
begin

text \<open>
  The simulated device (\<open>daemon/tests/WasdMouseTest.cpp\<close>): a mouse that announces itself to the daemon,
  answers USB/IP requests from fixed descriptors and moves with the keyboard. Its structures, handlers
  and main loop, with the datagrams it sends as outputs; printing and the terminal's settings are
  left out.
\<close>

section \<open>Structures\<close>

record UsbipHeaderBasic =
  hb_command :: u32
  hb_seqnum :: u32
  hb_devid :: u32
  hb_direction :: u32
  hb_ep :: u32

record UsbipCmdSubmit =
  uc_basic :: UsbipHeaderBasic
  uc_transfer_flags :: u32
  uc_transfer_buffer_length :: u32
  uc_start_frame :: u32
  uc_number_of_packets :: u32
  uc_interval :: u32
  uc_setup :: arr8

record UsbipRetSubmit =
  ur_basic :: UsbipHeaderBasic
  ur_status :: u32
  ur_actual_length :: u32
  ur_start_frame :: u32
  ur_number_of_packets :: u32
  ur_error_count :: u32
  ur_padding :: arr8

definition basic_zero :: UsbipHeaderBasic where
  "basic_zero = \<lparr>hb_command = 0, hb_seqnum = 0, hb_devid = 0, hb_direction = 0, hb_ep = 0\<rparr>"

definition dec_UsbipCmdSubmit :: "byte list \<Rightarrow> UsbipCmdSubmit option" where
  "dec_UsbipCmdSubmit bs =
     (if length bs < 48 then None
      else Some \<lparr>uc_basic = \<lparr>hb_command = u32_at bs 0, hb_seqnum = u32_at bs 4, hb_devid = u32_at bs 8,
                             hb_direction = u32_at bs 12, hb_ep = u32_at bs 16\<rparr>,
                 uc_transfer_flags = u32_at bs 20, uc_transfer_buffer_length = u32_at bs 24, uc_start_frame = u32_at bs 28,
                 uc_number_of_packets = u32_at bs 32, uc_interval = u32_at bs 36, uc_setup = arr8_at bs 40\<rparr>)"

definition enc_UsbipRetSubmit :: "UsbipRetSubmit \<Rightarrow> byte list" where
  "enc_UsbipRetSubmit r =
     le32_bytes (hb_command (ur_basic r)) @ le32_bytes (hb_seqnum (ur_basic r)) @ le32_bytes (hb_devid (ur_basic r))
     @ le32_bytes (hb_direction (ur_basic r)) @ le32_bytes (hb_ep (ur_basic r)) @ le32_bytes (ur_status r)
     @ le32_bytes (ur_actual_length r) @ le32_bytes (ur_start_frame r) @ le32_bytes (ur_number_of_packets r)
     @ le32_bytes (ur_error_count r) @ arr8_bytes (ur_padding r)"

section \<open>Descriptors\<close>

definition HID_REPORT_DESC :: "byte list" where
  "HID_REPORT_DESC =
     [0x05, 0x01, 0x09, 0x02, 0xA1, 0x01, 0x09, 0x01, 0xA1, 0x00,
      0x05, 0x09, 0x19, 0x01, 0x29, 0x03, 0x15, 0x00, 0x25, 0x01,
      0x95, 0x03, 0x75, 0x01, 0x81, 0x02,
      0x95, 0x01, 0x75, 0x05, 0x81, 0x03,
      0x05, 0x01, 0x09, 0x30, 0x09, 0x31, 0x09, 0x38,
      0x15, 0x81, 0x25, 0x7F, 0x75, 0x08, 0x95, 0x03, 0x81, 0x06,
      0xC0, 0xC0]"

definition HID_REPORT_DESC_LEN :: u8 where
  "HID_REPORT_DESC_LEN = of_nat (length HID_REPORT_DESC)"

definition DEVICE_DESC :: "byte list" where
  "DEVICE_DESC =
     [0x12, 0x01, 0x00, 0x02, 0x00, 0x00, 0x00, 0x40,
      0x34, 0x12,
      0x78, 0x56,
      0x00, 0x01, 0x00, 0x00, 0x00, 0x01]"

definition CONFIG_DESC :: "byte list" where
  "CONFIG_DESC =
     [0x09, 0x02, 0x22, 0x00, 0x01, 0x01, 0x00, 0xA0, 0x32,
      0x09, 0x04, 0x00, 0x00, 0x01, 0x03, 0x01, 0x02, 0x00,
      0x09, 0x21, 0x11, 0x01, 0x00, 0x01, 0x22, HID_REPORT_DESC_LEN, 0x00,
      0x07, 0x05, 0x81, 0x03, 0x04, 0x00, 0x0A]"

definition STRING_LANG_DESC :: "byte list" where
  "STRING_LANG_DESC = [0x04, 0x03, 0x09, 0x04]"

section \<open>State and sending\<close>

text \<open>\<open>int8_t\<close> is an eight-bit word, read with \<open>sint\<close>.\<close>

record mouse =
  g_udp_seq :: u8
  MY_DEVICE_ID :: u8
  g_running :: bool
  g_dx :: u8
  g_dy :: u8
  g_buttons :: u8

definition udpSend :: "mouse \<Rightarrow> byte list \<Rightarrow> mouse \<times> byte list list" where
  "udpSend m payload =
     (m\<lparr>g_udp_seq := g_udp_seq m + 1\<rparr>,
      [enc_Header \<lparr>cmd_type = CmdType_value RAW_DATA, device_id = MY_DEVICE_ID m, endpoint = 0, seq = g_udp_seq m,
                   payload_len = of_nat (length payload)\<rparr> @ payload])"

definition sendRetSubmit :: "mouse \<Rightarrow> u32 \<Rightarrow> int \<Rightarrow> byte list \<Rightarrow> mouse \<times> byte list list" where
  "sendRetSubmit m seqnum status payload =
     udpSend m (enc_UsbipRetSubmit
       \<lparr>ur_basic = basic_zero\<lparr>hb_command := USBIP_U32 USBIP_RET_SUBMIT, hb_seqnum := USBIP_U32 seqnum\<rparr>,
        ur_status = USBIP_U32 (of_int status), ur_actual_length = USBIP_U32 (of_nat (length payload)),
        ur_start_frame = 0, ur_number_of_packets = 0, ur_error_count = 0, ur_padding = arr8_zero\<rparr> @ payload)"

section \<open>Requests\<close>

definition getWLength :: "byte list \<Rightarrow> u16" where
  "getWLength setup8 = ucast (setup8 ! 6) OR push_bit 8 (ucast (setup8 ! 7))"

text \<open>The descriptor chosen for a request, \<open>None\<close> where the code answers with an error.\<close>

definition chosen_desc :: "byte list \<Rightarrow> byte list option" where
  "chosen_desc setup8 =
     (let req_type = setup8 ! 0; desc_idx = setup8 ! 2; desc_type = setup8 ! 3
      in if req_type = 0x80 then
           if desc_type = 0x01 then Some DEVICE_DESC
           else if desc_type = 0x02 then Some CONFIG_DESC
           else if desc_type = 0x03 \<and> desc_idx = 0 then Some STRING_LANG_DESC
           else None
         else if req_type = 0x81 \<and> desc_type = 0x22 then Some HID_REPORT_DESC
         else None)"

definition handleControlIn :: "mouse \<Rightarrow> u32 \<Rightarrow> byte list \<Rightarrow> mouse \<times> byte list list" where
  "handleControlIn m seqnum setup8 =
     (let req_type = setup8 ! 0; bRequest = setup8 ! 1; wLength = getWLength setup8
      in if bRequest = 0x06 then
           (case chosen_desc setup8 of
              Some desc \<Rightarrow> sendRetSubmit m seqnum 0 (take (if unat wLength < length desc then unat wLength else length desc) desc)
            | None \<Rightarrow> sendRetSubmit m seqnum (-32) [])
         else if req_type = 0x80 \<and> bRequest = 0x08 then sendRetSubmit m seqnum 0 [0x01]
         else if req_type = 0x81 \<and> bRequest = 0x0A then sendRetSubmit m seqnum 0 [0x00]
         else sendRetSubmit m seqnum (-32) [])"

definition handleControlOut :: "mouse \<Rightarrow> u32 \<Rightarrow> mouse \<times> byte list list" where
  "handleControlOut m seqnum = sendRetSubmit m seqnum 0 []"

definition handleInterruptIn :: "mouse \<Rightarrow> u32 \<Rightarrow> mouse \<times> byte list list" where
  "handleInterruptIn m seqnum =
     (let report = [g_buttons m, g_dx m, g_dy m, 0x00]
      in sendRetSubmit (m\<lparr>g_dx := 0, g_dy := 0\<rparr>) seqnum 0 report)"

definition unlink_reply :: "u32 \<Rightarrow> byte list" where
  "unlink_reply seqnum = le32_bytes (USBIP_U32 USBIP_RET_UNLINK) @ le32_bytes (USBIP_U32 seqnum) @ replicate 40 0"

definition dispatchUsbip :: "mouse \<Rightarrow> byte list \<Rightarrow> mouse \<times> byte list list" where
  "dispatchUsbip m buf =
     (case dec_UsbipCmdSubmit buf of
        None \<Rightarrow> (m, [])
      | Some cmd \<Rightarrow>
          let command = USBIP_U32 (hb_command (uc_basic cmd)); seqnum = USBIP_U32 (hb_seqnum (uc_basic cmd));
              direction = USBIP_U32 (hb_direction (uc_basic cmd)); ep = USBIP_U32 (hb_ep (uc_basic cmd));
              setup8 = arr8_bytes (uc_setup cmd)
          in if command = USBIP_CMD_UNLINK then udpSend m (unlink_reply seqnum)
             else if command \<noteq> USBIP_CMD_SUBMIT then (m, [])
             else if ep = 0 then
               if direction = USBIP_DIR_IN then handleControlIn m seqnum setup8 else handleControlOut m seqnum
             else if ep = 1 \<and> direction = USBIP_DIR_IN then handleInterruptIn m seqnum
             else sendRetSubmit m seqnum (-32) [])"

section \<open>The main loop\<close>

text \<open>The requests in one payload, one after the other.\<close>

function usbip_stream :: "mouse \<Rightarrow> byte list \<Rightarrow> mouse \<times> byte list list" where
  "usbip_stream m p =
     (case dec_UsbipCmdSubmit p of
        None \<Rightarrow> (m, [])
      | Some hdr \<Rightarrow>
          let extra = (if USBIP_U32 (hb_direction (uc_basic hdr)) = USBIP_DIR_OUT
                       then unat (USBIP_U32 (uc_transfer_buffer_length hdr)) else 0);
              pkt_sz = 48 + extra
          in if pkt_sz > length p then (m, [])
             else
               let (m1, out1) = dispatchUsbip m (take pkt_sz p); (m2, out2) = usbip_stream m1 (drop pkt_sz p)
               in (m2, out1 @ out2))"
  by auto
termination
  by (relation "measure (\<lambda>(m, p). length p)") (auto simp: dec_UsbipCmdSubmit_def split: if_splits)

declare usbip_stream.simps [simp del]

definition on_datagram :: "mouse \<Rightarrow> byte list \<Rightarrow> mouse \<times> byte list list" where
  "on_datagram m dgram =
     (let pkt_buf = take (65536 + sizeof_Header) dgram
      in case dec_Header pkt_buf of
           None \<Rightarrow> (m, [])
         | Some rhdr \<Rightarrow>
             if cmd_type rhdr \<noteq> CmdType_value RAW_DATA then (m, [])
             else if device_id rhdr \<noteq> MY_DEVICE_ID m then (m, [])
             else usbip_stream m (drop sizeof_Header pkt_buf))"

definition STEP :: u8 where "STEP = 8"

definition on_key :: "mouse \<Rightarrow> char \<Rightarrow> mouse" where
  "on_key m ch =
     (if ch = CHR ''w'' \<or> ch = CHR ''W'' then m\<lparr>g_dy := g_dy m - STEP\<rparr>
      else if ch = CHR ''s'' \<or> ch = CHR ''S'' then m\<lparr>g_dy := g_dy m + STEP\<rparr>
      else if ch = CHR ''a'' \<or> ch = CHR ''A'' then m\<lparr>g_dx := g_dx m - STEP\<rparr>
      else if ch = CHR ''d'' \<or> ch = CHR ''D'' then m\<lparr>g_dx := g_dx m + STEP\<rparr>
      else if ch = CHR ''q'' \<or> ch = CHR ''Q'' \<or> ch = CHR 0x03 then m\<lparr>g_running := False\<rparr>
      else m)"

text \<open>
  What an entry of \<open>events\<close> brings: a datagram, a key, or a signal that arrives meanwhile. A turn of the
  loop handles all entries of one \<open>epoll_wait\<close>; \<open>g_running\<close> is looked at between the turns.
\<close>

datatype mouse_event = Ev_Datagram "byte list" | Ev_Key char | Ev_Signal

fun mouse_turn :: "mouse \<Rightarrow> mouse_event list \<Rightarrow> mouse \<times> byte list list" where
  "mouse_turn m [] = (m, [])"
| "mouse_turn m (Ev_Datagram bs # evs) =
     (let (m1, out1) = on_datagram m bs; (m2, out2) = mouse_turn m1 evs in (m2, out1 @ out2))"
| "mouse_turn m (Ev_Key c # evs) = mouse_turn (on_key m c) evs"
| "mouse_turn m (Ev_Signal # evs) = mouse_turn (m\<lparr>g_running := False\<rparr>) evs"

fun mouse_loop :: "mouse \<Rightarrow> mouse_event list list \<Rightarrow> mouse \<times> byte list list" where
  "mouse_loop m [] = (m, [])"
| "mouse_loop m (turn # turns) =
     (if g_running m then let (m1, out1) = mouse_turn m turn; (m2, out2) = mouse_loop m1 turns in (m2, out1 @ out2)
      else (m, []))"

definition mouse_packet :: "mouse \<Rightarrow> DeviceEvent \<Rightarrow> u16 \<Rightarrow> byte list" where
  "mouse_packet m ev port =
     enc_Header \<lparr>cmd_type = CmdType_value DEVICE_EVENT, device_id = MY_DEVICE_ID m, endpoint = 0, seq = g_udp_seq m,
                 payload_len = of_nat sizeof_DeviceEvent\<rparr>
     @ enc_DeviceEvent \<lparr>dep_device_id = MY_DEVICE_ID m, event = DeviceEvent_value ev, speed = UsbSpeed_value FULL,
          usb_class = 0x03, sub_class = 0x01, protocol = 0x02, reply_port = port\<rparr>"

text \<open>
  The whole program: what \<open>socket\<close>, \<open>bind\<close> and \<open>epoll_create1\<close> answer, the two optional arguments, as \<open>strtoul\<close>
  reads them, and the turns of the loop up to a failing \<open>epoll_wait\<close>, if any. The result is the exit
  code, the port it listens on, where its datagrams go, and the datagrams in order.
\<close>

record mouse_env =
  me_socket :: int
  me_bind :: int
  me_epoll :: int
  me_id :: "nat option"
  me_port :: "nat option"

definition mouse_port :: "mouse_env \<Rightarrow> u16" where
  "mouse_port env =
     (case me_id env of
        None \<Rightarrow> DEVICE_BASE_PORT
      | Some n \<Rightarrow> (case me_port env of Some k \<Rightarrow> of_nat k | None \<Rightarrow> DEVICE_BASE_PORT + ucast (of_nat n :: u8)))"

definition mouse_main :: "mouse_env \<Rightarrow> mouse_event list list \<Rightarrow> int \<times> u16 \<times> sockaddr_in \<times> byte list list" where
  "mouse_main env turns =
     (let dev = (case me_id env of None \<Rightarrow> 0 | Some n \<Rightarrow> of_nat n);
          port = mouse_port env; daemon = makeAddr (Some ''127.0.0.1'') DAEMON_PORT;
          m = \<lparr>g_udp_seq = 0, MY_DEVICE_ID = dev, g_running = True, g_dx = 0, g_dy = 0, g_buttons = 0\<rparr>
      in if me_socket env < 0 \<or> me_bind env < 0 then (1, port, daemon, [])
         else if me_epoll env < 0 then (1, port, daemon, [mouse_packet m CONNECT port])
         else
           let (m', out) = mouse_loop (m\<lparr>g_udp_seq := 1\<rparr>) turns
           in (0, port, daemon, mouse_packet m CONNECT port # out @ [mouse_packet m' DISCONNECT port]))"

section \<open>The structures agree with the firmware's\<close>

lemma dec_cmd_agrees:
  "dec_UsbipCmdSubmit bs =
     map_option (\<lambda>c. \<lparr>uc_basic = \<lparr>hb_command = cs_command c, hb_seqnum = cs_seqnum c, hb_devid = cs_devid c,
                                    hb_direction = cs_direction c, hb_ep = cs_ep c\<rparr>,
                       uc_transfer_flags = cs_transfer_flags c, uc_transfer_buffer_length = cs_transfer_buffer_length c,
                       uc_start_frame = cs_start_frame c, uc_number_of_packets = cs_number_of_packets c,
                       uc_interval = cs_interval c, uc_setup = cs_setup c\<rparr>) (dec_cmd_submit bs)"
  by (simp add: dec_UsbipCmdSubmit_def dec_cmd_submit_def wire_size)

lemma enc_ret_agrees:
  "enc_UsbipRetSubmit r = enc_ret_submit
     \<lparr>rs_command = hb_command (ur_basic r), rs_seqnum = hb_seqnum (ur_basic r), rs_devid = hb_devid (ur_basic r),
      rs_direction = hb_direction (ur_basic r), rs_ep = hb_ep (ur_basic r), rs_status = ur_status r,
      rs_actual_length = ur_actual_length r, rs_start_frame = ur_start_frame r, rs_number_of_packets = ur_number_of_packets r,
      rs_error_count = ur_error_count r, rs_padding = ur_padding r\<rparr>"
  by (simp add: enc_UsbipRetSubmit_def enc_ret_submit_def)

text \<open>The lengths that the descriptors state are right; the mouse has one interrupt IN endpoint of four bytes.\<close>

lemma descriptors_consistent:
  "length DEVICE_DESC = unat (DEVICE_DESC ! 0)" "length STRING_LANG_DESC = unat (STRING_LANG_DESC ! 0)"
  "length CONFIG_DESC = unat (le16_of (CONFIG_DESC ! 2) (CONFIG_DESC ! 3))"
  "length HID_REPORT_DESC = unat (le16_of (CONFIG_DESC ! 25) (CONFIG_DESC ! 26))"
  "take 7 (drop 27 CONFIG_DESC) = [7, 5, 0x81, 3, 4, 0, 10]"
  by code_simp+

section \<open>Every request is answered\<close>

text \<open>A request as the kernel sends it: the header, and the data of a write.\<close>

definition request_ok :: "usbip_cmd_submit \<times> byte list \<Rightarrow> bool" where
  "request_ok = (\<lambda>(c, d).
     USBIP_U32 (cs_command c) \<in> {USBIP_CMD_SUBMIT, USBIP_CMD_UNLINK} \<and>
     length d = (if USBIP_U32 (cs_direction c) = USBIP_DIR_OUT then unat (USBIP_U32 (cs_transfer_buffer_length c)) else 0))"

definition request_bytes :: "usbip_cmd_submit \<times> byte list \<Rightarrow> byte list" where
  "request_bytes = (\<lambda>(c, d). enc_cmd_submit c @ d)"

text \<open>
  A well-typed \<open>RAW_DATA\<close> packet with the reply to a request: its command and sequence number, and an
  actual length that counts the data after the reply's header.
\<close>

definition answers :: "usbip_cmd_submit \<times> byte list \<Rightarrow> byte list \<Rightarrow> bool" where
  "answers = (\<lambda>(c, d) pkt.
     packet_ok pkt \<and> pkt ! 0 = CMD_RAW_DATA \<and>
     (\<exists>r. dec_ret_submit (drop sizeof_Header pkt) = Some r \<and> rs_seqnum r = cs_seqnum c \<and>
        USBIP_U32 (rs_command r) = (if USBIP_U32 (cs_command c) = USBIP_CMD_SUBMIT then USBIP_RET_SUBMIT else USBIP_RET_UNLINK) \<and>
        length pkt = sizeof_Header + sizeof_usbip + unat (USBIP_U32 (rs_actual_length r))))"

lemma udpSend_packet:
  assumes "udpSend m body = (m', pkts)" and "length body < 65536"
  shows "\<exists>pkt. pkts = [pkt] \<and> packet_ok pkt \<and> pkt ! 0 = CMD_RAW_DATA \<and> drop sizeof_Header pkt = body \<and> length pkt = sizeof_Header + length body \<and>
     g_udp_seq m' = g_udp_seq m + 1 \<and> MY_DEVICE_ID m' = MY_DEVICE_ID m"
proof -
  let ?hdr = "\<lparr>cmd_type = CmdType_value RAW_DATA, device_id = MY_DEVICE_ID m, endpoint = 0, seq = g_udp_seq m, payload_len = of_nat (length body)\<rparr>"
  have "packet_ok (enc_Header ?hdr @ body)"
    using assms(2) by (intro packet_okI [where c = RAW_DATA]) (simp_all add: unat_of_nat_16)
  moreover have "(enc_Header ?hdr @ body) ! 0 = CMD_RAW_DATA" by (simp add: enc_Header_def)
  ultimately show ?thesis using assms(1) by (auto simp: udpSend_def wire_size)
qed

lemma ret_submit_answers:
  assumes "sendRetSubmit m (USBIP_U32 (cs_seqnum c)) status data = (m', pkts)" and "length data \<le> 52"
    and "USBIP_U32 (cs_command c) = USBIP_CMD_SUBMIT"
  shows "\<exists>pkt. pkts = [pkt] \<and> answers (c, d) pkt \<and> g_udp_seq m' = g_udp_seq m + 1 \<and> MY_DEVICE_ID m' = MY_DEVICE_ID m"
proof -
  have n: "unat (of_nat (length data) :: u32) = length data" using assms(2) by (intro unat_of_nat_32) simp
  show ?thesis
    using assms(1) [unfolded sendRetSubmit_def, THEN udpSend_packet] assms(2,3) n
    by (auto simp: answers_def enc_ret_agrees wire_size basic_zero_def)
qed

lemma chosen_desc_short: "chosen_desc s = Some desc \<Longrightarrow> length desc \<le> 52"
  by (auto simp: chosen_desc_def Let_def DEVICE_DESC_def CONFIG_DESC_def STRING_LANG_DESC_def HID_REPORT_DESC_def split: if_splits)

lemma handleControlIn_sends: "\<exists>status data. handleControlIn m q s8 = sendRetSubmit m q status data \<and> length data \<le> 52"
proof (cases "s8 ! 1 = 0x06")
  case True
  show ?thesis
  proof (cases "chosen_desc s8")
    case None
    with True show ?thesis by (intro exI [of _ "-32"] exI [of _ "[]"]) (simp add: handleControlIn_def)
  next
    case (Some desc)
    let ?k = "if unat (getWLength s8) < length desc then unat (getWLength s8) else length desc"
    from chosen_desc_short [OF Some] True Some show ?thesis
      by (intro exI [of _ 0] exI [of _ "take ?k desc"]) (simp add: handleControlIn_def)
  qed
next
  case False
  let ?a = "s8 ! 0 = 0x80 \<and> s8 ! 1 = 0x08" and ?b = "s8 ! 0 = 0x81 \<and> s8 ! 1 = 0x0A"
  have "handleControlIn m q s8 = sendRetSubmit m q (if ?a \<or> ?b then 0 else -32) (if ?a then [1] else if ?b then [0] else [])"
    unfolding handleControlIn_def Let_def if_not_P [OF False] by (cases ?a; cases ?b) auto
  then show ?thesis by (intro exI conjI) (assumption, simp)
qed

lemma submit_answers:
  assumes c: "USBIP_U32 (cs_command c) = USBIP_CMD_SUBMIT"
  shows "\<exists>m' pkt. dispatchUsbip m (request_bytes (c, d)) = (m', [pkt]) \<and> answers (c, d) pkt \<and>
     g_udp_seq m' = g_udp_seq m + 1 \<and> MY_DEVICE_ID m' = MY_DEVICE_ID m"
proof -
  have ne: "USBIP_CMD_SUBMIT \<noteq> USBIP_CMD_UNLINK" by (simp add: const_defs)
  let ?q = "USBIP_U32 (cs_seqnum c)" and ?s = "arr8_bytes (cs_setup c)" and ?ep = "USBIP_U32 (cs_ep c)"
    and ?in = "USBIP_U32 (cs_direction c) = USBIP_DIR_IN"
  have run: "dispatchUsbip m (request_bytes (c, d)) =
     (if ?ep = 0 then if ?in then handleControlIn m ?q ?s else handleControlOut m ?q
      else if ?ep = 1 \<and> ?in then handleInterruptIn m ?q else sendRetSubmit m ?q (-32) [])"
    using c ne by (simp add: dispatchUsbip_def dec_cmd_agrees request_bytes_def)
  obtain m1 status data where r: "dispatchUsbip m (request_bytes (c, d)) = sendRetSubmit m1 ?q status data" "length data \<le> 52"
      "g_udp_seq m1 = g_udp_seq m" "MY_DEVICE_ID m1 = MY_DEVICE_ID m"
  proof (cases "?ep = 0 \<and> ?in")
    case True
    then show ?thesis using that [of m] run handleControlIn_sends [of m ?q ?s] by auto
  next
    case False
    then show ?thesis
      using that [of m 0 "[]"] that [of m "-32" "[]"] that [of "m\<lparr>g_dx := 0, g_dy := 0\<rparr>" 0 "[g_buttons m, g_dx m, g_dy m, 0]"] run
      by (cases "?ep = 0"; cases "?ep = 1 \<and> ?in") (simp_all add: handleControlOut_def handleInterruptIn_def Let_def)
  qed
  obtain m' pkts where p: "sendRetSubmit m1 ?q status data = (m', pkts)" by force
  from ret_submit_answers [OF this r(2) c] r show ?thesis by (auto simp: p)
qed

lemma unlink_answers:
  assumes c: "USBIP_U32 (cs_command c) = USBIP_CMD_UNLINK"
  shows "\<exists>m' pkt. dispatchUsbip m (request_bytes (c, d)) = (m', [pkt]) \<and> answers (c, d) pkt \<and>
     g_udp_seq m' = g_udp_seq m + 1 \<and> MY_DEVICE_ID m' = MY_DEVICE_ID m"
proof -
  have ne: "USBIP_CMD_SUBMIT \<noteq> USBIP_CMD_UNLINK" by (simp add: const_defs)
  let ?ret = "\<lparr>rs_command = USBIP_U32 USBIP_RET_UNLINK, rs_seqnum = cs_seqnum c, rs_devid = 0, rs_direction = 0, rs_ep = 0, rs_status = 0,
    rs_actual_length = 0, rs_start_frame = 0, rs_number_of_packets = 0, rs_error_count = 0, rs_padding = arr8_zero\<rparr>"
  have body: "unlink_reply (USBIP_U32 (cs_seqnum c)) = enc_ret_submit ?ret"
    by (simp add: unlink_reply_def enc_ret_submit_def le32_bytes_def arr8_zero_def numeral_eq_Suc)
  obtain m' pkts where p: "udpSend m (enc_ret_submit ?ret) = (m', pkts)" by force
  have "dispatchUsbip m (request_bytes (c, d)) = (m', pkts)"
    using c by (simp add: dispatchUsbip_def dec_cmd_agrees request_bytes_def body p)
  moreover have zero: "USBIP_U32 0 = 0" by (simp add: USBIP_U32_def le32_of_def)
  ultimately show ?thesis using udpSend_packet [OF p] c ne by (auto simp: answers_def wire_size zero)
qed

lemma usbip_stream_Nil: "usbip_stream m [] = (m, [])"
  by (simp add: usbip_stream.simps dec_UsbipCmdSubmit_def)

lemma usbip_stream_request:
  assumes "request_ok r"
  shows "usbip_stream m (request_bytes r @ rest) =
     (let (m1, out1) = dispatchUsbip m (request_bytes r); (m2, out2) = usbip_stream m1 rest in (m2, out1 @ out2))"
proof -
  obtain c d where r: "r = (c, d)" by (cases r)
  let ?n = "48 + length d"
  have "take ?n (request_bytes r @ rest) = request_bytes r" "drop ?n (request_bytes r @ rest) = rest"
    by (simp_all add: r request_bytes_def)
  then show ?thesis
    using assms by (subst usbip_stream.simps) (simp add: r request_ok_def request_bytes_def dec_cmd_agrees Let_def)
qed

lemma stream_answers:
  "list_all request_ok reqs \<Longrightarrow>
     \<exists>m' pkts. usbip_stream m (concat (map request_bytes reqs)) = (m', pkts) \<and> list_all2 answers reqs pkts \<and>
       g_udp_seq m' = g_udp_seq m + of_nat (length reqs)"
proof (induction reqs arbitrary: m)
  case Nil
  then show ?case by (simp add: usbip_stream_Nil)
next
  case (Cons r reqs)
  obtain c d where r: "r = (c, d)" by (cases r)
  have ok: "request_ok r" "USBIP_U32 (cs_command c) \<in> {USBIP_CMD_SUBMIT, USBIP_CMD_UNLINK}"
    using Cons.prems by (simp_all add: r request_ok_def)
  then obtain m1 pkt where 1: "dispatchUsbip m (request_bytes r) = (m1, [pkt])" "answers r pkt" "g_udp_seq m1 = g_udp_seq m + 1"
    using submit_answers [of c m d] unlink_answers [of c m d] r by blast
  obtain m2 pkts where 2: "usbip_stream m1 (concat (map request_bytes reqs)) = (m2, pkts)" "list_all2 answers reqs pkts"
      "g_udp_seq m2 = g_udp_seq m1 + of_nat (length reqs)"
    using Cons.IH [of m1] Cons.prems by auto
  from 1 2 usbip_stream_request [OF ok(1), of m "concat (map request_bytes reqs)"] show ?case by (simp add: add_ac)
qed

section \<open>Properties\<close>

text \<open>
  C32. The simulated mouse answers every request of a datagram exactly once and in order, also when the
  kernel puts several requests, with or without data, into one: the replies are well-typed
  \<open>RAW_DATA\<close> packets with consecutive sequence numbers, each with the request's number, the reply command
  that belongs to it, and an actual length that is the length of its data.
\<close>

theorem mouse_answers_every_request:
  assumes reqs: "list_all request_ok reqs" "length (concat (map request_bytes reqs)) \<le> 65536"
    and hdr: "cmd_type hdr = CMD_RAW_DATA" "device_id hdr = MY_DEVICE_ID m"
  shows "\<exists>m' pkts. on_datagram m (enc_Header hdr @ concat (map request_bytes reqs)) = (m', pkts) \<and>
     list_all2 answers reqs pkts \<and> g_udp_seq m' = g_udp_seq m + of_nat (length reqs)"
proof -
  let ?p = "concat (map request_bytes reqs)"
  have "take (65536 + sizeof_Header) (enc_Header hdr @ ?p) = enc_Header hdr @ ?p" using reqs(2) by (simp add: wire_size)
  then have "on_datagram m (enc_Header hdr @ ?p) = usbip_stream m ?p" using hdr by (simp add: on_datagram_def wire_size)
  with stream_answers [OF reqs(1), of m] show ?thesis by simp
qed

definition mouse_example :: mouse where
  "mouse_example = \<lparr>g_udp_seq = 1, MY_DEVICE_ID = 0, g_running = True, g_dx = 8, g_dy = 0, g_buttons = 0\<rparr>"

definition poll_request :: usbip_cmd_submit where
  "poll_request = \<lparr>cs_command = USBIP_U32 USBIP_CMD_SUBMIT, cs_seqnum = USBIP_U32 7, cs_devid = 0, cs_direction = USBIP_U32 USBIP_DIR_IN,
     cs_ep = USBIP_U32 1, cs_transfer_flags = 0, cs_transfer_buffer_length = USBIP_U32 4, cs_start_frame = 0, cs_number_of_packets = 0,
     cs_interval = 0, cs_setup = arr8_zero\<rparr>"

theorem mouse_answers_every_request_witness:
  "\<exists>m' pkts. on_datagram mouse_example (enc_Header \<lparr>cmd_type = CMD_RAW_DATA, device_id = 0, endpoint = 0, seq = 0, payload_len = 96\<rparr> @
       concat (map request_bytes [(poll_request, []), (poll_request, [])])) = (m', pkts) \<and>
     list_all2 answers [(poll_request, []), (poll_request, [])] pkts \<and> g_udp_seq m' = 3"
proof -
  have "list_all request_ok [(poll_request, []), (poll_request, [])]"
    by (simp add: request_ok_def poll_request_def const_defs)
  moreover have "length (concat (map request_bytes [(poll_request, []), (poll_request, [])])) \<le> 65536" by (simp add: request_bytes_def)
  ultimately show ?thesis
    using mouse_answers_every_request [of "[(poll_request, []), (poll_request, [])]"
        "\<lparr>cmd_type = CMD_RAW_DATA, device_id = 0, endpoint = 0, seq = 0, payload_len = 96\<rparr>" mouse_example]
    by (simp add: mouse_example_def)
qed

text \<open>What the daemon's datagram port looks at.\<close>

definition ignored :: "byte list \<Rightarrow> bool" where
  "ignored pkt \<longleftrightarrow> (\<forall>fd sender. udp_turn fd (Some (pkt, sender)) = [])"

lemma header_ignored: "cmd_type hdr \<noteq> CMD_DISCOVER \<Longrightarrow> ignored (enc_Header hdr @ body)"
proof -
  assume c: "cmd_type hdr \<noteq> CMD_DISCOVER"
  have "dec_Header (take MAX_PACKET (enc_Header hdr @ body)) = Some hdr" by (simp add: const_defs)
  then have "onUdpReadable (Some (take MAX_PACKET (enc_Header hdr @ body))) = None" using c by (simp add: onUdpReadable_def take_take del: take_append)
  then show ?thesis by (simp add: ignored_def udp_turn_def recvFrom_def)
qed

lemma udpSend_ignored: "list_all ignored (snd (udpSend m body))"
  by (simp add: udpSend_def header_ignored const_defs)

lemma sendRetSubmit_ignored: "list_all ignored (snd (sendRetSubmit m q status data))"
  by (simp add: sendRetSubmit_def udpSend_ignored)

lemma dispatch_ignored: "list_all ignored (snd (dispatchUsbip m buf))"
proof -
  have "list_all ignored (snd (handleControlIn m q s8))" for q s8
    using handleControlIn_sends [of m q s8] sendRetSubmit_ignored by metis
  then show ?thesis
    by (simp add: dispatchUsbip_def udpSend_ignored sendRetSubmit_ignored handleControlOut_def handleInterruptIn_def Let_def split: option.split)
qed

lemma stream_ignored: "list_all ignored (snd (usbip_stream m p))"
proof (induction m p rule: usbip_stream.induct)
  case (1 m p)
  show ?case
  proof (cases "dec_UsbipCmdSubmit p")
    case None
    then show ?thesis by (simp add: usbip_stream.simps)
  next
    case (Some hdr)
    define n where "n = 48 + (if USBIP_U32 (hb_direction (uc_basic hdr)) = USBIP_DIR_OUT
      then unat (USBIP_U32 (uc_transfer_buffer_length hdr)) else 0)"
    obtain m1 out1 where d: "dispatchUsbip m (take n p) = (m1, out1)" by force
    obtain m2 out2 where t: "usbip_stream m1 (drop n p) = (m2, out2)" by force
    have run: "usbip_stream m p = (if n > length p then (m, []) else (m2, out1 @ out2))"
      by (subst usbip_stream.simps) (simp only: Some option.case Let_def n_def [symmetric] d t prod.case)
    have "list_all ignored out2" if "\<not> n > length p"
      using "1.IH" [OF Some refl n_def that d [symmetric] refl] t by simp
    with run dispatch_ignored [of m "take n p"] d show ?thesis by simp
  qed
qed

lemma turn_ignored: "list_all ignored (snd (mouse_turn m evs))"
proof (induction m evs rule: mouse_turn.induct)
  case (2 m bs evs)
  have d: "list_all ignored (snd (on_datagram m bs))" by (simp add: on_datagram_def stream_ignored Let_def split: option.split)
  obtain m1 out1 where 1: "on_datagram m bs = (m1, out1)" by force
  obtain m2 out2 where t: "mouse_turn m1 evs = (m2, out2)" by force
  from "2.IH" [OF refl 1 [symmetric]] 1 t d show ?case by simp
qed simp_all

lemma loop_ignored: "list_all ignored (snd (mouse_loop m turns))"
proof (induction turns arbitrary: m)
  case (Cons turn turns)
  obtain m1 out1 where 1: "mouse_turn m turn = (m1, out1)" by force
  obtain m2 out2 where 2: "mouse_loop m1 turns = (m2, out2)" by force
  from Cons [of m1] turn_ignored [of m turn] 1 2 show ?case by simp
qed simp

text \<open>
  C33. The simulated mouse cannot be used with this daemon. Whatever its arguments, the keys pressed and
  the datagrams it gets, every datagram it sends, from the announcement to the farewell, goes to the
  daemon's UDP port and is ignored there: events and data are accepted on TCP connections only.
\<close>

theorem mouse_test_is_ignored:
  "case mouse_main env turns of (code, port, dest, pkts) \<Rightarrow>
     sin_port dest = htons DAEMON_PORT \<and> list_all (\<lambda>pkt. \<forall>fd sender. udp_turn fd (Some (pkt, sender)) = []) pkts"
proof -
  have "ignored (mouse_packet m ev port)" for m ev port by (simp add: mouse_packet_def header_ignored const_defs)
  then show ?thesis
    using loop_ignored [of "\<lparr>g_udp_seq = 1, MY_DEVICE_ID = case me_id env of None \<Rightarrow> 0 | Some n \<Rightarrow> of_nat n, g_running = True, g_dx = 0, g_dy = 0, g_buttons = 0\<rparr>" turns]
    unfolding ignored_def by (auto simp: mouse_main_def makeAddr_def Let_def split: prod.split)
qed

text \<open>
  The movement is kept in eight bits: up to 16 presses of a key between two polls add up, and the 17th
  turns the movement round.
\<close>

lemma keys_add_up: "g_dy (foldl on_key m (replicate k (CHR ''w''))) = g_dy m - of_nat k * STEP"
  by (induction k arbitrary: m) (simp_all add: on_key_def algebra_simps)

lemma seventeen_keys_turn_round:
  assumes "g_dy m = 0"
  shows "k \<le> 16 \<Longrightarrow> sint (g_dy (foldl on_key m (replicate k (CHR ''w'')))) = - 8 * int k"
    and "sint (g_dy (foldl on_key m (replicate 17 (CHR ''w'')))) = 120"
proof -
  have "list_all (\<lambda>k. sint (- (of_nat k * STEP)) = - 8 * int k) [0..<17]" by code_simp
  then show "k \<le> 16 \<Longrightarrow> sint (g_dy (foldl on_key m (replicate k (CHR ''w'')))) = - 8 * int k"
    unfolding keys_add_up assms by (simp add: list_all_iff)
  show "sint (g_dy (foldl on_key m (replicate 17 (CHR ''w'')))) = 120"
    unfolding keys_add_up assms by code_simp
qed

end
