(* ===== verification/Spec2Isabelle.thy ===== *)
theory Spec2Isabelle
  imports Daemon_Run Session_Races Usb_Tasks Mouse_Test
begin

text \<open>
  \<^bold>\<open>WirelessHub: a verification development.\<close>

  \<^bold>\<open>The program.\<close> WirelessHub makes a USB device that is plugged into an ESP32 appear on a Linux host.
  The firmware (\<open>src/esp-codes/main\<close>) joins a WiFi network, or opens a setup portal to ask for one
  (\<open>wifi_manager.c\<close>), finds the host by a broadcast (\<open>hub_client.c\<close>), drives the USB device
  (\<open>usb_driver.c\<close>) and runs one session per device (\<open>device_session.c\<close>), which announces the device
  over TCP and exchanges its data as UDP datagrams in the format of \<open>daemon/src/protocol/Protocol.h\<close>.
  Log lines go to the host (\<open>log_forwarder.c\<close>) and to a ring in RTC memory that survives a crash
  (\<open>crash_reporter.c\<close>); \<open>app_main.c\<close> starts everything. The daemon (\<open>src/daemon/src\<close>) answers the
  broadcast and keeps the sessions (\<open>network/HubServer.cpp\<close>), attaches each device to the kernel's
  virtual host controller (\<open>usbip/VhciDriver.cpp\<close>), moves data between the kernel and the connection
  (\<open>handlers/PassthroughHandler.cpp\<close>, \<open>network/TcpSocket.cpp\<close>) and is driven by the epoll loop of
  \<open>main.cpp\<close>.

  \<^bold>\<open>The theories.\<close> One theory per component, in the order of the calls. Definitions have the names of
  the functions they translate; \<open>X_from\<close>, \<open>X_loop\<close> and \<open>X_step\<close> are the loop of \<open>X\<close> and one step of it.

  \<^item> \<open>Prelude\<close>: words and byte order, bounded buffers, C strings, decimal numbers, the locale \<open>codec\<close>,
    event groups, and \<open>reach\<close> with the locale \<open>inductive_invariant\<close> for state machines.
  \<^item> \<open>Protocol\<close>, \<open>Usbip_Proto\<close>: the packed structures of \<open>Protocol.h\<close> and \<open>usbip_proto.h\<close> as records
    with \<open>enc_T\<close>/\<open>dec_T\<close>; every structure interprets \<open>codec\<close> (decoding inverts encoding, exact sizes).
  \<^item> \<open>Device_Ops\<close>: the table \<open>device_ops_t\<close> and its contract, the locale \<open>device_driver\<close>.
  \<^item> \<open>Usb_Driver\<close>: \<open>usb_driver.c\<close>. The statics are \<open>usb_state\<close>; callbacks, pipes and transfers are
    functions on it that return the host-library calls they make. It interprets \<open>device_driver\<close>.
    Every reachable state keeps \<open>usb_inv\<close>, under which no operation leaves its buffers.
  \<^item> \<open>Reassembly\<close>: \<open>reasm_push\<close> with its fragment slots; it refines a partial map from fragment
    numbers to data, hence the delivered transfer does not depend on the order of arrival.
  \<^item> \<open>Device_Session\<close>: fragmentation (\<open>send_raw\<close>), event packets (\<open>send_device_event\<close>) with the lifetime of
    their socket, and the USB/IP request handlers.
  \<^item> \<open>Session_Tasks\<close>: the control task, the two data tasks and the driver as interleaved steps
    (\<open>sess_step\<close>), with the invariant \<open>sess_inv\<close> on event bits, sockets and buffers.
  \<^item> \<open>Session_Races\<close>: the same tasks with every access to shared state as a step of its own
    (\<open>race_step\<close>), datagrams marked with the session they belong to and the one they are sent in.
  \<^item> \<open>Usb_Async\<close>, \<open>Usb_Tasks\<close>: the blocking calls of \<open>usb_driver.c\<close> split at their waits, with the
    semaphores and the receive queue (\<open>usb_async\<close>); the client and watchdog tasks, and the driver's
    steps interleaved with those of its caller (\<open>drv_step\<close>).
  \<^item> \<open>Tcp_Socket\<close>, \<open>Sockets\<close>: exact-length reads and writes; constructors, moves and destructors of
    the socket classes and who owns which descriptor.
  \<^item> \<open>Passthrough_Handler\<close>, \<open>Vhci_Driver\<close>: the data path to the kernel, and the port table with the
    locale \<open>port_table\<close>.
  \<^item> \<open>Hub_Server\<close>: \<open>HubServer.cpp\<close>. The session map owns the sessions and the two descriptor maps hold
    plain pointers, so sessions live in a store of addresses; following a pointer to a freed session
    is \<open>None\<close>. The locale \<open>session_registry\<close> is what the event loop relies on.
  \<^item> \<open>Daemon_Main\<close>, \<open>Daemon_Run\<close>: set-up, callbacks, one event (\<open>handle_event\<close>) and the loop as a step
    relation (\<open>daemon_step\<close>); then batches of events, the loop as a function (\<open>main_loop\<close>), shutdown and
    the destructors (\<open>daemon_exit\<close>).
  \<^item> \<open>Daemon_Text\<close>: the log macros of \<open>Log.h\<close>, \<open>makeAddr\<close>, and the datagram calls of \<open>UdpSocket.cpp\<close>.
  \<^item> \<open>Hub_Client\<close>: the discovery task as steps of \<open>hub_discover_step\<close>.
  \<^item> \<open>Crash_Reporter\<close>, \<open>Log_Forwarder\<close>: the RTC ring, which interprets the locale \<open>log_history\<close>, the
    crash report, the log hook, and the sender with its reconnect delays.
  \<^item> \<open>Portal_Text\<close>, \<open>Portal_Page\<close>, \<open>Dns_Hijack\<close>, \<open>Wifi_Manager\<close>: \<open>wifi_manager.c\<close>, split into form
    decoding and HTML escaping, the page with its text, the DNS server, and credentials, request
    handlers, modes, events and retries.
  \<^item> \<open>App_Main\<close>: the order of the firmware's start-up.
  \<^item> \<open>Wire_Types\<close>: the enumerations of \<open>Protocol.h\<close>, each an interpretation of the locale \<open>wire_enum\<close>, and
    a type of packets over them.
  \<^item> \<open>Mouse_Test\<close>: \<open>tests/WasdMouseTest.cpp\<close>, a simulated device, beside the daemon it talks to.
  \<^item> this theory: what firmware and daemon do together.

  \<^bold>\<open>What is shown.\<close> Properties carry the ids C1 to C40.

  \<^item> Across firmware and daemon: discovery (C17), a device announced is attached (C12), a log line
    arrives with its level (C11), packets are of the declared types (C13); the datagrams with device
    data are ignored by the daemon (C18).
  \<^item> Session layer: memory safety in every interleaving (C1), delivery of fragmented transfers (C2),
    exactly one reply to each request (C4), event bits and descriptors (C5), the control task's way to
    the active state and back (C22). Between single accesses: a round is an undisturbed run of them
    (C15), sessions are kept apart when the delay of the tear-down is long enough (C6), and what
    happens when it is not (C19).
  \<^item> USB driver: memory safety with completions and removals at any time (C14) except for the case of
    C25; calls that complete in time (C23) and what one that does not leaves behind (C24).
  \<^item> Daemon: an invariant over sessions, maps and descriptors that every event keeps (C3), except for
    the case of C30; runs end with every descriptor closed once (C8); the session store (C26),
    descriptors (C31, C40), exact reads (C27), the kernel side (C38, C39); no session is ever created
    by the loop (C7). C12, C3 and C8 hold for states with sessions and with pending connections that
    are delivered, which C7 says the loop as written never reaches: they state what the handlers do
    when called.
  \<^item> Portal and WiFi: from the list of networks in the page to the station (C9), credentials from form
    to station (C16), bits and retries (C20, C21), DNS (C28, C29).
  \<^item> Logging and start-up: the crash report (C10, C34), lines in order (C35), the boot sequence (C36),
    the bits of the discovery task (C37).
  \<^item> Mouse test: it answers every request (C32), but the daemon ignores it (C33).

  \<^bold>\<open>Conventions.\<close> Integers of fixed width are words; \<open>int\<close> and \<open>size_t\<close> values that stay within the
  range of their type are \<open>int\<close> and \<open>nat\<close>. Arrays have their full size and \<open>None\<close> is an access outside
  of one, so that a result other than \<open>None\<close> is memory safety. Answers of the operating system, of
  ESP-IDF and of hardware are arguments, the calls made are results. There is no fuel: loops are total
  functions, with a measure where the recursion is not structural, or consume a list of answers, and
  \<open>None\<close> is a call that has not returned when the answers end. The theorems on such loops say which
  answers make them return.

  \<^bold>\<open>Assumptions\<close>, each named in the statements that use it: \<open>event_group_spec\<close> (FreeRTOS event groups),
  \<open>queue_spec\<close> (FreeRTOS queues), \<open>nvs_spec\<close> (flash storage), \<open>alloc_spec\<close> (a transfer has the size asked
  for), \<open>httpd_spec\<close> (the server finds a handler by its path and method), \<open>env_fresh\<close> and \<open>pair_fresh\<close> (the system returns descriptors that are not in use). The models
  \<open>mask_eg\<close>, \<open>list_queue\<close>, \<open>map_nvs\<close>, \<open>zero_alloc\<close> and \<open>lookup_list\<close> show that they can hold.

  \<^bold>\<open>Granularity.\<close> Steps of the control task and of the discovery task are single calls on shared state;
  data tasks and driver calls are modelled both as whole rounds and by single accesses. An event of the
  daemon, which has one thread, and a WiFi event or request handler are one step each.

  \<^bold>\<open>Not modelled.\<close> The \<open>ESP_LOGx\<close> lines of the firmware and counters only they read, and the length of
  delays, as nothing depends on them; what the daemon's log calls print is modelled for the lines that
  come from the device. \<open>VhciDriver::readRequest\<close>, \<open>writeResponse\<close> and \<open>getFd\<close>, which nothing calls.
  Declarations that have no behaviour of their own: class interfaces, deleted copy operations, accessors
  that return a member. The destructors and moves of \<open>TcpServer\<close> and \<open>UdpSocket\<close> have the code of those
  of \<open>TcpSocket\<close> and are modelled once. How ESP-IDF, FreeRTOS, the C library and the kernel do what they
  are asked for. The terminal settings and help text of the mouse test.
\<close>

section \<open>Discovery\<close>

text \<open>
  C17. Firmware and daemon find each other. However many attempts failed before, an attempt whose
  \<open>DISCOVER\<close> datagram reaches the daemon and whose answer comes back ends the search: the firmware then
  has the address the answer came from and the daemon's port, 7788, and \<open>DAEMON_FOUND_BIT\<close> is set.
\<close>

theorem discovery_handshake:
  assumes "event_group_spec E" and "list_all (\<lambda>io. fst (discover_attempt io) = None) fails"
    and "0 \<le> hi_socket io" and "0 \<le> hi_broadcast io" and "0 \<le> hi_sendto io"
    and "hi_reply io = map_option (\<lambda>reply. (reply, ip)) (onUdpReadable (Some discover_packet))" and "length rest = 5"
  shows "\<exists>c'. hub_run E (fails @ io # rest) (H_Discover, c) = Some (H_Wait_Lost, c') \<and>
     hub_client_daemon_found c' \<and> hub_client_daemon_ip c' = ip \<and> hub_client_daemon_port c' = 7788 \<and>
     eg_has E (hc_eg c') DAEMON_FOUND_BIT \<and> \<not> eg_has E (hc_eg c') DAEMON_LOST_BIT"
proof -
  have "onUdpReadable (Some discover_packet) \<noteq> None"
    using udp_answers_only_discover [of "Some discover_packet"] header.dec_exact by (auto simp: discover_packet_def)
  then obtain reply where reply: "onUdpReadable (Some discover_packet) = Some reply" by blast
  have "length reply = 8" "map_option cmd_type (dec_Header reply) = Some CMD_DISCOVER_REPLY"
    "map_option daemon_port (dec_DiscoverReply (drop 6 reply)) = Some 7788"
    using udp_answers_only_discover [of "Some discover_packet"] reply by (auto simp: DAEMON_PORT_def)
  then have "attempt_answered io ip 7788"
    using assms(3-6) reply by (simp add: attempt_answered_def)
  from discovery_succeeds [OF assms(1,2) this assms(7)] show ?thesis .
qed

theorem discovery_handshake_witness:
  "\<exists>c'. hub_run mask_eg (replicate 6 (reply_io\<lparr>hi_reply := map_option (\<lambda>reply. (reply, 0x0A00A8C0)) (onUdpReadable (Some discover_packet))\<rparr>))
        (H_Discover, hub_client_start mask_eg) = Some (H_Wait_Lost, c') \<and> hub_client_daemon_port c' = 7788"
proof -
  let ?io = "reply_io\<lparr>hi_reply := map_option (\<lambda>reply. (reply, 0x0A00A8C0)) (onUdpReadable (Some discover_packet))\<rparr>"
  have "replicate 6 ?io = [] @ ?io # replicate 5 ?io" by (simp add: numeral_eq_Suc)
  with discovery_handshake [OF mask_eg_spec, of "[]" ?io "0x0A00A8C0" "replicate 5 ?io" "hub_client_start mask_eg"]
  show ?thesis by (auto simp: reply_io_def simp del: hub_run.simps)
qed

section \<open>Announcing a device\<close>



text \<open>A line end, as the daemon strips it from a log message.\<close>

definition line_end :: "char \<Rightarrow> bool" where
  "line_end c \<longleftrightarrow> is_nl (byte_of_char c)"

section \<open>Log lines\<close>



section \<open>Data of a device\<close>

text \<open>
  C18. What a session sends back from its device does not reach the daemon's handler: the firmware
  sends \<open>RAW_DATA\<close> and \<open>RAW_FRAG\<close> packets as datagrams, and the daemon's datagram port reacts to
  \<open>DISCOVER\<close> only. Every datagram that \<open>send_raw\<close> produces, for any data, is ignored.
\<close>

theorem raw_data_is_ignored:
  assumes "send_raw s data = Some (s', pkts)" and "pkt \<in> set pkts"
  shows "onUdpReadable (Some pkt) = None"
proof -
  have "map_option cmd_type (dec_Header pkt) \<in> {Some CMD_RAW_DATA, Some CMD_RAW_FRAG}"
  proof (cases "0 \<le> ss_sock s")
    case False
    with assms show ?thesis by (simp add: send_raw_def)
  next
    case True
    show ?thesis
    proof (cases "length data \<le> MTU_PAYLOAD")
      case small: True
      then have "pkt = enc_Header (raw_header s CMD_RAW_DATA (length data)) @ data"
        using assms send_raw_single [OF True small] by auto
      then show ?thesis using header.dec_enc by (simp add: raw_header_def)
    next
      case False
      then obtain n i chunks where "pkt = frag_packet s (ss_out_transfer_seq s) n chunks i"
        using assms send_raw_many [OF True, of data] by (auto simp: Let_def split: if_splits)
      then show ?thesis using header.dec_enc by (simp add: frag_packet_def raw_header_def)
    qed
  qed
  then show ?thesis
    using udp_answers_only_discover [of "Some pkt"] by (cases "onUdpReadable (Some pkt)") (auto simp: const_defs)
qed

theorem raw_data_is_ignored_witness:
  "onUdpReadable (Some (enc_Header (raw_header mouse_session CMD_RAW_DATA 1) @ [9])) = None"
  by (rule raw_data_is_ignored [OF send_raw_single, of mouse_session "[9]"])
    (auto simp: mouse_session_def MTU_PAYLOAD_def)

end
